(* ===== verification/Crunch_Prelude.thy ===== *)
theory Crunch_Prelude
  imports Main "HOL-Library.Word"
begin

text \<open>
  Shared vocabulary of the development: the machine integers of the C code, the byte-addressed
  memory that the shadow space and the shadow stack live in, the outcomes of code that can call
  \<^verbatim>\<open>abort()\<close> or reach a \<^verbatim>\<open>__builtin_unreachable()\<close>, and the lemmas on words and memory that
  every component uses.  Collections: \<open>trap_defs\<close> unfolds the trap-pointer operations,
  \<open>bounds_defs\<close> the bounds operations, \<open>mem_simps\<close> holds the read-over-write rules.
\<close>

unbundle bit_operations_syntax

named_theorems trap_defs "definitions of the trap-pointer operations"
named_theorems bounds_defs "definitions of the bounds operations"
named_theorems mem_simps "read-over-write rules of the byte memory"

type_synonym u8 = "8 word"
type_synonym u16 = "16 word"
type_synonym u32 = "32 word"
type_synonym u64 = "64 word"

text \<open>An address (\<^verbatim>\<open>void *\<close>, \<^verbatim>\<open>unsigned long\<close>) of the x86-64 target.\<close>

type_synonym addr = u64

text \<open>A memory gives every byte address its content.\<close>

type_synonym mem = "addr \<Rightarrow> u8"

text \<open>
  How C code can fail to return: \<^verbatim>\<open>abort()\<close>, a failed \<^verbatim>\<open>assert\<close>, reaching code the source
  declares unreachable, dereferencing a null pointer, dividing by zero, reading an uninitialised
  variable, indexing an array outside its bounds, shifting by the width of the operand (all six
  undefined behaviour), leaving the process, or a loop that does not end within the fuel its caller
  gives it.
\<close>

datatype fault = Aborted | AssertFailed | Unreachable | NullDeref | DivByZero | UninitRead
  | BadIndex | BadShift | Exited | NonTermination

type_synonym 'a outcome = "fault + 'a"

definition obind :: "'a outcome \<Rightarrow> ('a \<Rightarrow> 'b outcome) \<Rightarrow> 'b outcome" where
  "obind r f = (case r of Inl e \<Rightarrow> Inl e | Inr x \<Rightarrow> f x)"

definition omap :: "('a \<Rightarrow> 'b) \<Rightarrow> 'a outcome \<Rightarrow> 'b outcome" where
  "omap f r = (case r of Inl e \<Rightarrow> Inl e | Inr x \<Rightarrow> Inr (f x))"

text \<open>\<open>n\<close> bytes of memory from \<open>a\<close> on, and writing a list of bytes; addresses wrap around.\<close>

definition load_bytes :: "mem \<Rightarrow> addr \<Rightarrow> nat \<Rightarrow> u8 list" where
  "load_bytes m a n = map (\<lambda>i. m (a + of_nat i)) [0..<n]"

definition store_bytes :: "mem \<Rightarrow> addr \<Rightarrow> u8 list \<Rightarrow> mem" where
  "store_bytes m a bs = (\<lambda>x. if unat (x - a) < length bs then bs ! unat (x - a) else m x)"

text \<open>Little-endian encoding of a word.\<close>

definition bytes_of :: "nat \<Rightarrow> 'a::len word \<Rightarrow> u8 list" where
  "bytes_of n w = map (\<lambda>i. ucast (drop_bit (8 * i) w)) [0..<n]"

fun word_of_bytes :: "u8 list \<Rightarrow> 'a::len word" where
  "word_of_bytes [] = 0"
| "word_of_bytes (b # bs) = (ucast b) OR (push_bit 8 (word_of_bytes bs))"

definition load32 :: "mem \<Rightarrow> addr \<Rightarrow> u32" where
  "load32 m a = word_of_bytes (load_bytes m a 4)"

definition load64 :: "mem \<Rightarrow> addr \<Rightarrow> u64" where
  "load64 m a = word_of_bytes (load_bytes m a 8)"

definition store32 :: "mem \<Rightarrow> addr \<Rightarrow> u32 \<Rightarrow> mem" where
  "store32 m a v = store_bytes m a (bytes_of 4 v)"

definition store64 :: "mem \<Rightarrow> addr \<Rightarrow> u64 \<Rightarrow> mem" where
  "store64 m a v = store_bytes m a (bytes_of 8 v)"

text \<open>The C library's \<^verbatim>\<open>memmove\<close>: the source bytes are read before any is written.\<close>

definition memmove :: "mem \<Rightarrow> addr \<Rightarrow> addr \<Rightarrow> u64 \<Rightarrow> mem" where
  "memmove m d s n = (\<lambda>x. if unat (x - d) < unat n then m (s + (x - d)) else m x)"

text \<open>Two byte ranges share no address.\<close>

definition ranges_disjoint :: "addr \<Rightarrow> nat \<Rightarrow> addr \<Rightarrow> nat \<Rightarrow> bool" where
  "ranges_disjoint a n b k \<longleftrightarrow> (\<forall>i<n. \<forall>j<k. a + of_nat i \<noteq> b + of_nat j)"


subsection \<open>Outcomes\<close>

lemma obind_simps [simp]: "obind (Inl e) f = Inl e" "obind (Inr x) f = f x"
  by (simp_all add: obind_def)

lemma omap_simps [simp]: "omap f (Inl e) = Inl e" "omap f (Inr x) = Inr (f x)"
  by (simp_all add: omap_def)

lemma obind_eq_Inr [simp]: "obind r f = Inr y \<longleftrightarrow> (\<exists>x. r = Inr x \<and> f x = Inr y)"
  by (cases r) simp_all

lemma omap_eq_Inr [simp]: "omap f r = Inr y \<longleftrightarrow> (\<exists>x. r = Inr x \<and> y = f x)"
  by (cases r) auto


subsection \<open>Words\<close>

lemma unat_of_nat_u64: "i < 2 ^ 64 \<Longrightarrow> unat (of_nat i :: u64) = i"
  by (simp add: unat_of_nat take_bit_nat_eq_self)

lemma of_nat_u64_eq_iff:
  "i < 2 ^ 64 \<Longrightarrow> j < 2 ^ 64 \<Longrightarrow> (of_nat i :: u64) = of_nat j \<longleftrightarrow> i = j"
  by (metis unat_of_nat_u64)

lemma unat_sub_offset: "i < 2 ^ 64 \<Longrightarrow> unat ((a :: u64) + of_nat i - a) = i"
  by (simp add: unat_of_nat_u64)

lemma unat_add_nowrap:
  "unat (a :: u64) + unat b < 2 ^ 64 \<Longrightarrow> unat (a + b) = unat a + unat b"
  by (simp add: unat_word_ariths)

lemma unat_sub_nowrap: "(b :: u64) \<le> a \<Longrightarrow> unat (a - b) = unat a - unat b"
  by (simp add: unat_sub)

lemma unat_drop_bit_u64: "unat (drop_bit n (a :: 'a::len word)) = unat a div 2 ^ n"
  by (subst unat_drop_bit_eq) (rule drop_bit_eq_div)

lemma unat_take_bit_u64: "unat (take_bit n (a :: 'a::len word)) = unat a mod 2 ^ n"
  by (subst unsigned_take_bit_eq) (rule take_bit_eq_mod)

lemma unat_u64_bound: "unat (a :: u64) < 2 ^ 64"
  using unsigned_less[of a] by simp

lemma xor_xor_cancel [simp]: "(a :: 'a::len word) XOR b XOR b = a"
  by (simp add: xor.assoc)

lemma xor_left_cancel [simp]: "(a :: 'a::len word) XOR (a XOR b) = b"
  by (simp flip: xor.assoc)

lemma and_3_take_bit: "(x :: 'a::len word) AND 3 = take_bit 2 x"
  by (simp add: take_bit_eq_mask mask_eq_exp_minus_1)

text \<open>
  Signed right shift after left shift is sign extension: the idiom
  \<^verbatim>\<open>((signed long) (v << n)) >> n\<close> of the code.
\<close>

lemma shl_sar_signed_take_bit:
  fixes w :: u64
  assumes "n < 64"
  shows "signed_drop_bit n (push_bit n w) = signed_take_bit (63 - n) w"
proof (rule bit_word_eqI)
  fix k assume k: "k < LENGTH(64)"
  show "bit (signed_drop_bit n (push_bit n w)) k = bit (signed_take_bit (63 - n) w) k"
  proof (cases "k = 63 - n")
    case True
    then show ?thesis using assms k by (auto simp: bit_simps min_def)
  next
    case False
    then show ?thesis using assms k by (auto simp: bit_simps min_def)
  qed
qed

lemma bit_small_u64:
  fixes w :: u64
  assumes "unat w < 2 ^ n" "n \<le> k"
  shows "\<not> bit w k"
proof -
  have "unat w < 2 ^ k"
    using assms by (meson le_trans linorder_not_less one_le_numeral power_increasing)
  then have "\<not> bit (unat w) k" by (simp add: bit_iff_odd)
  then show ?thesis by (auto simp: bit_unsigned_iff dest: bit_imp_le_length)
qed

lemma signed_take_bit_mask_small:
  fixes w :: u64
  assumes "n < 64" "unat w < 2 ^ n"
  shows "signed_take_bit n w = w"
proof (rule bit_word_eqI)
  fix k assume k: "k < LENGTH(64)"
  show "bit (signed_take_bit n w) k = bit w k"
    using bit_small_u64[OF assms(2), of k] bit_small_u64[OF assms(2), of n] assms k
    by (cases "n \<le> k") (auto simp: bit_simps min_def)
qed


subsection \<open>The byte memory\<close>

lemma length_load_bytes [simp]: "length (load_bytes m a n) = n"
  by (simp add: load_bytes_def)

lemma length_bytes_of [simp]: "length (bytes_of n w) = n"
  by (simp add: bytes_of_def)

lemma load_store_bytes_same [mem_simps]:
  assumes "length bs \<le> 2 ^ 64"
  shows "load_bytes (store_bytes m a bs) a (length bs) = bs"
  using assms by (intro nth_equalityI) (auto simp: load_bytes_def store_bytes_def unat_of_nat_u64)

lemma store_bytes_outside:
  assumes "ranges_disjoint a n b (length bs)" "i < n" "length bs \<le> 2 ^ 64"
  shows "store_bytes m b bs (a + of_nat i) = m (a + of_nat i)"
proof -
  have "\<not> unat (a + of_nat i - b) < length bs"
  proof
    assume "unat (a + of_nat i - b) < length bs"
    moreover have "a + of_nat i = b + of_nat (unat (a + of_nat i - b))"
      by simp
    ultimately show False
      using assms(1,2) unfolding ranges_disjoint_def by blast
  qed
  then show ?thesis by (simp add: store_bytes_def)
qed

lemma load_store_bytes_disjoint [mem_simps]:
  assumes "ranges_disjoint a n b (length bs)" "length bs \<le> 2 ^ 64"
  shows "load_bytes (store_bytes m b bs) a n = load_bytes m a n"
  using assms by (auto simp: load_bytes_def store_bytes_outside)

lemma bit_word_of_bytes:
  "bit (word_of_bytes bs :: 'a::len word) k \<longleftrightarrow>
     k < LENGTH('a) \<and> k < 8 * length bs \<and> bit (bs ! (k div 8)) (k mod 8)"
proof (induction bs arbitrary: k)
  case Nil
  then show ?case by simp
next
  case (Cons b bs)
  show ?case
  proof (cases "k < 8")
    case True
    then show ?thesis by (auto simp: bit_simps)
  next
    case False
    then have "k div 8 = Suc ((k - 8) div 8)" "(k - 8) mod 8 = k mod 8"
      by (auto simp: le_div_geq le_mod_geq)
    moreover have "\<not> bit b k"
      using False by (simp add: bit_word_iff_drop_bit_and impossible_bit)
    moreover have "k - 8 < 8 * length bs \<longleftrightarrow> k < 8 * length (b # bs)"
      using False by auto
    ultimately show ?thesis
      using False Cons.IH[of "k - 8"] by (auto simp: bit_simps)
  qed
qed

lemma word_of_bytes_bytes_of:
  assumes "LENGTH('a) = 8 * n"
  shows "word_of_bytes (bytes_of n w) = (w :: 'a::len word)"
proof (rule bit_word_eqI)
  fix k assume "k < LENGTH('a)"
  moreover from this assms have "k div 8 < n" by auto
  ultimately show "bit (word_of_bytes (bytes_of n w) :: 'a word) k = bit w k"
    using assms by (auto simp: bit_word_of_bytes bytes_of_def bit_simps)
qed

lemma load_store32 [mem_simps]: "load32 (store32 m a v) a = v"
  using load_store_bytes_same[of "bytes_of 4 v" m a]
  by (simp add: load32_def store32_def word_of_bytes_bytes_of)

lemma load_store64 [mem_simps]: "load64 (store64 m a v) a = v"
  using load_store_bytes_same[of "bytes_of 8 v" m a]
  by (simp add: load64_def store64_def word_of_bytes_bytes_of)

lemma load_store_disjoint [mem_simps]:
  "ranges_disjoint a 8 b 8 \<Longrightarrow> load64 (store64 m b v) a = load64 m a"
  "ranges_disjoint a 8 b 4 \<Longrightarrow> load64 (store32 m b w) a = load64 m a"
  "ranges_disjoint a 4 b 8 \<Longrightarrow> load32 (store64 m b v) a = load32 m a"
  "ranges_disjoint a 4 b 4 \<Longrightarrow> load32 (store32 m b w) a = load32 m a"
  by (simp_all add: load64_def load32_def store64_def store32_def load_store_bytes_disjoint)

lemma ranges_disjointI_unat:
  assumes "unat a + n \<le> unat b \<or> unat b + k \<le> unat a"
    and "unat a + n \<le> 2 ^ 64" "unat b + k \<le> 2 ^ 64"
  shows "ranges_disjoint a n b k"
  unfolding ranges_disjoint_def
proof (intro allI impI)
  fix i j assume ij: "i < n" "j < k"
  have "unat (a + of_nat i) = unat a + i" "unat (b + of_nat j) = unat b + j"
    using assms ij by (simp_all add: unat_word_ariths unat_of_nat_u64)
  with assms(1) ij show "a + of_nat i \<noteq> b + of_nat j" by auto
qed

lemma ranges_disjoint_sym: "ranges_disjoint a n b k \<Longrightarrow> ranges_disjoint b k a n"
  unfolding ranges_disjoint_def by metis

lemma load_bytes_cong:
  "(\<And>i. i < n \<Longrightarrow> m (a + of_nat i) = m' (b + of_nat i)) \<Longrightarrow>
     load_bytes m a n = load_bytes m' b n"
  by (simp add: load_bytes_def)

end
