(* ===== verification/Crunch_Config.thy ===== *)
theory Crunch_Config
  imports Crunch_Prelude
begin

text \<open>
  The compile-time configuration.  The inline functions of
  \<^verbatim>\<open>include/libcrunch_cil_inlines.h\<close> are selected by preprocessor macros
  \<^verbatim>\<open>LIBCRUNCH_...\<close>; each macro is a flag of the record \<open>config\<close>, so one definition of the
  model covers all the variants of a function.  The configurations that the compiler wrappers
  ship (\<^verbatim>\<open>frontend/c/lib/bounds-config-*\<close> together with \<^verbatim>\<open>frontend/c/lib/bounds-abi\<close>) are
  constants below.  \<open>using_trap_pointers\<close> is the macro \<^verbatim>\<open>LIBCRUNCH_USING_TRAP_POINTERS\<close> that
  one conditional of the header tests; the macro every configuration defines is
  \<^verbatim>\<open>LIBCRUNCH_USING_TRAP_PTRS\<close>.
\<close>

record config =
  noop_inlines :: bool
  using_trap_ptrs :: bool
  using_trap_pointers :: bool
  kernel_pointers :: bool
  check_derive :: bool
  no_split_path :: bool
  trap_one_past_in_primary_check :: bool
  abort_on_invalid_derive :: bool
  abort_on_oob_deref :: bool
  wordsize_bounds :: bool
  long_size :: bool
  no_denorm_bounds :: bool
  no_pointer_type_info :: bool
  no_shadow_space :: bool
  no_bounds_stack :: bool
  keep_expensive_counts :: bool

text \<open>No macro defined, and the \<^verbatim>\<open>bounds-abi\<close> defaults (\<^verbatim>\<open>LIBCRUNCH_LONG_SIZE\<close>).\<close>

definition config_none :: config where
  "config_none = \<lparr> noop_inlines = False, using_trap_ptrs = False, using_trap_pointers = False,
     kernel_pointers = False, check_derive = False, no_split_path = False,
     trap_one_past_in_primary_check = False, abort_on_invalid_derive = False,
     abort_on_oob_deref = False, wordsize_bounds = False, long_size = False,
     no_denorm_bounds = False, no_pointer_type_info = False, no_shadow_space = False,
     no_bounds_stack = False, keep_expensive_counts = False \<rparr>"

definition bounds_abi :: config where
  "bounds_abi = config_none\<lparr> long_size := True \<rparr>"

definition config_m :: config where
  "config_m = bounds_abi\<lparr> using_trap_ptrs := True, check_derive := True \<rparr>"

definition config_M :: config where
  "config_M = config_m\<lparr> abort_on_invalid_derive := True \<rparr>"

definition config_p :: config where
  "config_p = config_m\<lparr> trap_one_past_in_primary_check := True \<rparr>"

definition config_P :: config where
  "config_P = config_p\<lparr> abort_on_invalid_derive := True \<rparr>"

definition config_f :: config where
  "config_f = config_m\<lparr> no_split_path := True \<rparr>"

definition config_F :: config where
  "config_F = config_f\<lparr> abort_on_invalid_derive := True \<rparr>"

definition config_t :: config where
  "config_t = config_m\<lparr> no_pointer_type_info := True, trap_one_past_in_primary_check := True \<rparr>"

definition config_T :: config where
  "config_T = config_m\<lparr> no_pointer_type_info := True, no_split_path := True,
     abort_on_invalid_derive := True \<rparr>"

definition config_s :: config where
  "config_s = bounds_abi\<lparr> no_pointer_type_info := True \<rparr>"

definition config_S :: config where
  "config_S = config_s\<lparr> no_split_path := True, abort_on_oob_deref := True \<rparr>"

text \<open>The word-size bounds ABI of \<^verbatim>\<open>frontend/c/bin/crunchbwscc\<close>.\<close>

definition config_bws :: config where
  "config_bws = config_none\<lparr> wordsize_bounds := True, using_trap_ptrs := True,
     no_denorm_bounds := True \<rparr>"

lemmas config_defs = config_none_def bounds_abi_def config_m_def config_M_def config_p_def
  config_P_def config_f_def config_F_def config_t_def config_T_def config_s_def config_S_def
  config_bws_def

definition shipped_configs :: "config list" where
  "shipped_configs = [config_m, config_M, config_p, config_P, config_f, config_F, config_t,
     config_T, config_s, config_S]"

end
