(* ===== verification/Trap_Pointers.thy ===== *)
theory Trap_Pointers
  imports Crunch_Config
begin

text \<open>
  Trap pointers (\<^verbatim>\<open>include/libcrunch_cil_inlines.h\<close>): a two-bit tag is XORed into bits 49 and 50
  of an address, so that a dereference of a tagged pointer faults.  The operations that add,
  remove and test tags are modelled for every configuration.  The lemmas show that
  \<open>libcrunch_detrap\<close> undoes \<open>libcrunch_trap\<close> on canonical addresses, that tagged pointers are
  recognised, and what tagging a pointer twice does.
\<close>

abbreviation (input) TRAP_TAG_SHIFT :: nat where "TRAP_TAG_SHIFT \<equiv> 49"
abbreviation (input) TRAP_TAG_WIDTH :: nat where "TRAP_TAG_WIDTH \<equiv> 2"
abbreviation (input) TRAP_ONE_PAST :: u16 where "TRAP_ONE_PAST \<equiv> 1"
abbreviation (input) TRAP_ONE_BEFORE :: u16 where "TRAP_ONE_BEFORE \<equiv> 2"
abbreviation (input) TRAP_INVALID :: u16 where "TRAP_INVALID \<equiv> 3"

definition TRAP_TAG_MASK :: u64 where
  "TRAP_TAG_MASK = push_bit TRAP_TAG_SHIFT (push_bit TRAP_TAG_WIDTH 1 - 1)"

definition TRAP_BOTTOM_MASK :: u64 where
  "TRAP_BOTTOM_MASK = push_bit TRAP_TAG_SHIFT 1 - 1"

definition libcrunch_trap :: "config \<Rightarrow> addr \<Rightarrow> u16 \<Rightarrow> addr" where
  [trap_defs]: "libcrunch_trap c ptr tag =
     (if noop_inlines c then ptr else ptr XOR push_bit TRAP_TAG_SHIFT (ucast tag))"

definition libcrunch_like_trapped :: "config \<Rightarrow> addr \<Rightarrow> addr \<Rightarrow> addr" where
  [trap_defs]: "libcrunch_like_trapped c maybe_trapped ptr =
     (if noop_inlines c then ptr
      else (maybe_trapped AND NOT TRAP_BOTTOM_MASK) OR (ptr AND TRAP_BOTTOM_MASK))"

definition libcrunch_retrap :: "config \<Rightarrow> addr \<Rightarrow> u16 \<Rightarrow> addr" where
  [trap_defs]: "libcrunch_retrap c any_ptr tag =
     (if noop_inlines c then any_ptr
      else if using_trap_ptrs c then
        (if kernel_pointers c then
           libcrunch_trap c (signed_drop_bit (64 - TRAP_TAG_SHIFT) (push_bit (64 - TRAP_TAG_SHIFT) any_ptr)) tag
         else (any_ptr AND NOT TRAP_TAG_MASK) OR push_bit TRAP_TAG_SHIFT (ucast tag))
      else any_ptr)"

definition libcrunch_detrap :: "config \<Rightarrow> addr \<Rightarrow> addr" where
  [trap_defs]: "libcrunch_detrap c any_ptr =
     (if noop_inlines c then any_ptr
      else if using_trap_ptrs c then
        signed_drop_bit (64 - TRAP_TAG_SHIFT) (push_bit (64 - TRAP_TAG_SHIFT) any_ptr)
      else any_ptr)"

definition libcrunch_untrap :: "config \<Rightarrow> addr \<Rightarrow> u16 \<Rightarrow> addr" where
  [trap_defs]: "libcrunch_untrap c trapptr tag =
     (if noop_inlines c then trapptr else libcrunch_detrap c trapptr)"

definition libcrunch_ptr_trap_bits :: "config \<Rightarrow> addr \<Rightarrow> u64" where
  [trap_defs]: "libcrunch_ptr_trap_bits c maybe_trap =
     (if noop_inlines c then 0
      else if using_trap_ptrs c then
        (let bits = drop_bit TRAP_TAG_SHIFT maybe_trap;
             bits = (if kernel_pointers c then bits XOR signed_drop_bit 63 maybe_trap else bits)
         in bits AND (push_bit TRAP_TAG_WIDTH 1 - 1))
      else 0)"

definition libcrunch_is_trap_ptr :: "config \<Rightarrow> addr \<Rightarrow> bool" where
  [trap_defs]: "libcrunch_is_trap_ptr c maybe_trap =
     (if noop_inlines c then False
      else if using_trap_ptrs c then libcrunch_detrap c maybe_trap \<noteq> maybe_trap
      else False)"

text \<open>
  An address is canonical when bits 48 and above agree, as x86-64 demands of every address the
  program can use (47-bit user addresses are).  \<open>user_ptr\<close> is the lower half.
\<close>

definition canonical :: "addr \<Rightarrow> bool" where
  "canonical p \<longleftrightarrow> signed_take_bit 48 p = p"

definition user_ptr :: "addr \<Rightarrow> bool" where
  "user_ptr p \<longleftrightarrow> unat p < 2 ^ 48"

text \<open>The configurations in which trap pointers are live.\<close>

definition traps_on :: "config \<Rightarrow> bool" where
  "traps_on c \<longleftrightarrow> using_trap_ptrs c \<and> \<not> noop_inlines c"


subsection \<open>Canonical addresses\<close>

lemma user_ptr_canonical [simp, intro]: "user_ptr p \<Longrightarrow> canonical p"
  by (simp add: user_ptr_def canonical_def signed_take_bit_mask_small)

lemma detrap_signed_take_bit:
  "traps_on c \<Longrightarrow> libcrunch_detrap c p = signed_take_bit 48 p"
  by (simp add: libcrunch_detrap_def traps_on_def shl_sar_signed_take_bit)

lemma detrap_canonical [simp]: "canonical p \<Longrightarrow> libcrunch_detrap c p = p"
  by (simp add: libcrunch_detrap_def canonical_def shl_sar_signed_take_bit)

lemma detrap_result_canonical [simp]: "traps_on c \<Longrightarrow> canonical (libcrunch_detrap c p)"
  by (simp add: detrap_signed_take_bit canonical_def)

lemma is_trap_ptr_iff_not_canonical:
  "traps_on c \<Longrightarrow> libcrunch_is_trap_ptr c p \<longleftrightarrow> \<not> canonical p"
  by (simp add: libcrunch_is_trap_ptr_def detrap_signed_take_bit canonical_def traps_on_def)

lemma not_is_trap_ptr_canonical [simp]: "canonical p \<Longrightarrow> \<not> libcrunch_is_trap_ptr c p"
  by (simp add: libcrunch_is_trap_ptr_def)


subsection \<open>Tagging and untagging\<close>

lemma signed_take_bit_xor_high:
  fixes p :: u64
  shows "signed_take_bit 48 (p XOR push_bit 49 t) = signed_take_bit 48 p"
  by (rule bit_word_eqI) (auto simp: bit_simps min_def)

lemma detrap_trap:
  "traps_on c \<Longrightarrow> libcrunch_detrap c (libcrunch_trap c p tag) = libcrunch_detrap c p"
  by (simp add: detrap_signed_take_bit libcrunch_trap_def signed_take_bit_xor_high)

lemma trap_trap:
  "libcrunch_trap c (libcrunch_trap c p s) t =
     (if noop_inlines c then p else p XOR push_bit TRAP_TAG_SHIFT (ucast (s XOR t)))"
  by (simp add: libcrunch_trap_def push_bit_xor unsigned_xor_eq xor.assoc)

lemma trap_same_tag_twice [simp]: "libcrunch_trap c (libcrunch_trap c p t) t = p"
  by (simp add: trap_trap)

lemma push_tag_zero_iff: "push_bit 49 (ucast (tag :: u16) :: u64) = 0 \<longleftrightarrow> take_bit 15 tag = 0"
proof
  assume "push_bit 49 (ucast tag :: u64) = 0"
  then have "drop_bit 49 (push_bit 49 (ucast tag :: u64)) = 0" by simp
  then have z: "\<not> bit (drop_bit 49 (push_bit 49 (ucast tag :: u64))) k" for k by simp
  show "take_bit 15 tag = 0"
  proof (rule bit_word_eqI)
    fix k assume "k < LENGTH(16)"
    show "bit (take_bit 15 tag) k = bit (0 :: u16) k"
      using z[of k] by (auto simp: bit_simps)
  qed
next
  assume "take_bit 15 tag = 0"
  then have z: "\<not> bit (take_bit 15 tag) k" for k by simp
  show "push_bit 49 (ucast tag :: u64) = 0"
  proof (rule bit_word_eqI)
    fix k assume "k < LENGTH(64)"
    then show "bit (push_bit 49 (ucast tag :: u64)) k = bit (0 :: u64) k"
      using z[of "k - 49"] by (auto simp: bit_simps)
  qed
qed

lemma trap_eq_self_iff:
  assumes "traps_on c"
  shows "libcrunch_trap c p tag = p \<longleftrightarrow> take_bit 15 tag = 0"
proof -
  have "libcrunch_trap c p tag = p \<longleftrightarrow> push_bit 49 (ucast tag :: u64) = 0"
  proof
    assume "libcrunch_trap c p tag = p"
    then have "p XOR (p XOR push_bit 49 (ucast tag :: u64)) = p XOR p"
      using assms by (simp add: traps_on_def libcrunch_trap_def)
    then show "push_bit 49 (ucast tag :: u64) = 0"
      by (simp flip: xor.assoc)
  qed (use assms in \<open>simp add: traps_on_def libcrunch_trap_def\<close>)
  then show ?thesis by (simp only: push_tag_zero_iff)
qed

lemma is_trap_ptr_trap:
  assumes "traps_on c" "canonical p"
  shows "libcrunch_is_trap_ptr c (libcrunch_trap c p tag) \<longleftrightarrow> take_bit 15 tag \<noteq> 0"
proof -
  have "libcrunch_is_trap_ptr c (libcrunch_trap c p tag) \<longleftrightarrow> libcrunch_trap c p tag \<noteq> p"
    using assms detrap_trap[OF assms(1), of p tag]
    by (auto simp: libcrunch_is_trap_ptr_def traps_on_def)
  then show ?thesis using trap_eq_self_iff[OF assms(1)] by simp
qed

lemma ptr_trap_bits_trap:
  assumes "traps_on c" "\<not> kernel_pointers c" "user_ptr p"
  shows "libcrunch_ptr_trap_bits c (libcrunch_trap c p tag) = ucast tag AND 3"
proof -
  have "\<And>k. 49 \<le> k \<Longrightarrow> \<not> bit p k"
    using assms bit_small_u64[of p 48] by (simp add: user_ptr_def)
  then have "drop_bit 49 (p XOR push_bit 49 (ucast tag)) = take_bit 15 (ucast tag :: u64)"
    by (intro bit_word_eqI) (auto simp: bit_simps)
  moreover have "take_bit 15 (ucast tag :: u64) AND 3 = ucast tag AND 3"
    by (simp add: and_3_take_bit take_bit_take_bit)
  ultimately show ?thesis
    using assms by (simp add: libcrunch_ptr_trap_bits_def libcrunch_trap_def traps_on_def)
qed

lemma TRAP_TAG_MASK_eq: "TRAP_TAG_MASK = 0x6000000000000"
  by (simp add: TRAP_TAG_MASK_def)

lemma bit_TRAP_TAG_MASK: "bit TRAP_TAG_MASK k \<longleftrightarrow> k = 49 \<or> k = 50"
proof -
  have "TRAP_TAG_MASK = push_bit 49 (mask 2)"
    by (simp add: TRAP_TAG_MASK_def mask_eq_exp_minus_1)
  then have "bit TRAP_TAG_MASK k = bit (push_bit 49 (mask 2) :: u64) k" by (rule arg_cong)
  then show ?thesis by (auto simp: bit_push_bit_iff bit_mask_iff)
qed

lemma detrap_retrap:
  assumes "traps_on c"
  shows "libcrunch_detrap c (libcrunch_retrap c p tag) = libcrunch_detrap c p"
proof (cases "kernel_pointers c")
  case True
  with assms show ?thesis
    by (simp add: libcrunch_retrap_def traps_on_def detrap_trap)
       (simp add: detrap_signed_take_bit traps_on_def shl_sar_signed_take_bit)
next
  case False
  with assms show ?thesis
    by (simp add: libcrunch_retrap_def detrap_signed_take_bit)
       (auto simp: traps_on_def bit_simps bit_TRAP_TAG_MASK min_def intro!: bit_word_eqI)
qed

lemma ptr_trap_bits_retrap:
  assumes "traps_on c" "\<not> kernel_pointers c"
  shows "libcrunch_ptr_trap_bits c (libcrunch_retrap c p tag) = ucast tag AND 3"
proof -
  have "take_bit 2 (drop_bit 49 ((p AND NOT TRAP_TAG_MASK) OR push_bit 49 (ucast tag)))
      = take_bit 2 (ucast tag :: u64)"
    by (rule bit_word_eqI) (auto simp: bit_simps bit_TRAP_TAG_MASK)
  then show ?thesis
    using assms by (simp add: libcrunch_ptr_trap_bits_def libcrunch_retrap_def traps_on_def
        and_3_take_bit)
qed

text \<open>
  (C35) Tagging a pointer never loses it.  In a configuration with trap pointers, for a canonical address and any tag, removing the tag
  gives the address back, and the tagged pointer is recognised as a trap pointer exactly when the
  tag has a bit below 15 (bits that the shift keeps inside the word); for a user-space address, in a
  configuration without kernel pointers, the two low tag bits can be read back.
\<close>

theorem trap_detrap_roundtrip:
  assumes "traps_on c" "canonical p"
  shows "libcrunch_detrap c (libcrunch_trap c p tag) = p
    \<and> (libcrunch_is_trap_ptr c (libcrunch_trap c p tag) \<longleftrightarrow> take_bit 15 tag \<noteq> 0)
    \<and> (user_ptr p \<and> \<not> kernel_pointers c
         \<longrightarrow> libcrunch_ptr_trap_bits c (libcrunch_trap c p tag) = ucast tag AND 3)"
  using assms by (simp add: detrap_trap is_trap_ptr_trap ptr_trap_bits_trap)

theorem trap_detrap_roundtrip_witness:
  "libcrunch_detrap config_m (libcrunch_trap config_m 0x7fff00001000 TRAP_ONE_PAST) = 0x7fff00001000
    \<and> libcrunch_is_trap_ptr config_m (libcrunch_trap config_m 0x7fff00001000 TRAP_ONE_PAST)
    \<and> libcrunch_ptr_trap_bits config_m (libcrunch_trap config_m 0x7fff00001000 TRAP_ONE_PAST) = 1"
  using trap_detrap_roundtrip[of config_m "0x7fff00001000" TRAP_ONE_PAST]
  by (simp add: traps_on_def config_defs user_ptr_def)

text \<open>
  Setting a tag with \<^verbatim>\<open>__libcrunch_retrap\<close> is insensitive to the tag the pointer already
  carries, and \<^verbatim>\<open>__libcrunch_trap\<close> is not: a pointer re-tagged by \<open>libcrunch_retrap\<close> keeps its
  address and shows exactly the new tag, whereas tagging twice with the same tag by
  \<open>libcrunch_trap\<close> removes the tag altogether.
\<close>

theorem retrap_sets_exactly_this_tag:
  assumes "traps_on c" "\<not> kernel_pointers c"
  shows "libcrunch_detrap c (libcrunch_retrap c p tag) = libcrunch_detrap c p
    \<and> libcrunch_ptr_trap_bits c (libcrunch_retrap c p tag) = ucast tag AND 3
    \<and> libcrunch_trap c (libcrunch_trap c p tag) tag = p"
  using assms by (simp add: detrap_retrap ptr_trap_bits_retrap)

theorem retrap_sets_exactly_this_tag_witness:
  "libcrunch_ptr_trap_bits config_m
     (libcrunch_retrap config_m (libcrunch_trap config_m 0x1000 TRAP_INVALID) TRAP_ONE_PAST) = 1
   \<and> libcrunch_trap config_m (libcrunch_trap config_m 0x1000 TRAP_INVALID) TRAP_INVALID = 0x1000"
  using retrap_sets_exactly_this_tag[of config_m
      "libcrunch_trap config_m 0x1000 TRAP_INVALID" TRAP_ONE_PAST]
    retrap_sets_exactly_this_tag[of config_m "0x1000" TRAP_INVALID]
  by (simp add: traps_on_def config_defs)

end
