(* ===== verification/Bounds.thy ===== *)
theory Bounds
  imports Trap_Pointers
begin

text \<open>
  Bounds values (\<^verbatim>\<open>struct __libcrunch_bounds_s\<close>) and the operations on them, for the three
  representations of \<^verbatim>\<open>include/libcrunch_cil_inlines.h\<close>: 64-bit base with a 64-bit size
  (\<^verbatim>\<open>LIBCRUNCH_LONG_SIZE\<close>), 64-bit base with a 32-bit size, and the packed word-size form.
  The interface the checks rely on is the locale \<open>bounds_rep\<close>: what a client reads back from
  bounds it has made, and that the one-subtraction check of Austin et al. decides membership.
  It is interpreted for the 64-bit and the 32-bit size representation.
\<close>

record bounds =
  bnd_base :: u64
  bnd_size :: u64

definition clear_upper_32 :: "u64 \<Rightarrow> u64" where
  "clear_upper_32 arg = take_bit 32 arg"

definition clear_lower_32 :: "u64 \<Rightarrow> u64" where
  "clear_lower_32 arg = push_bit 32 (drop_bit 32 arg)"

text \<open>Conversion to the declared type of the two members on assignment.\<close>

definition member_base :: "config \<Rightarrow> u64 \<Rightarrow> u64" where
  [bounds_defs]: "member_base c x = (if wordsize_bounds c then take_bit 32 x else x)"

definition member_size :: "config \<Rightarrow> u64 \<Rightarrow> u64" where
  [bounds_defs]: "member_size c x =
     (if wordsize_bounds c \<or> \<not> long_size c then take_bit 32 x else x)"

text \<open>
  The compound literal of \<^verbatim>\<open>__make_bounds\<close> is positional: its first expression initialises the
  first declared member, which is \<^verbatim>\<open>size\<close> in the word-size layout and \<^verbatim>\<open>base\<close> otherwise.
\<close>

definition make_bounds :: "config \<Rightarrow> u64 \<Rightarrow> u64 \<Rightarrow> bounds" where
  [bounds_defs]: "make_bounds c b l =
     (if wordsize_bounds c
      then \<lparr> bnd_base = member_base c (l - b), bnd_size = member_size c (clear_upper_32 b) \<rparr>
      else \<lparr> bnd_base = member_base c b, bnd_size = member_size c (l - b) \<rparr>)"

definition libcrunch_max_bounds :: "config \<Rightarrow> addr \<Rightarrow> bounds" where
  [bounds_defs]: "libcrunch_max_bounds c ptr =
     (if wordsize_bounds c
      then make_bounds c (clear_lower_32 ptr) (clear_lower_32 ptr + 0xffffffff)
      else make_bounds c 0 (-1))"

definition libcrunch_get_base :: "config \<Rightarrow> bounds \<Rightarrow> addr \<Rightarrow> addr" where
  [bounds_defs]: "libcrunch_get_base c b derivedfrom =
     (if wordsize_bounds c then
        (if no_denorm_bounds c \<or> bnd_base b \<le> clear_upper_32 derivedfrom
         then clear_lower_32 (libcrunch_detrap c derivedfrom) + bnd_base b
         else clear_lower_32 derivedfrom - 0x100000000 + bnd_base b)
      else bnd_base b)"

definition libcrunch_get_size :: "config \<Rightarrow> bounds \<Rightarrow> addr \<Rightarrow> u64" where
  [bounds_defs]: "libcrunch_get_size c b derivedfrom = bnd_size b"

definition libcrunch_get_limit :: "config \<Rightarrow> bounds \<Rightarrow> addr \<Rightarrow> addr" where
  [bounds_defs]: "libcrunch_get_limit c b derivedfrom =
     (if wordsize_bounds c
      then libcrunch_get_base c b derivedfrom + libcrunch_get_size c b derivedfrom
      else bnd_base b + bnd_size b)"

definition libcrunch_make_invalid_bounds :: "config \<Rightarrow> addr \<Rightarrow> bounds" where
  [bounds_defs]: "libcrunch_make_invalid_bounds c ptr =
     (if wordsize_bounds c then \<lparr> bnd_base = clear_upper_32 ptr, bnd_size = 0 \<rparr>
      else \<lparr> bnd_base = ptr, bnd_size = 0 \<rparr>)"

definition libcrunch_bounds_invalid :: "config \<Rightarrow> bounds \<Rightarrow> addr \<Rightarrow> bool" where
  [bounds_defs]: "libcrunch_bounds_invalid c b ptr = (bnd_size b = 0)"

definition libcrunch_valid_bounds_equal :: "config \<Rightarrow> bounds \<Rightarrow> bounds \<Rightarrow> bool" where
  [bounds_defs]: "libcrunch_valid_bounds_equal c b1 b2 =
     (bnd_base b1 = bnd_base b2 \<and> bnd_size b1 = bnd_size b2)"

text \<open>
  The test of every bounds check, \<^verbatim>\<open>addr - base < size\<close> in unsigned arithmetic, and what it is
  meant to decide.
\<close>

definition austin :: "u64 \<Rightarrow> u64 \<Rightarrow> u64 \<Rightarrow> bool" where
  "austin a b n \<longleftrightarrow> a - b < n"

definition spans :: "u64 \<Rightarrow> u64 \<Rightarrow> u64 \<Rightarrow> bool" where
  "spans b n a \<longleftrightarrow> unat b \<le> unat a \<and> unat a < unat b + unat n"

definition no_wrap :: "u64 \<Rightarrow> u64 \<Rightarrow> bool" where
  "no_wrap b n \<longleftrightarrow> unat b + unat n \<le> 2 ^ 64"


subsection \<open>The unsigned-subtraction test\<close>

lemma unat_sub_wrap: "a < b \<Longrightarrow> unat ((a :: u64) - b) = 2 ^ 64 - unat b + unat a"
  using unat_sub_if_size[of a b] unat_u64_bound[of b]
  by (auto simp: word_le_nat_alt word_less_nat_alt word_size)

lemma austin_iff_spans:
  assumes "no_wrap b n"
  shows "austin a b n \<longleftrightarrow> spans b n a"
proof (cases "b \<le> a")
  case True
  then show ?thesis
    by (auto simp: austin_def spans_def word_less_nat_alt word_le_nat_alt unat_sub)
next
  case False
  then have "unat (a - b) = 2 ^ 64 - unat b + unat a"
    by (simp add: unat_sub_wrap)
  with False assms show ?thesis
    by (auto simp: austin_def spans_def no_wrap_def word_less_nat_alt word_le_nat_alt)
qed

lemma not_austin_zero [simp]: "\<not> austin a b 0"
  by (simp add: austin_def)

lemma sub_eq_size_iff_limit: "(a :: u64) - b = n \<longleftrightarrow> a = b + n"
  by (auto simp: algebra_simps)

lemma austin_self: "austin b b n \<longleftrightarrow> n \<noteq> 0"
  by (simp add: austin_def word_gt_0)

lemma take_bit_32_id: "unat (x :: u64) < 2 ^ 32 \<Longrightarrow> take_bit 32 x = x"
  using bit_small_u64[of x 32]
  by (intro bit_word_eqI) (auto simp: bit_simps not_less[symmetric])

lemma user_nowrap: "unat b < 2 ^ 48 \<Longrightarrow> unat n \<le> 2 ^ 48 \<Longrightarrow> no_wrap b n"
  by (simp add: no_wrap_def)


subsection \<open>What the checks rely on: the interface of a bounds representation\<close>

text \<open>
  \<open>fits b l\<close> says that the representation can hold the range from \<open>b\<close> to \<open>l\<close>.  A client that
  has made bounds for a non-empty range that fits reads base and limit back, and its check of a
  pointer accepts exactly the addresses of the range.
\<close>

locale bounds_rep =
  fixes mk :: "u64 \<Rightarrow> u64 \<Rightarrow> bounds"
    and gbase :: "bounds \<Rightarrow> addr \<Rightarrow> addr"
    and gsize :: "bounds \<Rightarrow> addr \<Rightarrow> u64"
    and invalid :: "bounds \<Rightarrow> addr \<Rightarrow> bool"
    and fits :: "u64 \<Rightarrow> u64 \<Rightarrow> bool"
  assumes base_mk: "fits b l \<Longrightarrow> gbase (mk b l) p = b"
    and size_mk: "fits b l \<Longrightarrow> gsize (mk b l) p = l - b"
    and invalid_iff: "invalid bs p \<longleftrightarrow> gsize bs p = 0"
begin

lemma mk_valid_iff: "fits b l \<Longrightarrow> invalid (mk b l) p \<longleftrightarrow> b = l"
  by (auto simp: invalid_iff size_mk)

lemma invalid_rejects_everything: "invalid bs p \<Longrightarrow> \<not> austin a (gbase bs p) (gsize bs p)"
  by (simp add: invalid_iff)

lemma check_decides_membership:
  assumes "fits b l" "b \<le> l"
  shows "austin a (gbase (mk b l) p) (gsize (mk b l) p) \<longleftrightarrow> b \<le> a \<and> a < l"
proof -
  have "no_wrap b (l - b)"
    using assms(2) unat_u64_bound[of l] by (simp add: no_wrap_def unat_sub word_le_nat_alt)
  then show ?thesis
    using assms by (auto simp: base_mk size_mk austin_iff_spans spans_def unat_sub
        word_le_nat_alt word_less_nat_alt)
qed

end

text \<open>The two representations that the shipped compiler wrappers select.\<close>

definition fits_size32 :: "u64 \<Rightarrow> u64 \<Rightarrow> bool" where
  "fits_size32 b l \<longleftrightarrow> unat (l - b) < 2 ^ 32"

locale long_bounds =
  fixes c :: config
  assumes layout: "long_size c" "\<not> wordsize_bounds c"
begin

lemma long_bounds_simps:
  "make_bounds c b l = \<lparr> bnd_base = b, bnd_size = l - b \<rparr>"
  "libcrunch_get_base c bs p = bnd_base bs"
  "libcrunch_get_limit c bs p = bnd_base bs + bnd_size bs"
  "libcrunch_max_bounds c p = \<lparr> bnd_base = 0, bnd_size = -1 \<rparr>"
  "libcrunch_make_invalid_bounds c p = \<lparr> bnd_base = p, bnd_size = 0 \<rparr>"
  using layout by (simp_all add: bounds_defs)

end

sublocale long_bounds \<subseteq> bounds_rep "make_bounds c" "libcrunch_get_base c"
    "libcrunch_get_size c" "libcrunch_bounds_invalid c" "\<lambda>_ _. True"
  using layout by unfold_locales (simp_all add: bounds_defs)

interpretation long_m: long_bounds config_m
  by unfold_locales (simp_all add: config_defs)

interpretation long_s: long_bounds config_s
  by unfold_locales (simp_all add: config_defs)

interpretation size32: bounds_rep "make_bounds config_none" "libcrunch_get_base config_none"
    "libcrunch_get_size config_none" "libcrunch_bounds_invalid config_none" fits_size32
  by unfold_locales
     (simp_all add: bounds_defs config_defs fits_size32_def take_bit_32_id)

lemma bounds_invalid_simps [simp]:
  "libcrunch_bounds_invalid c (libcrunch_make_invalid_bounds c p) q"
  "libcrunch_get_size c bs p = bnd_size bs"
  by (simp_all add: bounds_defs)

context long_bounds
begin

lemma check_exact:
  assumes "b \<le> l"
  shows "austin a (libcrunch_get_base c (make_bounds c b l) p) (libcrunch_get_size c (make_bounds c b l) p)
       \<longleftrightarrow> b \<le> a \<and> a < l"
  using check_decides_membership[OF TrueI assms] .

end

text \<open>
  The one-subtraction check is exact.  In every configuration with 64-bit sizes, for any range
  with base not above limit, an address passes the unsigned test \<^verbatim>\<open>addr - base < size\<close> against the
  bounds made for the range just when it lies in the range; bounds made for an empty range are
  invalid and admit nothing.
\<close>

theorem make_bounds_check_exact:
  assumes "long_size c" "\<not> wordsize_bounds c" "b \<le> l"
  shows "(austin a (libcrunch_get_base c (make_bounds c b l) p)
            (libcrunch_get_size c (make_bounds c b l) p) \<longleftrightarrow> b \<le> a \<and> a < l)
    \<and> (libcrunch_bounds_invalid c (make_bounds c b l) p \<longleftrightarrow> b = l)
    \<and> libcrunch_get_limit c (make_bounds c b l) p = l"
proof -
  have loc: "long_bounds c" using assms(1,2) by (rule long_bounds.intro)
  show ?thesis
    using long_bounds.check_exact[OF loc assms(3), of a p]
    by (auto simp: long_bounds.long_bounds_simps[OF loc] libcrunch_bounds_invalid_def)
qed

theorem make_bounds_check_exact_witness:
  "austin 0x1027 (libcrunch_get_base config_m (make_bounds config_m 0x1000 0x1028) 0)
     (libcrunch_get_size config_m (make_bounds config_m 0x1000 0x1028) 0)"
  using make_bounds_check_exact[of config_m "0x1000" "0x1028" "0x1027" 0]
  by (simp add: config_defs)

text \<open>
  The word-size representation confuses base and size.  \<^verbatim>\<open>__make_bounds\<close> fills the structure by
  position with base first, but the word-size structure declares its size first: the bounds made
  for a range come out with the length as base and the low half of the base as size.
\<close>

theorem wordsize_make_bounds_swaps_members:
  assumes "wordsize_bounds c" "unat (l - b) < 2 ^ 32" "unat b < 2 ^ 32"
  shows "bnd_base (make_bounds c b l) = l - b \<and> bnd_size (make_bounds c b l) = b"
  using assms by (simp add: make_bounds_def member_base_def member_size_def clear_upper_32_def take_bit_32_id)

theorem wordsize_make_bounds_swaps_members_witness:
  "bnd_base (make_bounds config_bws 0x1000 0x1028) = 0x28 \<and> bnd_size (make_bounds config_bws 0x1000 0x1028) = 0x1000"
  using wordsize_make_bounds_swaps_members[of config_bws "0x1028" "0x1000"]
  by (simp add: config_defs)

end
