(* ===== verification/Crunch_State.thy ===== *)
theory Crunch_State
  imports Bounds
begin

text \<open>
  The state of the run-time library and the interface of the code it calls.  \<open>crunch\<close> is the
  record of libcrunch's own globals (\<^verbatim>\<open>src/libcrunch.c\<close>): the counters, the initialisation flags,
  the suppression list, the record of the last failed check, the messages written to the
  diagnostic stream, and the process memory.  liballocs and the dynamic linker are not part of
  the repository: they are the fields of \<open>liballocs\<close>, a record of functions over an abstract world
  \<open>'w\<close>, which every operation that calls them takes as an argument.  A \<open>uniqtype\<close> is the address
  of a type descriptor, null being 0.
\<close>

type_synonym uniqtype = addr

text \<open>What \<^verbatim>\<open>__liballocs_get_alloc_info\<close> writes to its out-parameters.\<close>

record alloc_info =
  ai_allocator :: addr
  ai_start :: addr
  ai_size :: u64
  ai_uniqtype :: uniqtype
  ai_site :: addr

text \<open>An entry of a memory-range cache, as the inline lookups read it.\<close>

record cache_entry =
  ce_base :: addr
  ce_limit :: addr
  ce_uniqtype :: uniqtype

text \<open>The two caches: liballocs' out-of-line cache and libcrunch's fake-bounds cache.\<close>

datatype cache_id = OolCache | FakeBoundsCache

text \<open>What is written into a cache (\<^verbatim>\<open>__liballocs_cache_with_type\<close>).\<close>

record cache_fill =
  cf_base :: addr
  cf_limit :: addr
  cf_uniqtype :: uniqtype
  cf_depth :: int
  cf_period :: u16
  cf_alloc_base :: addr

text \<open>One call of the callback of \<^verbatim>\<open>__liballocs_walk_subobjects_spanning\<close>.\<close>

record visit =
  v_spans :: uniqtype
  v_start :: u32
  v_containing :: uniqtype
  v_containing_start :: u32

text \<open>The out-parameters of \<^verbatim>\<open>__liballocs_find_matching_subobject\<close>.\<close>

record match_result =
  mr_success :: bool
  mr_type :: uniqtype
  mr_offset :: u32
  mr_cumulative :: u32
  mr_containing :: uniqtype
  mr_contained_off :: u32

text \<open>A member or argument of a type (\<^verbatim>\<open>struct uniqtype_rel_info\<close>).\<close>

record rel_info =
  rel_off :: u32
  rel_ptr :: uniqtype

text \<open>
  The interface of liballocs, libsystrap and the dynamic linker.  A walk over the subobjects that
  span an offset is given by the list of the callback's calls; the walk stops at the first call
  that returns non-zero.  \<^verbatim>\<open>__liballocs_first_subobject_spanning\<close> gives \<open>None\<close> when it returns false,
  leaving its out-parameters alone.  \<open>subobject_rank\<close> and \<open>pointer_rank\<close> are not code: they bound
  the number of descents that are possible from a type, and are the fuel of the loops that
  descend.
\<close>

record 'w liballocs =
  pos_maxoff :: "uniqtype \<Rightarrow> u32"
  pos_maxoff_unbounded :: u32
  name_for_uniqtype :: "uniqtype \<Rightarrow> string"
  is_pointer_type :: "uniqtype \<Rightarrow> bool"
  pointee_type :: "uniqtype \<Rightarrow> uniqtype"
  is_array_type :: "uniqtype \<Rightarrow> bool"
  array_element_type :: "uniqtype \<Rightarrow> uniqtype"
  array_length :: "uniqtype \<Rightarrow> u32"
  has_known_length :: "uniqtype \<Rightarrow> bool"
  is_base_type :: "uniqtype \<Rightarrow> bool"
  signedness_complement :: "uniqtype \<Rightarrow> uniqtype"
  is_subprogram_type :: "uniqtype \<Rightarrow> bool"
  subprogram_narg :: "uniqtype \<Rightarrow> nat"
  subprogram_nret :: "uniqtype \<Rightarrow> nat"
  is_abstract_type :: "uniqtype \<Rightarrow> bool"
  member_count :: "uniqtype \<Rightarrow> nat"
  related :: "uniqtype \<Rightarrow> nat \<Rightarrow> rel_info"
  make_precise :: "uniqtype \<Rightarrow> addr"
  array_precise_fn :: addr
  uniqtype_void :: uniqtype
  uniqtype_signed_char :: uniqtype
  uniqtype_unsigned_char :: uniqtype
  typestr_to_uniqtype :: "string \<Rightarrow> uniqtype"
  is_cacheable :: "addr \<Rightarrow> bool"
  has_set_type :: "addr \<Rightarrow> bool"
  alloc_is_dynamically_sized :: "addr \<Rightarrow> addr \<Rightarrow> bool"
  first_subobject_spanning :: "u32 \<Rightarrow> uniqtype \<Rightarrow> (u32 \<times> uniqtype) option"
  walk_subobjects_spanning :: "u32 \<Rightarrow> uniqtype \<Rightarrow> visit list"
  find_matching_subobject :: "u32 \<Rightarrow> uniqtype \<Rightarrow> uniqtype \<Rightarrow> match_result"
  subobject_rank :: "uniqtype \<Rightarrow> nat"
  pointer_rank :: "uniqtype \<Rightarrow> nat"
  dladdr_sname :: "addr \<Rightarrow> string option"
  dladdr_symbol :: "addr \<Rightarrow> (addr \<times> u64) option"
  ensure_init :: "'w \<Rightarrow> 'w"
  get_alloc_info :: "'w \<Rightarrow> addr \<Rightarrow> 'w \<times> alloc_info option"
  run_make_precise :: "'w \<Rightarrow> uniqtype \<Rightarrow> addr \<Rightarrow> u64 \<Rightarrow> 'w \<times> uniqtype"
  set_type :: "addr \<Rightarrow> 'w \<Rightarrow> addr \<Rightarrow> uniqtype \<Rightarrow> 'w"
  get_or_create_array_type :: "'w \<Rightarrow> uniqtype \<Rightarrow> u32 \<Rightarrow> 'w \<times> uniqtype"
  get_insert :: "'w \<Rightarrow> addr \<Rightarrow> addr"
  insert_alloc_site_flag :: "'w \<Rightarrow> addr \<Rightarrow> bool"
  insert_alloc_site :: "'w \<Rightarrow> addr \<Rightarrow> u64"
  set_insert_alloc_site :: "'w \<Rightarrow> addr \<Rightarrow> u64 \<Rightarrow> 'w"
  currently_allocating :: "'w \<Rightarrow> bool"
  currently_freeing :: "'w \<Rightarrow> bool"
  cache_lookup :: "cache_id \<Rightarrow> 'w \<Rightarrow> addr \<Rightarrow> uniqtype \<Rightarrow> u64 \<Rightarrow> (nat \<times> cache_entry) option"
  cache_lookup_notype :: "cache_id \<Rightarrow> 'w \<Rightarrow> addr \<Rightarrow> u64 \<Rightarrow> (nat \<times> cache_entry) option"
  cache_set_limit :: "cache_id \<Rightarrow> 'w \<Rightarrow> nat \<Rightarrow> addr \<Rightarrow> 'w"
  cache_with_type :: "cache_id \<Rightarrow> 'w \<Rightarrow> cache_fill \<Rightarrow> 'w"
  get_cached_object_type :: "'w \<Rightarrow> addr \<Rightarrow> uniqtype"
  getenv :: "string \<Rightarrow> string option"
  fopen_succeeds :: "string \<Rightarrow> bool"
  liballocs_stream_err :: bool
  clear_refs_opens :: bool
  aborted_unknown_storage :: "'w \<Rightarrow> u64"
  addrlist_contains :: "'w \<Rightarrow> addr \<Rightarrow> bool"
  addrlist_add :: "'w \<Rightarrow> addr \<Rightarrow> 'w"

datatype check_kind = IS_A | LIKE_A | NAMED_A | IS_A_FUNCTION_REFINING | CHECK_ARGS
  | LOOSELY_LIKE_A | IS_A_POINTER_OF_DEGREE | CAN_HOLD_POINTER | DERIVED_PTR_VALID
  | DEREFED_PTR_VALID

text \<open>
  A user suppression.  The three members are \<^verbatim>\<open>char *\<close>; the array is terminated by an entry whose
  \<^verbatim>\<open>test_type_pat\<close> is null.
\<close>

record suppression =
  test_type_pat :: "string option"
  testing_function_pat :: "string option"
  alloc_type_pat :: "string option"

text \<open>Lines of the diagnostic stream that the model keeps.\<close>

datatype message =
    FailedCheck addr check_kind
  | FurtherOccurrences u64
  | InvalidSuppression string
  | CouldNotOpen string
  | Initialized
  | VerboseHint
  | ExitSummary "u64 list"

text \<open>Where \<^verbatim>\<open>crunch_stream_err\<close> points.\<close>

datatype stream = NoStream | Stderr | ErrFile string

record 'w crunch =
  world :: 'w
  memory :: mem
  bounds_sp :: addr
  is_initialized :: bool
  tried_to_initialize :: bool
  done_init :: bool
  debug_level :: int
  verbose :: bool
  segv_handler_installed :: bool
  exit_summary_registered :: bool
  crunch_stream_err :: stream
  did_fixup :: bool
  suppressions :: "suppression list option"
  cnt_begun :: u64
  cnt_aborted_typestr :: u64
  cnt_failed :: u64
  cnt_failed_in_alloc :: u64
  cnt_failed_and_suppressed :: u64
  cnt_succeeded :: u64
  cnt_is_a_hit_cache :: u64
  cnt_created_invalid_pointer :: u64
  cnt_fetch_bounds_called :: u64
  cnt_fetch_bounds_missed_cache :: u64
  cnt_primary_secondary_transitions :: u64
  cnt_fault_handler_fixups :: u64
  cnt_ptr_derivations :: u64
  cnt_ptr_derefs :: u64
  cnt_ptr_stores :: u64
  repeat_summarisation_count :: u64
  last_failed_kind :: check_kind
  last_failed_site :: addr
  last_failed_decider :: uniqtype
  diagnostics :: "message list"

text \<open>The state in which the process starts: all globals zero.\<close>

definition initial_crunch :: "'w \<Rightarrow> mem \<Rightarrow> 'w crunch" where
  "initial_crunch w m = \<lparr> world = w, memory = m, bounds_sp = 0, is_initialized = False,
     tried_to_initialize = False, done_init = False, debug_level = 0, verbose = False,
     segv_handler_installed = False, exit_summary_registered = False, crunch_stream_err = NoStream,
     did_fixup = False, suppressions = None,
     cnt_begun = 0, cnt_aborted_typestr = 0, cnt_failed = 0, cnt_failed_in_alloc = 0,
     cnt_failed_and_suppressed = 0, cnt_succeeded = 0, cnt_is_a_hit_cache = 0,
     cnt_created_invalid_pointer = 0, cnt_fetch_bounds_called = 0,
     cnt_fetch_bounds_missed_cache = 0, cnt_primary_secondary_transitions = 0,
     cnt_fault_handler_fixups = 0, cnt_ptr_derivations = 0, cnt_ptr_derefs = 0,
     cnt_ptr_stores = 0, repeat_summarisation_count = 0, last_failed_kind = IS_A,
     last_failed_site = 0, last_failed_decider = 0, diagnostics = [] \<rparr>"

text \<open>A line printed at the given debug level.\<close>

definition debug_println :: "int \<Rightarrow> message \<Rightarrow> 'w crunch \<Rightarrow> 'w crunch" where
  "debug_println level msg st =
     (if level \<le> debug_level st then st\<lparr> diagnostics := diagnostics st @ [msg] \<rparr> else st)"

end
