(* ===== verification/Example_World.thy ===== *)
theory Example_World
  imports Crunch_State
begin

text \<open>
  A small concrete instance of the \<open>liballocs\<close> interface, on which the hypotheses that the theorems
  make about liballocs can be evaluated: a fixed universe of a dozen C types, a world of listed
  allocations, and two caches kept as lists.  Nothing here models code of the repository.
\<close>

record ex_world =
  ex_allocs :: "alloc_info list"
  ex_ool :: "cache_entry list"
  ex_fake :: "cache_entry list"
  ex_sites :: "addr list"
  ex_insert_sites :: "(addr \<times> u64) list"
  ex_allocating :: bool

abbreviation (input) ex_void :: uniqtype where "ex_void \<equiv> 1"
abbreviation (input) ex_schar :: uniqtype where "ex_schar \<equiv> 2"
abbreviation (input) ex_uchar :: uniqtype where "ex_uchar \<equiv> 3"
abbreviation (input) ex_int :: uniqtype where "ex_int \<equiv> 4"
abbreviation (input) ex_uint :: uniqtype where "ex_uint \<equiv> 5"
abbreviation (input) ex_int_ptr :: uniqtype where "ex_int_ptr \<equiv> 6"
abbreviation (input) ex_int_10 :: uniqtype where "ex_int_10 \<equiv> 7"
abbreviation (input) ex_pair :: uniqtype where "ex_pair \<equiv> 8"
abbreviation (input) ex_fun :: uniqtype where "ex_fun \<equiv> 9"
abbreviation (input) ex_void_ptr :: uniqtype where "ex_void_ptr \<equiv> 10"
abbreviation (input) ex_schar_arr :: uniqtype where "ex_schar_arr \<equiv> 11"
abbreviation (input) ex_pair_ptr :: uniqtype where "ex_pair_ptr \<equiv> 12"

abbreviation (input) ex_heap :: addr where "ex_heap \<equiv> 0x900"

definition ex_size :: "uniqtype \<Rightarrow> u32" where
  "ex_size t = (if t = ex_schar \<or> t = ex_uchar then 1
     else if t = ex_int \<or> t = ex_uint then 4
     else if t = ex_int_ptr \<or> t = ex_void_ptr \<or> t = ex_pair_ptr \<or> t = ex_pair then 8
     else if t = ex_int_10 then 40 else if t = ex_schar_arr then 16 else 0)"

definition ex_sub :: "u32 \<Rightarrow> uniqtype \<Rightarrow> (u32 \<times> uniqtype) option" where
  "ex_sub off t =
     (if t = ex_int_10 \<and> off < 40 then Some (off mod 4, ex_int)
      else if t = ex_pair \<and> off < 8 then Some (off mod 4, ex_int)
      else if t = ex_schar_arr \<and> off < 16 then Some (0, ex_schar)
      else None)"

definition ex_walk :: "u32 \<Rightarrow> uniqtype \<Rightarrow> visit list" where
  "ex_walk off t =
     (case ex_sub off t of None \<Rightarrow> []
      | Some (off', t') \<Rightarrow>
        [\<lparr> v_spans = t', v_start = off - off', v_containing = t, v_containing_start = 0 \<rparr>])"

definition ex_match :: "u32 \<Rightarrow> uniqtype \<Rightarrow> uniqtype \<Rightarrow> match_result" where
  "ex_match off t test =
     (if off = 0 \<and> t = test
      then \<lparr> mr_success = True, mr_type = t, mr_offset = 0, mr_cumulative = 0,
             mr_containing = 0, mr_contained_off = 0 \<rparr>
      else case ex_sub off t of
        None \<Rightarrow> \<lparr> mr_success = False, mr_type = t, mr_offset = off, mr_cumulative = 0,
             mr_containing = 0, mr_contained_off = 0 \<rparr>
      | Some (off', t') \<Rightarrow> \<lparr> mr_success = (off' = 0 \<and> t' = test), mr_type = t', mr_offset = off',
             mr_cumulative = off - off', mr_containing = t,
             mr_contained_off = (if t = ex_pair then off - off' else 0) \<rparr>)"

definition ex_find_alloc :: "ex_world \<Rightarrow> addr \<Rightarrow> alloc_info option" where
  "ex_find_alloc w p = find (\<lambda>a. p - ai_start a < ai_size a \<and> ai_start a \<noteq> 0 \<and> unat (ai_size a) < 2 ^ 32)
     (ex_allocs w)"

definition ex_entries :: "cache_id \<Rightarrow> ex_world \<Rightarrow> cache_entry list" where
  "ex_entries cid w = (case cid of OolCache \<Rightarrow> ex_ool w | FakeBoundsCache \<Rightarrow> ex_fake w)"

definition ex_set_entries :: "cache_id \<Rightarrow> ex_world \<Rightarrow> cache_entry list \<Rightarrow> ex_world" where
  "ex_set_entries cid w es = (case cid of OolCache \<Rightarrow> w\<lparr> ex_ool := es \<rparr>
     | FakeBoundsCache \<Rightarrow> w\<lparr> ex_fake := es \<rparr>)"

definition ex_lookup ::
  "(cache_entry \<Rightarrow> bool) \<Rightarrow> cache_id \<Rightarrow> ex_world \<Rightarrow> addr \<Rightarrow> (nat \<times> cache_entry) option" where
  "ex_lookup ok cid w p =
     find (\<lambda>(i, e). p - ce_base e < ce_limit e - ce_base e \<and> ok e)
       (zip [0..<length (ex_entries cid w)] (ex_entries cid w))"

definition ex_fill :: "cache_fill \<Rightarrow> cache_entry" where
  "ex_fill f = \<lparr> ce_base = cf_base f, ce_limit = cf_limit f, ce_uniqtype = cf_uniqtype f \<rparr>"

definition ex_related :: "uniqtype \<Rightarrow> nat \<Rightarrow> rel_info" where
  "ex_related t i =
     (if t = ex_pair then \<lparr> rel_off = of_nat (4 * i), rel_ptr = ex_int \<rparr>
      else if t = ex_fun then \<lparr> rel_off = 0, rel_ptr = (if i = 0 then ex_int else ex_int_ptr) \<rparr>
      else \<lparr> rel_off = 0, rel_ptr = 0 \<rparr>)"

definition ex_name :: "uniqtype \<Rightarrow> string" where
  "ex_name t = (if t = ex_int then ''int$32'' else if t = ex_uint then ''uint$32''
     else if t = ex_int_10 then ''__ARR10_int$32'' else if t = ex_pair then ''pair'' else ''other'')"

definition ex_la :: "ex_world liballocs" where
  "ex_la = \<lparr> pos_maxoff = ex_size, pos_maxoff_unbounded = 0x7fffffff, name_for_uniqtype = ex_name,
     is_pointer_type = (\<lambda>t. t = ex_int_ptr \<or> t = ex_void_ptr \<or> t = ex_pair_ptr),
     pointee_type = (\<lambda>t. if t = ex_int_ptr then ex_int else if t = ex_pair_ptr then ex_pair
        else ex_void),
     is_array_type = (\<lambda>t. t = ex_int_10 \<or> t = ex_schar_arr),
     array_element_type = (\<lambda>t. if t = ex_int_10 then ex_int else ex_schar),
     array_length = (\<lambda>t. if t = ex_int_10 then 10 else 16),
     has_known_length = (\<lambda>t. True),
     is_base_type = (\<lambda>t. t \<in> {ex_schar, ex_uchar, ex_int, ex_uint}),
     signedness_complement = (\<lambda>t. if t = ex_int then ex_uint else if t = ex_uint then ex_int
        else if t = ex_schar then ex_uchar else if t = ex_uchar then ex_schar else 0),
     is_subprogram_type = (\<lambda>t. t = ex_fun), subprogram_narg = (\<lambda>t. 1), subprogram_nret = (\<lambda>t. 1),
     is_abstract_type = (\<lambda>t. False),
     member_count = (\<lambda>t. if t = ex_pair then 2 else 0), related = ex_related,
     make_precise = (\<lambda>t. 0), array_precise_fn = 0x800,
     uniqtype_void = ex_void, uniqtype_signed_char = ex_schar, uniqtype_unsigned_char = ex_uchar,
     typestr_to_uniqtype = (\<lambda>s. if s = ''int$32'' then ex_int else 0),
     is_cacheable = (\<lambda>a. a = ex_heap), has_set_type = (\<lambda>a. a = ex_heap),
     alloc_is_dynamically_sized = (\<lambda>s site. False),
     first_subobject_spanning = ex_sub, walk_subobjects_spanning = ex_walk,
     find_matching_subobject = ex_match,
     subobject_rank = (\<lambda>t. if t \<in> {ex_int_10, ex_pair, ex_schar_arr} then 1 else 0),
     pointer_rank = (\<lambda>t. if t \<in> {ex_int_ptr, ex_void_ptr, ex_pair_ptr} then 1 else 0),
     dladdr_sname = (\<lambda>a. if a = 0x401000 then Some ''main'' else None),
     dladdr_symbol = (\<lambda>a. if a - 0x601000 < 16 then Some (0x601000, 16) else None),
     ensure_init = (\<lambda>w. w), get_alloc_info = (\<lambda>w p. (w, ex_find_alloc w p)),
     run_make_precise = (\<lambda>w t s n. (w, t)), set_type = (\<lambda>a w s t. w),
     get_or_create_array_type = (\<lambda>w t n. (w, t)),
     get_insert = (\<lambda>w p. p), insert_alloc_site_flag = (\<lambda>w p. p \<in> fst ` set (ex_insert_sites w)),
     insert_alloc_site = (\<lambda>w p. case map_of (ex_insert_sites w) p of Some s \<Rightarrow> s | None \<Rightarrow> 0),
     set_insert_alloc_site = (\<lambda>w p s. w\<lparr> ex_insert_sites := (p, s) # ex_insert_sites w \<rparr>),
     currently_allocating = ex_allocating, currently_freeing = (\<lambda>w. False),
     cache_lookup = (\<lambda>cid w p t period. ex_lookup (\<lambda>e. ce_uniqtype e = t) cid w p),
     cache_lookup_notype = (\<lambda>cid w p period. ex_lookup (\<lambda>e. True) cid w p),
     cache_set_limit = (\<lambda>cid w i l. ex_set_entries cid w
        ((ex_entries cid w)[i := (ex_entries cid w ! i)\<lparr> ce_limit := l \<rparr>])),
     cache_with_type = (\<lambda>cid w f. ex_set_entries cid w (ex_fill f # ex_entries cid w)),
     get_cached_object_type = (\<lambda>w p. case ex_lookup (\<lambda>e. True) OolCache w p of
        Some (_, e) \<Rightarrow> ce_uniqtype e | None \<Rightarrow> 0),
     getenv = (\<lambda>v. None), fopen_succeeds = (\<lambda>f. False), liballocs_stream_err = True,
     clear_refs_opens = True, aborted_unknown_storage = (\<lambda>w. 0),
     addrlist_contains = (\<lambda>w a. a \<in> set (ex_sites w)),
     addrlist_add = (\<lambda>w a. w\<lparr> ex_sites := a # ex_sites w \<rparr>) \<rparr>"

text \<open>An int[10] at \<open>0x1000\<close>, an int at \<open>0x2000\<close>, a function at \<open>0x401000\<close> and a pointer at \<open>0x3000\<close>.\<close>

definition ex_w :: ex_world where
  "ex_w = \<lparr> ex_allocs =
     [\<lparr> ai_allocator = ex_heap, ai_start = 0x1000, ai_size = 40, ai_uniqtype = ex_int_10, ai_site = 0 \<rparr>,
      \<lparr> ai_allocator = ex_heap, ai_start = 0x2000, ai_size = 4, ai_uniqtype = ex_int, ai_site = 0 \<rparr>,
      \<lparr> ai_allocator = ex_heap, ai_start = 0x3000, ai_size = 8, ai_uniqtype = ex_int_ptr, ai_site = 0 \<rparr>,
      \<lparr> ai_allocator = ex_heap, ai_start = 0x401000, ai_size = 16, ai_uniqtype = ex_fun, ai_site = 0 \<rparr>],
     ex_ool = [], ex_fake = [], ex_sites = [], ex_insert_sites = [], ex_allocating = False \<rparr>"

definition ex_st :: "ex_world crunch" where
  "ex_st = (initial_crunch ex_w (\<lambda>_. 0))\<lparr> is_initialized := True \<rparr>"

lemmas ex_defs = ex_la_def ex_w_def ex_st_def initial_crunch_def ex_size_def ex_sub_def ex_walk_def
  ex_match_def ex_find_alloc_def ex_entries_def ex_set_entries_def ex_lookup_def ex_fill_def
  ex_related_def ex_name_def

end
