(* ===== verification/Suppressions.thy ===== *)
theory Suppressions
  imports Example_World
begin

text \<open>
  Suppressions and failure reports (\<^verbatim>\<open>src/libcrunch.c\<close>): splitting the environment variable into
  words, matching a failed check against the user's patterns, and the two filters that keep
  repeated failures quiet.  C strings are character lists without the terminating NUL; a null
  \<^verbatim>\<open>char *\<close> is \<open>None\<close>.  The lemmas show that pattern matching is prefix matching, that splitting
  inverts joining and never overruns the array the words are written to, that a list of
  suppressions written in the documented syntax is read back exactly, and that outside verbose
  mode a site is reported once.
\<close>

text \<open>\<^verbatim>\<open>0 == strncmp(a, b, n)\<close>.\<close>

fun strncmp_eq :: "string \<Rightarrow> string \<Rightarrow> nat \<Rightarrow> bool" where
  "strncmp_eq a b 0 = True"
| "strncmp_eq [] [] (Suc n) = True"
| "strncmp_eq [] (y # ys) (Suc n) = False"
| "strncmp_eq (x # xs) [] (Suc n) = False"
| "strncmp_eq (x # xs) (y # ys) (Suc n) = (x = y \<and> strncmp_eq xs ys n)"

definition prefix_pattern_matches :: "string option \<Rightarrow> string option \<Rightarrow> bool outcome" where
  "prefix_pattern_matches pat str =
     (case str of None \<Rightarrow> Inr False
      | Some s \<Rightarrow>
        (case pat of None \<Rightarrow> Inl NullDeref
         | Some p \<Rightarrow>
           (let before_star = takeWhile (\<lambda>ch. ch \<noteq> CHR ''*'') p
            in Inr (strncmp_eq p s
                 (if CHR ''*'' \<in> set p then length before_star else length p)))))"

definition test_site_matches ::
  "'w liballocs \<Rightarrow> string option \<Rightarrow> addr \<Rightarrow> bool outcome" where
  "test_site_matches la pat test_site =
     (case dladdr_sname la test_site of
        Some sname \<Rightarrow> prefix_pattern_matches pat (Some sname)
      | None \<Rightarrow> prefix_pattern_matches pat (Some []))"

definition suppression_matches ::
  "'w liballocs \<Rightarrow> suppression \<Rightarrow> string option \<Rightarrow> addr \<Rightarrow> string option \<Rightarrow> bool outcome" where
  "suppression_matches la s test_typestr test_site alloc_typestr =
     obind (prefix_pattern_matches (test_type_pat s) test_typestr) (\<lambda>m1.
       if \<not> m1 then Inr False
       else obind (prefix_pattern_matches (alloc_type_pat s) alloc_typestr) (\<lambda>m2.
         if \<not> m2 then Inr False
         else test_site_matches la (testing_function_pat s) test_site))"

text \<open>The loop of \<^verbatim>\<open>is_suppressed\<close>: it stops at the first entry with a null \<^verbatim>\<open>test_type_pat\<close>.\<close>

fun find_suppression ::
  "'w liballocs \<Rightarrow> suppression list \<Rightarrow> string option \<Rightarrow> addr \<Rightarrow> string option \<Rightarrow> bool outcome" where
  "find_suppression la [] tt site at = Inr False"
| "find_suppression la (s # ss) tt site at =
     (if test_type_pat s = None then Inr False
      else obind (suppression_matches la s tt site at) (\<lambda>m.
        if m then Inr True else find_suppression la ss tt site at))"

definition typestr_of :: "'w liballocs \<Rightarrow> uniqtype \<Rightarrow> string option" where
  "typestr_of la t = (if t = 0 then None else Some (name_for_uniqtype la t))"

definition is_suppressed ::
  "'w liballocs \<Rightarrow> uniqtype \<Rightarrow> addr \<Rightarrow> uniqtype \<Rightarrow> 'w crunch \<Rightarrow> (bool \<times> 'w crunch) outcome" where
  "is_suppressed la maybe_test_uniqtype test_site maybe_alloc_uniqtype st =
     (case suppressions st of None \<Rightarrow> Inr (False, st)
      | Some ss \<Rightarrow>
        omap (\<lambda>hit. if hit
                then (True, st\<lparr> cnt_failed_and_suppressed := cnt_failed_and_suppressed st + 1 \<rparr>)
                else (False, st))
          (find_suppression la ss (typestr_of la maybe_test_uniqtype) test_site
             (typestr_of la maybe_alloc_uniqtype)))"

definition should_report_failure_at ::
  "'w liballocs \<Rightarrow> addr \<Rightarrow> uniqtype \<Rightarrow> uniqtype \<Rightarrow> 'w crunch \<Rightarrow> (bool \<times> 'w crunch) outcome" where
  "should_report_failure_at la site maybe_test_uniqtype maybe_alloc_uniqtype st =
     obind (is_suppressed la maybe_test_uniqtype site maybe_alloc_uniqtype st) (\<lambda>(sup, st).
       if sup then Inr (False, st)
       else if verbose st then Inr (True, st)
       else if \<not> addrlist_contains la (world st) site
       then Inr (True, st\<lparr> world := addrlist_add la (world st) site \<rparr>)
       else Inr (False, st))"

definition report_repeat_failure_summary :: "'w crunch \<Rightarrow> 'w crunch" where
  "report_repeat_failure_summary st =
     (if repeat_summarisation_count st > 0
      then (debug_println 0 (FurtherOccurrences (repeat_summarisation_count st)) st)
             \<lparr> repeat_summarisation_count := 0 \<rparr>
      else st)"

definition report_failure :: "addr \<Rightarrow> check_kind \<Rightarrow> uniqtype \<Rightarrow> 'w crunch \<Rightarrow> 'w crunch" where
  "report_failure site kind found_uniqtype st =
     (if last_failed_site st = site \<and> last_failed_decider st = found_uniqtype
      then st\<lparr> repeat_summarisation_count := repeat_summarisation_count st + 1 \<rparr>
      else (let st1 = report_repeat_failure_summary st;
                st2 = debug_println 0 (FailedCheck site kind) st1
            in st2\<lparr> last_failed_kind := kind, last_failed_site := site,
                   last_failed_decider := found_uniqtype \<rparr>))"

definition report_failure_if_necessary ::
  "'w liballocs \<Rightarrow> addr \<Rightarrow> check_kind \<Rightarrow> uniqtype \<Rightarrow> uniqtype \<Rightarrow> uniqtype \<Rightarrow>
     'w crunch \<Rightarrow> 'w crunch outcome" where
  "report_failure_if_necessary la site kind found_uniqtype test_uniqtype alloc_uniqtype st =
     omap (\<lambda>(yes, st). if yes then report_failure site kind found_uniqtype st else st)
       (should_report_failure_at la site test_uniqtype alloc_uniqtype st)"

text \<open>Splitting.  The loop of \<^verbatim>\<open>count_separated_words\<close> counts the separators.\<close>

fun count_separators :: "string \<Rightarrow> char \<Rightarrow> nat" where
  "count_separators [] sep = 0"
| "count_separators (ch # str) sep = (if ch = sep then 1 else 0) + count_separators str sep"

definition count_separated_words :: "string \<Rightarrow> char \<Rightarrow> nat" where
  "count_separated_words str sep = 1 + count_separators str sep"

text \<open>
  The \<^verbatim>\<open>do\<close> loop of \<^verbatim>\<open>fill_separated_words\<close>; \<open>out\<close> holds the words written so far, so its length
  is \<^verbatim>\<open>n_added\<close>.
\<close>

function fill_words_loop :: "string list \<Rightarrow> string \<Rightarrow> char \<Rightarrow> nat \<Rightarrow> string list outcome" where
  "fill_words_loop out pos sep mx =
     (let word = takeWhile (\<lambda>ch. ch \<noteq> sep) pos;
          spacepos = dropWhile (\<lambda>ch. ch \<noteq> sep) pos
      in if word \<noteq> [] \<and> \<not> length out < mx then Inl AssertFailed
         else (let out' = (if word \<noteq> [] then out @ [word] else out);
                   pos' = dropWhile (\<lambda>ch. ch = sep) spacepos
               in if pos' \<noteq> [] \<and> length out' < mx then fill_words_loop out' pos' sep mx
                  else Inr out'))"
  by pat_completeness auto

definition fill_separated_words :: "string \<Rightarrow> char \<Rightarrow> nat \<Rightarrow> string list outcome" where
  "fill_separated_words str sep mx =
     (if mx = 0 then Inr [] else fill_words_loop [] str sep mx)"

lemma next_word_shorter:
  assumes "dropWhile (\<lambda>ch. ch = sep) (dropWhile (\<lambda>ch. ch \<noteq> sep) pos) \<noteq> []"
  shows "length (dropWhile (\<lambda>ch. ch = sep) (dropWhile (\<lambda>ch. ch \<noteq> sep) pos)) < length pos"
proof -
  let ?r = "dropWhile (\<lambda>ch. ch \<noteq> sep) pos"
  have "?r \<noteq> []"
  proof
    assume "?r = []"
    then have "dropWhile (\<lambda>ch. ch = sep) ?r = []" by (simp only: dropWhile.simps)
    with assms show False by contradiction
  qed
  then have "hd ?r = sep" by (metis (mono_tags) hd_dropWhile)
  with \<open>?r \<noteq> []\<close> have "dropWhile (\<lambda>ch. ch = sep) ?r = dropWhile (\<lambda>ch. ch = sep) (tl ?r)"
    by (cases ?r) auto
  also have "length \<dots> \<le> length (tl ?r)" by (rule length_dropWhile_le)
  also have "\<dots> < length ?r" using \<open>?r \<noteq> []\<close> by simp
  also have "\<dots> \<le> length pos" by (rule length_dropWhile_le)
  finally show ?thesis .
qed

termination fill_words_loop
  by (relation "measure (\<lambda>(out, pos, sep, mx). length pos)") (simp_all add: next_word_shorter del: dropWhile_eq_Nil_conv)

declare fill_words_loop.simps [simp del]

text \<open>The suppression read from one word: three comma-separated patterns, or nothing.\<close>

definition null_suppression :: suppression where
  "null_suppression = \<lparr> test_type_pat = None, testing_function_pat = None, alloc_type_pat = None \<rparr>"

definition suppression_of_pats :: "string list \<Rightarrow> suppression" where
  "suppression_of_pats ws = \<lparr> test_type_pat = (if 0 < length ws then Some (ws ! 0) else None),
     testing_function_pat = (if 1 < length ws then Some (ws ! 1) else None),
     alloc_type_pat = (if 2 < length ws then Some (ws ! 2) else None) \<rparr>"

text \<open>
  The loop of \<^verbatim>\<open>__libcrunch_global_init\<close> over the words: the entry of an invalid word stays
  zeroed.
\<close>

fun load_suppression_words :: "string list \<Rightarrow> 'w crunch \<Rightarrow> (suppression list \<times> 'w crunch) outcome" where
  "load_suppression_words [] st = Inr ([], st)"
| "load_suppression_words (w # ws) st =
     obind (if count_separated_words w CHR '','' \<noteq> 3
            then Inr (null_suppression, debug_println 1 (InvalidSuppression w) st)
            else omap (\<lambda>pats. (suppression_of_pats pats, st)) (fill_separated_words w CHR '','' 3))
       (\<lambda>(s, st). omap (\<lambda>(ss, st). (s # ss, st)) (load_suppression_words ws st))"

definition load_suppressions :: "string option \<Rightarrow> 'w crunch \<Rightarrow> 'w crunch outcome" where
  "load_suppressions suppressions_str st =
     (case suppressions_str of None \<Rightarrow> Inr st
      | Some str \<Rightarrow>
        obind (fill_separated_words str CHR '' '' (count_separated_words str CHR '' '')) (\<lambda>ws.
          omap (\<lambda>(ss, st). st\<lparr> suppressions := Some ss \<rparr>) (load_suppression_words ws st)))"


subsection \<open>Pattern matching is prefix matching\<close>

lemma strncmp_eq_take: "n \<le> length a \<Longrightarrow> strncmp_eq a b n \<longleftrightarrow> take n b = take n a"
  by (induction a b n rule: strncmp_eq.induct) auto

lemma pattern_matches_iff_prefix:
  "prefix_pattern_matches (Some p) (Some s) =
     Inr (\<exists>rest. s = takeWhile (\<lambda>ch. ch \<noteq> CHR ''*'') p @ rest)"
proof -
  let ?b = "takeWhile (\<lambda>ch. ch \<noteq> CHR ''*'') p"
  have "(if CHR ''*'' \<in> set p then length ?b else length p) = length ?b"
  proof (cases "CHR ''*'' \<in> set p")
    case False
    then have "?b = p" by (intro takeWhile_eq_all_conv[THEN iffD2]) auto
    with False show ?thesis by (simp only: if_False)
  qed simp
  moreover have "take (length ?b) p = ?b" by (rule takeWhile_eq_take[symmetric])
  moreover have "take (length ?b) s = ?b \<longleftrightarrow> (\<exists>rest. s = ?b @ rest)"
    by (metis append_eq_conv_conj append_take_drop_id)
  ultimately show ?thesis
    by (simp add: prefix_pattern_matches_def strncmp_eq_take length_takeWhile_le)
qed


subsection \<open>Splitting\<close>

text \<open>Reference: all pieces between separators, the empty ones included.\<close>

fun split_on :: "string \<Rightarrow> char \<Rightarrow> string list" where
  "split_on [] sep = [[]]"
| "split_on (ch # str) sep =
     (if ch = sep then [] # split_on str sep
      else (ch # hd (split_on str sep)) # tl (split_on str sep))"

definition nonempty_words :: "string \<Rightarrow> char \<Rightarrow> string list" where
  "nonempty_words str sep = filter (\<lambda>w. w \<noteq> []) (split_on str sep)"

lemma split_on_not_Nil [simp]: "split_on str sep \<noteq> []"
  by (cases str) auto

lemma length_split_on: "length (split_on str sep) = count_separated_words str sep"
  by (induction str) (auto simp: count_separated_words_def)

lemma split_on_unfold:
  "split_on str sep = takeWhile (\<lambda>ch. ch \<noteq> sep) str #
     (case dropWhile (\<lambda>ch. ch \<noteq> sep) str of [] \<Rightarrow> [] | _ # rest \<Rightarrow> split_on rest sep)"
  by (induction str) auto

lemma nonempty_words_skip:
  "nonempty_words (dropWhile (\<lambda>ch. ch = sep) str) sep = nonempty_words str sep"
  by (induction str) (auto simp: nonempty_words_def)

lemma nonempty_words_Nil [simp]: "nonempty_words [] sep = []"
  by (simp add: nonempty_words_def)

lemma nonempty_words_unfold:
  "nonempty_words str sep =
     (let w = takeWhile (\<lambda>ch. ch \<noteq> sep) str;
          rest = dropWhile (\<lambda>ch. ch = sep) (dropWhile (\<lambda>ch. ch \<noteq> sep) str)
      in (if w \<noteq> [] then [w] else []) @ nonempty_words rest sep)"
proof (cases "dropWhile (\<lambda>ch. ch \<noteq> sep) str")
  case Nil
  then show ?thesis
    unfolding nonempty_words_def
    by (subst split_on_unfold) (simp add: Let_def del: dropWhile_eq_Nil_conv)
next
  case (Cons ch rest)
  then have "ch = sep" by (metis (mono_tags) hd_dropWhile list.distinct(1) list.sel(1))
  with Cons show ?thesis
    using nonempty_words_skip[of sep rest]
    unfolding nonempty_words_def by (subst split_on_unfold) (simp add: Let_def)
qed

lemma fill_words_loop_step:
  assumes "length out < mx"
    and "w = takeWhile (\<lambda>ch. ch \<noteq> sep) pos"
    and "r = dropWhile (\<lambda>ch. ch = sep) (dropWhile (\<lambda>ch. ch \<noteq> sep) pos)"
    and "out' = (if w \<noteq> [] then out @ [w] else out)"
  shows "fill_words_loop out pos sep mx =
    (if r \<noteq> [] \<and> length out' < mx then fill_words_loop out' r sep mx else Inr out')"
  using assms(1) unfolding fill_words_loop.simps[of out pos sep mx] assms(2-4) Let_def
  by (simp only: not_True_eq_False simp_thms if_False)

lemma fill_words_loop_spec:
  assumes "length out < mx"
  shows "fill_words_loop out pos sep mx = Inr (take mx (out @ nonempty_words pos sep))"
  using assms
proof (induction "length pos" arbitrary: out pos rule: less_induct)
  case less
  define w where "w = takeWhile (\<lambda>ch. ch \<noteq> sep) pos"
  define r where "r = dropWhile (\<lambda>ch. ch = sep) (dropWhile (\<lambda>ch. ch \<noteq> sep) pos)"
  define out' where "out' = (if w \<noteq> [] then out @ [w] else out)"
  note step = fill_words_loop_step[OF less.prems w_def r_def out'_def]
  have "nonempty_words pos sep = (if w \<noteq> [] then [w] else []) @ nonempty_words r sep"
    unfolding w_def r_def nonempty_words_unfold[of pos] Let_def ..
  then have a: "out @ nonempty_words pos sep = out' @ nonempty_words r sep"
    by (simp add: out'_def)
  show ?case
  proof (cases "r \<noteq> [] \<and> length out' < mx")
    case True
    then have "r \<noteq> []" ..
    then have "length r < length pos" unfolding r_def by (rule next_word_shorter)
    from less.hyps[OF this] True show ?thesis unfolding a step by (simp only: simp_thms if_True)
  next
    case False
    then have "r = [] \<or> length out' = mx" using less.prems by (auto simp: out'_def split: if_splits)
    moreover have "length out' \<le> mx" using less.prems by (simp add: out'_def)
    ultimately show ?thesis using False unfolding a step by auto
  qed
qed

lemma fill_separated_words_spec:
  "fill_separated_words str sep mx = Inr (take mx (nonempty_words str sep))"
  by (simp add: fill_separated_words_def fill_words_loop_spec)

lemma length_nonempty_words: "length (nonempty_words str sep) \<le> count_separated_words str sep"
  unfolding nonempty_words_def length_split_on[symmetric] by (rule length_filter_le)

text \<open>
  \<^verbatim>\<open>fill_separated_words\<close> never fails its assertion, whatever the string: it writes exactly the
  non-empty pieces of the string, in order, cut to the size of the output array; and an array of
  \<^verbatim>\<open>count_separated_words\<close> entries always holds all of them.
\<close>

theorem fill_separated_words_correct:
  "fill_separated_words str sep mx
     = Inr (take mx (filter (\<lambda>w. w \<noteq> []) (split_on str sep)))
   \<and> fill_separated_words str sep (count_separated_words str sep)
     = Inr (filter (\<lambda>w. w \<noteq> []) (split_on str sep))"
  using length_nonempty_words[of str sep]
  by (simp add: fill_separated_words_spec nonempty_words_def)


subsection \<open>Suppression lists\<close>

text \<open>The documented syntax: triples of patterns joined by commas, triples joined by spaces.\<close>

fun join_words :: "char \<Rightarrow> string list \<Rightarrow> string" where
  "join_words sep [] = []"
| "join_words sep [w] = w"
| "join_words sep (w # v # ws) = w @ sep # join_words sep (v # ws)"

type_synonym pattern_triple = "string \<times> string \<times> string"

definition render_triple :: "pattern_triple \<Rightarrow> string" where
  "render_triple = (\<lambda>(tt, tf, at). join_words CHR '','' [tt, tf, at])"

definition render_suppressions :: "pattern_triple list \<Rightarrow> string" where
  "render_suppressions ts = join_words CHR '' '' (map render_triple ts)"

definition plain_pattern :: "string \<Rightarrow> bool" where
  "plain_pattern p \<longleftrightarrow> p \<noteq> [] \<and> CHR '' '' \<notin> set p \<and> CHR '','' \<notin> set p"

definition plain_triple :: "pattern_triple \<Rightarrow> bool" where
  "plain_triple = (\<lambda>(tt, tf, at). plain_pattern tt \<and> plain_pattern tf \<and> plain_pattern at)"

definition suppression_of_triple :: "pattern_triple \<Rightarrow> suppression" where
  "suppression_of_triple = (\<lambda>(tt, tf, at).
     \<lparr> test_type_pat = Some tt, testing_function_pat = Some tf, alloc_type_pat = Some at \<rparr>)"

lemma split_on_no_sep: "sep \<notin> set w \<Longrightarrow> split_on w sep = [w]"
  by (induction w) auto

lemma split_on_append_sep: "sep \<notin> set w \<Longrightarrow> split_on (w @ sep # str) sep = w # split_on str sep"
  by (induction w) auto

lemma split_on_join:
  "ws \<noteq> [] \<Longrightarrow> \<forall>w \<in> set ws. sep \<notin> set w \<Longrightarrow> split_on (join_words sep ws) sep = ws"
  by (induction sep ws rule: join_words.induct) (auto simp: split_on_no_sep split_on_append_sep)

lemma nonempty_words_join:
  "\<forall>w \<in> set ws. sep \<notin> set w \<and> w \<noteq> [] \<Longrightarrow> nonempty_words (join_words sep ws) sep = ws"
  by (cases "ws = []") (simp_all add: nonempty_words_def split_on_join)

lemma render_triple_words:
  assumes "plain_triple t"
  shows "count_separated_words (render_triple t) CHR '','' = 3"
    and "fill_separated_words (render_triple t) CHR '','' 3 =
           Inr [fst t, fst (snd t), snd (snd t)]"
    and "CHR '' '' \<notin> set (render_triple t)" "render_triple t \<noteq> []"
proof -
  obtain tt tf at where t: "t = (tt, tf, at)" by (cases t)
  have p: "plain_pattern tt" "plain_pattern tf" "plain_pattern at"
    using assms by (simp_all add: plain_triple_def t)
  have s: "split_on (render_triple t) CHR '','' = [tt, tf, at]"
    using p unfolding render_triple_def t by (simp only: prod.case, intro split_on_join)
      (auto simp: plain_pattern_def)
  show "count_separated_words (render_triple t) CHR '','' = 3"
    unfolding length_split_on[symmetric] s by simp
  show "fill_separated_words (render_triple t) CHR '','' 3 = Inr [fst t, fst (snd t), snd (snd t)]"
    using p unfolding fill_separated_words_spec nonempty_words_def s
    by (simp add: plain_pattern_def t)
  show "CHR '' '' \<notin> set (render_triple t)" "render_triple t \<noteq> []"
    using p by (auto simp: render_triple_def t plain_pattern_def)
qed

lemma load_rendered_words:
  "\<forall>t \<in> set ts. plain_triple t \<Longrightarrow>
   load_suppression_words (map render_triple ts) st = Inr (map suppression_of_triple ts, st)"
  by (induction ts)
     (auto simp: render_triple_words suppression_of_pats_def suppression_of_triple_def)

text \<open>
  (C36) Parsing inverts printing for suppression lists: from any list of triples of non-empty
  patterns without spaces or commas, written in the documented syntax of
  \<^verbatim>\<open>LIBCRUNCH_SUPPRESSIONS\<close>, initialisation reads back exactly these suppressions, in order, with
  no complaint and no other change of state.
\<close>

theorem suppressions_parse_print:
  assumes "\<forall>t \<in> set ts. plain_triple t"
  shows "load_suppressions (Some (render_suppressions ts)) st
       = Inr (st\<lparr> suppressions := Some (map suppression_of_triple ts) \<rparr>)"
proof -
  have "nonempty_words (render_suppressions ts) CHR '' '' = map render_triple ts"
    unfolding render_suppressions_def
    using assms by (intro nonempty_words_join) (auto simp: render_triple_words)
  then have "fill_separated_words (render_suppressions ts) CHR '' ''
      (count_separated_words (render_suppressions ts) CHR '' '') = Inr (map render_triple ts)"
    using length_nonempty_words[of "render_suppressions ts" "CHR '' ''"]
    by (simp add: fill_separated_words_spec)
  then show ?thesis
    using assms by (simp add: load_suppressions_def load_rendered_words)
qed

theorem suppressions_parse_print_witness:
  "load_suppressions (Some ''int*,main,char$8 foo,bar*,baz'') (initial_crunch () (\<lambda>_. 0))
   = Inr ((initial_crunch () (\<lambda>_. 0))\<lparr> suppressions :=
       Some [suppression_of_triple (''int*'', ''main'', ''char$8''),
             suppression_of_triple (''foo'', ''bar*'', ''baz'')] \<rparr>)"
  using suppressions_parse_print[of "[(''int*'', ''main'', ''char$8''), (''foo'', ''bar*'', ''baz'')]"
      "initial_crunch () (\<lambda>_. 0)"]
  by (simp add: plain_triple_def plain_pattern_def render_suppressions_def render_triple_def)


text \<open>What a pattern covers: every string that starts with the part before the first star.\<close>

definition pattern_covers :: "string \<Rightarrow> string \<Rightarrow> bool" where
  "pattern_covers p s \<longleftrightarrow> (\<exists>rest. s = takeWhile (\<lambda>ch. ch \<noteq> CHR ''*'') p @ rest)"

definition triple_covers ::
  "'w liballocs \<Rightarrow> pattern_triple \<Rightarrow> uniqtype \<Rightarrow> addr \<Rightarrow> uniqtype \<Rightarrow> bool" where
  "triple_covers la = (\<lambda>(tt, tf, at) t site a.
     t \<noteq> 0 \<and> a \<noteq> 0 \<and> pattern_covers tt (name_for_uniqtype la t)
     \<and> pattern_covers at (name_for_uniqtype la a)
     \<and> pattern_covers tf (case dladdr_sname la site of Some s \<Rightarrow> s | None \<Rightarrow> []))"

lemma matches_covers: "prefix_pattern_matches (Some p) (Some s) = Inr (pattern_covers p s)"
  by (simp add: pattern_matches_iff_prefix pattern_covers_def)

lemma matches_no_string [simp]: "prefix_pattern_matches p None = Inr False"
  by (simp add: prefix_pattern_matches_def)

lemma suppression_matches_triple:
  "suppression_matches la (suppression_of_triple tr) (typestr_of la t) site (typestr_of la a)
   = Inr (triple_covers la tr t site a)"
  by (auto simp: suppression_matches_def suppression_of_triple_def triple_covers_def typestr_of_def
      test_site_matches_def matches_covers split: prod.splits option.splits)

lemma find_suppression_triples:
  "find_suppression la (map suppression_of_triple ts) (typestr_of la t) site (typestr_of la a)
   = Inr (\<exists>tr \<in> set ts. triple_covers la tr t site a)"
proof (induction ts)
  case (Cons tr ts)
  have "test_type_pat (suppression_of_triple tr) \<noteq> None"
    by (simp add: suppression_of_triple_def split: prod.splits)
  with Cons show ?case by (auto simp: suppression_matches_triple)
qed simp

text \<open>
  What a suppression list does.  With a well-formed list loaded, \<^verbatim>\<open>is_suppressed\<close> says yes exactly
  when some triple covers the name of the tested type, the name of the allocation's type and the
  name of the function that made the test, and then it adds one to the count of suppressed
  failures and changes nothing else.  A check that has no test type or no allocation type, such
  as every bounds check, is therefore never suppressed.
\<close>

theorem is_suppressed_iff_covered:
  assumes "suppressions st = Some (map suppression_of_triple ts)"
  shows "is_suppressed la t site a st =
     (if \<exists>tr \<in> set ts. triple_covers la tr t site a
      then Inr (True, st\<lparr> cnt_failed_and_suppressed := cnt_failed_and_suppressed st + 1 \<rparr>)
      else Inr (False, st))
   \<and> (t = 0 \<or> a = 0 \<longrightarrow> is_suppressed la t site a st = Inr (False, st))"
  using assms by (auto simp: is_suppressed_def find_suppression_triples triple_covers_def)

theorem is_suppressed_iff_covered_witness:
  "is_suppressed ex_la ex_int 0x401000 ex_pair
     (ex_st\<lparr> suppressions := Some (map suppression_of_triple [(''int*'', ''main'', ''pa*'')]) \<rparr>)
   = Inr (True, ex_st\<lparr> suppressions := Some (map suppression_of_triple [(''int*'', ''main'', ''pa*'')]),
        cnt_failed_and_suppressed := 1 \<rparr>)"
  using is_suppressed_iff_covered[of
      "ex_st\<lparr> suppressions := Some (map suppression_of_triple [(''int*'', ''main'', ''pa*'')]) \<rparr>"
      "[(''int*'', ''main'', ''pa*'')]" ex_la ex_int "0x401000" ex_pair]
  by (simp add: triple_covers_def pattern_covers_def ex_defs)

text \<open>
  One malformed word disables every suppression after it.  The entry of a word that does not
  have three comma-separated parts stays zeroed, and a zeroed entry is what ends the list; so
  whatever well-formed triples follow, no check is ever suppressed by them.
\<close>

theorem malformed_suppression_hides_the_rest:
  assumes "w \<noteq> []" "CHR '' '' \<notin> set w" "count_separated_words w CHR '','' \<noteq> 3"
    and "ts \<noteq> []" "\<forall>t \<in> set ts. plain_triple t"
  shows "\<exists>st'. load_suppressions (Some (w @ CHR '' '' # render_suppressions ts)) st = Inr st'
    \<and> length (the (suppressions st')) = 1 + length ts
    \<and> is_suppressed la t site a st' = Inr (False, st')"
proof -
  let ?str = "w @ CHR '' '' # render_suppressions ts"
  have "split_on (render_suppressions ts) CHR '' '' = map render_triple ts"
    unfolding render_suppressions_def
    using assms(4,5) by (intro split_on_join) (auto simp: render_triple_words)
  then have "nonempty_words ?str CHR '' '' = w # map render_triple ts"
    using assms(1,2,5)
    by (simp add: nonempty_words_def split_on_append_sep render_triple_words)
  then have f: "fill_separated_words ?str CHR '' '' (count_separated_words ?str CHR '' '')
      = Inr (w # map render_triple ts)"
    using length_nonempty_words[of ?str "CHR '' ''"] by (simp add: fill_separated_words_spec)
  have "load_suppressions (Some ?str) st =
     Inr ((debug_println 1 (InvalidSuppression w) st)
        \<lparr> suppressions := Some (null_suppression # map suppression_of_triple ts) \<rparr>)"
    unfolding load_suppressions_def option.case f
    using assms(3,5) by (simp add: load_rendered_words)
  then show ?thesis
    by (simp add: is_suppressed_def null_suppression_def)
qed

theorem malformed_suppression_hides_the_rest_witness:
  "\<exists>st'. load_suppressions (Some ''no-commas int,main,char'') ex_st = Inr st'
    \<and> length (the (suppressions st')) = Suc (Suc 0)
    \<and> is_suppressed ex_la ex_int 0x401000 ex_schar st' = Inr (False, st')"
  using malformed_suppression_hides_the_rest[of "''no-commas''" "[(''int'', ''main'', ''char'')]"
      ex_st ex_la ex_int "0x401000" ex_schar]
  by (simp add: plain_triple_def plain_pattern_def render_suppressions_def render_triple_def
      count_separated_words_def)


subsection \<open>Each site is reported once\<close>

text \<open>A run of failed checks, each at a site with its types: the sites that were reported.\<close>

fun report_run ::
  "'w liballocs \<Rightarrow> (addr \<times> uniqtype \<times> uniqtype) list \<Rightarrow> 'w crunch \<Rightarrow> (addr list \<times> 'w crunch) outcome" where
  "report_run la [] st = Inr ([], st)"
| "report_run la ((site, t, a) # cs) st =
     obind (should_report_failure_at la site t a st) (\<lambda>(yes, st).
       omap (\<lambda>(sites, st). (if yes then site # sites else sites, st)) (report_run la cs st))"

lemma is_suppressed_frame:
  "is_suppressed la t site a st = Inr (b, st') \<Longrightarrow> world st' = world st \<and> verbose st' = verbose st"
  by (auto simp: is_suppressed_def split: option.splits if_splits)

lemma should_report_cases:
  assumes "should_report_failure_at la site t a st = Inr (yes, st')" "\<not> verbose st"
  shows "\<not> verbose st'"
    and "yes \<Longrightarrow> \<not> addrlist_contains la (world st) site \<and> world st' = addrlist_add la (world st) site"
    and "\<not> yes \<Longrightarrow> world st' = world st"
  using assms
  by (auto simp: should_report_failure_at_def split: if_splits dest!: is_suppressed_frame)

text \<open>
  Outside verbose mode a failing site is reported at most once per process: over any sequence
  of failed checks the reported sites are distinct, and none of them had been recorded before.
  liballocs' address list is assumed to contain what was added to it and what it contained.
\<close>

theorem sites_reported_once:
  assumes "\<forall>w x y. addrlist_contains la (addrlist_add la w x) y
             \<longleftrightarrow> x = y \<or> addrlist_contains la w y"
    and "\<not> verbose st" "report_run la cs st = Inr (sites, st')"
  shows "distinct sites \<and> (\<forall>s \<in> set sites. \<not> addrlist_contains la (world st) s)"
  using assms(2,3)
proof (induction cs arbitrary: st sites)
  case (Cons call cs)
  obtain site t a where call: "call = (site, t, a)" by (cases call)
  obtain yes st1 sites1 where
    s: "should_report_failure_at la site t a st = Inr (yes, st1)"
       "report_run la cs st1 = Inr (sites1, st')"
       "sites = (if yes then site # sites1 else sites1)"
    using Cons.prems by (auto simp: call)
  note c = should_report_cases[OF s(1) Cons.prems(1)]
  have "distinct sites1 \<and> (\<forall>s \<in> set sites1. \<not> addrlist_contains la (world st1) s)"
    using Cons.IH[OF c(1) s(2)] .
  then show ?case using c(2,3) s(3) assms(1) by (cases yes) auto
qed simp

theorem sites_reported_once_witness:
  "distinct [0x10, 0x20 :: addr] \<and> \<not> addrlist_contains ex_la (world ex_st) 0x10"
proof -
  have "report_run ex_la [(0x10, 0, 0), (0x20, 0, 0), (0x10, 0, 0)] ex_st
    = Inr ([0x10, 0x20], ex_st\<lparr> world := ex_w\<lparr> ex_sites := [0x20, 0x10] \<rparr> \<rparr>)"
    by (simp add: should_report_failure_at_def is_suppressed_def ex_defs)
  then show ?thesis
    using sites_reported_once[of ex_la ex_st "[(0x10, 0, 0), (0x20, 0, 0), (0x10, 0, 0)]" "[0x10, 0x20]"]
    by (simp add: ex_defs)
qed

end
