(* ===== verification/Library_Init.thy ===== *)
theory Library_Init
  imports Suppressions
begin

text \<open>
  Start-up and shutdown of the library (\<^verbatim>\<open>src/libcrunch.c\<close>, and \<^verbatim>\<open>__libcrunch_check_init\<close> of
  \<^verbatim>\<open>include/libcrunch_cil_inlines.h\<close>): the two constructors, the one-shot initialisation that every
  check calls, and the exit summary.  The lemmas show that initialisation runs its effects at most
  once and that a failed attempt is never repeated.
\<close>

text \<open>The C library's \<^verbatim>\<open>atoi\<close>, for values that fit.\<close>

definition digit_val :: "char \<Rightarrow> int" where
  "digit_val ch = int (of_char ch) - 48"

fun atoi_digits :: "int \<Rightarrow> string \<Rightarrow> int" where
  "atoi_digits acc [] = acc"
| "atoi_digits acc (ch # str) =
     (if 0 \<le> digit_val ch \<and> digit_val ch \<le> 9 then atoi_digits (10 * acc + digit_val ch) str else acc)"

definition atoi :: "string \<Rightarrow> int" where
  "atoi str =
     (let s = dropWhile (\<lambda>ch. ch = CHR '' '' \<or> ch = CHR 0x09 \<or> ch = CHR 0x0A) str
      in case s of [] \<Rightarrow> 0
         | ch # rest \<Rightarrow> if ch = CHR ''-'' then - atoi_digits 0 rest
             else if ch = CHR ''+'' then atoi_digits 0 rest else atoi_digits 0 s)"

definition libcrunch_main_init :: "'w crunch \<Rightarrow> 'w crunch outcome" where
  "libcrunch_main_init st = (if done_init st then Inl AssertFailed else Inr (st\<lparr> done_init := True \<rparr>))"

text \<open>\<^verbatim>\<open>fopen\<close> of the file named by \<^verbatim>\<open>LIBCRUNCH_ERR\<close>; the test that follows reads liballocs' stream.\<close>

definition open_err_stream :: "'w liballocs \<Rightarrow> 'w crunch \<Rightarrow> 'w crunch" where
  "open_err_stream la st =
     (case getenv la ''LIBCRUNCH_ERR'' of
        Some errvar \<Rightarrow>
          (let st1 = st\<lparr> crunch_stream_err :=
                 (if fopen_succeeds la errvar then ErrFile errvar else NoStream) \<rparr>
           in if \<not> liballocs_stream_err la
              then debug_println 0 (CouldNotOpen errvar) (st1\<lparr> crunch_stream_err := Stderr \<rparr>)
              else st1)
      | None \<Rightarrow> st\<lparr> crunch_stream_err := Stderr \<rparr>)"

definition early_init :: "'w liballocs \<Rightarrow> 'w crunch \<Rightarrow> 'w crunch outcome" where
  "early_init la st =
     (let st1 = open_err_stream la st
      in if crunch_stream_err st1 = NoStream then Inl AssertFailed
         else (let st2 = (case getenv la ''LIBCRUNCH_DEBUG_LEVEL'' of
                    Some s \<Rightarrow> st1\<lparr> debug_level := atoi s \<rparr> | None \<Rightarrow> st1)
               in Inr (st2\<lparr> verbose := (debug_level st2 \<ge> 1 \<or> getenv la ''LIBCRUNCH_VERBOSE'' \<noteq> None),
                        exit_summary_registered := True \<rparr>)))"

definition install_segv_handler :: "'w crunch \<Rightarrow> 'w crunch" where
  "install_segv_handler st = st\<lparr> segv_handler_installed := True \<rparr>"

definition clear_mem_refbits :: "'w liballocs \<Rightarrow> 'w crunch \<Rightarrow> 'w crunch outcome" where
  "clear_mem_refbits la st = (if clear_refs_opens la then Inr st else Inl Aborted)"

definition libcrunch_global_init :: "'w liballocs \<Rightarrow> 'w crunch \<Rightarrow> (int \<times> 'w crunch) outcome" where
  "libcrunch_global_init la st =
     (if is_initialized st then Inr (0, st)
      else if tried_to_initialize st then Inr (-1, st)
      else (let st1 = st\<lparr> tried_to_initialize := True \<rparr>;
                st2 = st1\<lparr> world := ensure_init la (world st1) \<rparr>
            in obind (load_suppressions (getenv la ''LIBCRUNCH_SUPPRESSIONS'') st2) (\<lambda>st3.
                 obind (clear_mem_refbits la (install_segv_handler st3)) (\<lambda>st4.
                   let st5 = st4\<lparr> is_initialized := True \<rparr>
                   in Inr (0, debug_println 1 Initialized st5)))))"

text \<open>
  The inline guard of every check.  \<open>linked\<close> says whether the weak symbol
  \<^verbatim>\<open>__libcrunch_is_initialized\<close> is bound, that is, whether libcrunch is linked at all.
\<close>

definition libcrunch_check_init ::
  "config \<Rightarrow> 'w liballocs \<Rightarrow> bool \<Rightarrow> 'w crunch \<Rightarrow> (int \<times> 'w crunch) outcome" where
  "libcrunch_check_init c la linked st =
     (if noop_inlines c then Inr (0, st)
      else if \<not> linked then Inr (-1, st)
      else if \<not> is_initialized st then libcrunch_global_init la st
      else Inr (0, st))"

text \<open>The guard as the library itself calls it, where the symbol is bound; its result is ignored.\<close>

definition check_init :: "'w liballocs \<Rightarrow> 'w crunch \<Rightarrow> 'w crunch outcome" where
  "check_init la st = omap snd (libcrunch_check_init config_none la True st)"

text \<open>\<^verbatim>\<open>int\<close> arguments, compared as signed numbers: a negative index passes.\<close>

definition libcrunch_check_local_bounds :: "config \<Rightarrow> int \<Rightarrow> int \<Rightarrow> unit outcome" where
  "libcrunch_check_local_bounds c idx limit =
     (if noop_inlines c then Inr () else if idx \<ge> limit then Inl Aborted else Inr ())"

text \<open>The numbers of the exit summary, in the order they are printed.\<close>

definition summary_values :: "config \<Rightarrow> 'w liballocs \<Rightarrow> 'w crunch \<Rightarrow> u64 list" where
  "summary_values c la st =
     [cnt_begun st, cnt_aborted_typestr st,
      cnt_begun st - (aborted_unknown_storage la (world st) + cnt_aborted_typestr st),
      cnt_failed_in_alloc st, cnt_failed st, cnt_failed_and_suppressed st, cnt_succeeded st,
      cnt_is_a_hit_cache st]
     @ (if keep_expensive_counts c
        then [cnt_ptr_derefs st, cnt_ptr_stores st, cnt_ptr_derivations st] else [])
     @ [cnt_created_invalid_pointer st, 0, cnt_fetch_bounds_called st,
        cnt_fetch_bounds_missed_cache st, cnt_primary_secondary_transitions st,
        cnt_fault_handler_fixups st]"

definition print_exit_summary :: "config \<Rightarrow> 'w liballocs \<Rightarrow> 'w crunch \<Rightarrow> 'w crunch" where
  "print_exit_summary c la st =
     (if cnt_begun st = 0 \<and> cnt_ptr_derefs st = 0 \<and> cnt_fetch_bounds_called st = 0
         \<and> cnt_created_invalid_pointer st = 0
         \<and> getenv la ''LIBCRUNCH_ALWAYS_PRINT_EXIT_SUMMARY'' = None
      then st
      else (let st1 = report_repeat_failure_summary st;
                st2 = st1\<lparr> diagnostics := diagnostics st1 @ [ExitSummary (summary_values c la st1)] \<rparr>
            in if verbose st2 then st2
               else st2\<lparr> diagnostics := diagnostics st2 @ [VerboseHint] \<rparr>))"


subsection \<open>One-shot initialisation\<close>

lemma load_suppressions_total: "\<exists>st'. load_suppressions str st = Inr st'"
proof -
  have "\<exists>r. load_suppression_words ws st = Inr r" for ws and st :: "'a crunch"
  proof (induction ws arbitrary: st)
    case (Cons w ws)
    obtain s st1 where "(if count_separated_words w CHR '','' \<noteq> 3
            then Inr (null_suppression, debug_println 1 (InvalidSuppression w) st)
            else omap (\<lambda>pats. (suppression_of_pats pats, st)) (fill_separated_words w CHR '','' 3))
        = Inr (s, st1)"
      by (cases "count_separated_words w CHR '','' = 3") (auto simp: fill_separated_words_spec)
    moreover obtain r where "load_suppression_words ws st1 = Inr r" using Cons.IH by blast
    ultimately show ?case by simp
  qed simp
  then show ?thesis
    by (cases str) (auto simp: load_suppressions_def fill_separated_words_spec)
qed

lemma debug_println_flags [simp]:
  "is_initialized (debug_println l m st) = is_initialized st"
  "tried_to_initialize (debug_println l m st) = tried_to_initialize st"
  "world (debug_println l m st) = world st"
  "memory (debug_println l m st) = memory st"
  "cnt_created_invalid_pointer (debug_println l m st) = cnt_created_invalid_pointer st"
  by (simp_all add: debug_println_def)

text \<open>
  Initialisation is one-shot and its failures are final.  If the page-reference file can be
  opened, the first call succeeds with the library marked initialised and the fault handler
  installed, and from then on every call of the guard returns 0 and changes nothing; if it
  cannot, the first call aborts.  A library whose earlier attempt did not complete answers -1 for
  ever without trying again.
\<close>

theorem global_init_one_shot:
  "(\<not> is_initialized st \<and> \<not> tried_to_initialize st \<longrightarrow>
      (if clear_refs_opens la
       then \<exists>st'. libcrunch_global_init la st = Inr (0, st') \<and> is_initialized st'
              \<and> libcrunch_global_init la st' = Inr (0, st') \<and> check_init la st' = Inr st'
       else libcrunch_global_init la st = Inl Aborted))
   \<and> (\<not> is_initialized st \<and> tried_to_initialize st \<longrightarrow>
      libcrunch_global_init la st = Inr (-1, st) \<and> check_init la st = Inr st)"
proof -
  obtain st3 where st3: "load_suppressions (getenv la ''LIBCRUNCH_SUPPRESSIONS'')
      (st\<lparr> tried_to_initialize := True, world := ensure_init la (world st) \<rparr>) = Inr st3"
    using load_suppressions_total by blast
  then show ?thesis
    by (auto simp: libcrunch_global_init_def clear_mem_refbits_def check_init_def config_defs
        libcrunch_check_init_def Let_def)
qed

theorem global_init_one_shot_witness:
  "\<exists>st'. libcrunch_global_init ex_la (initial_crunch ex_w (\<lambda>_. 0)) = Inr (0, st')
     \<and> libcrunch_global_init ex_la st' = Inr (0, st')"
  using global_init_one_shot[of "initial_crunch ex_w (\<lambda>_. 0)" ex_la]
  by (auto simp: initial_crunch_def ex_la_def)

text \<open>
  A log file that cannot be opened stops the program.  The test after \<^verbatim>\<open>fopen\<close> looks at
  liballocs' stream instead of the one just opened, so whenever liballocs has a stream and
  \<^verbatim>\<open>LIBCRUNCH_ERR\<close> names a file that cannot be opened, the start-up constructor fails its assertion
  instead of falling back to standard error.
\<close>

theorem unopenable_log_file_is_fatal:
  assumes "getenv la ''LIBCRUNCH_ERR'' = Some f" "\<not> fopen_succeeds la f" "liballocs_stream_err la"
  shows "early_init la st = Inl AssertFailed"
  using assms by (simp add: early_init_def open_err_stream_def Let_def)

theorem unopenable_log_file_is_fatal_witness:
  "early_init (ex_la\<lparr> getenv := (\<lambda>v. if v = ''LIBCRUNCH_ERR'' then Some ''/nowhere'' else None) \<rparr>) ex_st
   = Inl AssertFailed"
  using unopenable_log_file_is_fatal[of
      "ex_la\<lparr> getenv := (\<lambda>v. if v = ''LIBCRUNCH_ERR'' then Some ''/nowhere'' else None) \<rparr>"
      "''/nowhere''" ex_st]
  by (simp add: ex_la_def)

end
