(* ===== verification/Shadow_Space.thy ===== *)
theory Shadow_Space
  imports Bounds
begin

text \<open>
  The bounds shadow space.  The bounds of a pointer stored at address \<open>p\<close> are kept at two
  addresses computed from \<open>p\<close>: the base at \<open>p XOR (0x70 << 40)\<close> and the size, 32 bits, at
  \<open>(p >> 1) + (0x08 << 40)\<close> (\<^verbatim>\<open>include/libcrunch_cil_inlines.h\<close>).  \<^verbatim>\<open>src/shadow.c\<close> maps four
  regions for the bases and four for the sizes, one for each range of user addresses.  The
  lemmas show where the shadow of each range lands, that the shadow regions never overlap each
  other or the user ranges, that a store is read back (with the exact loss of the 32-bit size),
  that stores to different slots do not interfere, and that \<^verbatim>\<open>__wrap___notify_copy\<close> moves the
  bounds of every pointer of a copied block.
\<close>

definition libcrunch_base_stored_loc :: "addr \<Rightarrow> addr" where
  "libcrunch_base_stored_loc ptr = push_bit 0x28 0x70 XOR ptr"

definition libcrunch_size_stored_loc :: "addr \<Rightarrow> addr" where
  "libcrunch_size_stored_loc ptr = push_bit 0x28 0x08 + drop_bit 1 ptr"

definition shadow_store_bounds_for :: "config \<Rightarrow> mem \<Rightarrow> addr \<Rightarrow> bounds \<Rightarrow> addr \<Rightarrow> mem" where
  "shadow_store_bounds_for c m stored_pointer_addr val_bounds t =
     (let vb = (if t = 0 then libcrunch_make_invalid_bounds c (load64 m stored_pointer_addr)
                else val_bounds);
          m1 = store64 m (libcrunch_base_stored_loc stored_pointer_addr) (bnd_base vb)
      in store32 m1 (libcrunch_size_stored_loc stored_pointer_addr) (ucast (bnd_size vb)))"

definition fetch_bounds_from_shadow_space :: "config \<Rightarrow> mem \<Rightarrow> addr \<Rightarrow> addr \<Rightarrow> bounds" where
  "fetch_bounds_from_shadow_space c m ptr loaded_from =
     (if no_shadow_space c \<or> noop_inlines c then libcrunch_make_invalid_bounds c ptr
      else if ptr = 0 then make_bounds c 0 1
      else if loaded_from \<noteq> 0 then
        (let b = load64 m (libcrunch_base_stored_loc loaded_from);
             s = load32 m (libcrunch_size_stored_loc loaded_from)
         in \<lparr> bnd_base = member_base c b,
              bnd_size = (if wordsize_bounds c then ucast s
                          else if long_size c then ucast (s + 1) - 1
                          else ucast s) \<rparr>)
      else libcrunch_make_invalid_bounds c ptr)"

definition fetch_bounds_inl :: "config \<Rightarrow> mem \<Rightarrow> addr \<Rightarrow> addr \<Rightarrow> addr \<Rightarrow> bounds" where
  "fetch_bounds_inl c m ptr loaded_from t = fetch_bounds_from_shadow_space c m ptr loaded_from"

text \<open>
  The copy hook.  \<open>real_notify_copy\<close> is liballocs' own hook, which runs afterwards;
  \<open>bases_region_00\<close> is the global that is null until the shadow space has been set up.
\<close>

definition wrap_notify_copy ::
  "(addr \<Rightarrow> addr \<Rightarrow> u64 \<Rightarrow> mem \<Rightarrow> mem) \<Rightarrow> addr \<Rightarrow> mem \<Rightarrow> addr \<Rightarrow> addr \<Rightarrow> u64 \<Rightarrow> mem" where
  "wrap_notify_copy real_notify_copy bases_region_00 m dest src n =
     real_notify_copy dest src n
       (if bases_region_00 = 0 then m
        else let m1 = memmove m (libcrunch_base_stored_loc dest) (libcrunch_base_stored_loc src) n
             in memmove m1 (libcrunch_size_stored_loc dest) (libcrunch_size_stored_loc src)
                  (n * 4 div 8))"

text \<open>
  The address ranges of \<^verbatim>\<open>src/shadow.c\<close>, as first and one-past-last byte: the ranges
  \<^verbatim>\<open>check_maps_cb\<close> accepts (whose last bytes are written there inclusively), and the regions
  \<^verbatim>\<open>init_shadow_space\<close> maps.
\<close>

definition user_ranges :: "(addr \<times> addr) list" where
  "user_ranges = [(0x000000000000, 0x055555555555), (0x2aaaaaaab000, 0x300000000000),
     (0x555555556000, 0x565555556001), (0x7aaaaaaab000, 0x800000000000)]"

definition base_regions :: "(addr \<times> addr) list" where
  "base_regions = [(0x700000000000, 0x755555556000), (0x5aaaaaaab000, 0x600000000000),
     (0x255555556000, 0x265555556000), (0x0aaaaaaab000, 0x100000000000)]"

definition size_regions :: "(addr \<times> addr) list" where
  "size_regions = [(0x080000000000, 0x0aaaaaaab000), (0x1d5555556000, 0x22aaaaaab000),
     (0x32aa80000000, 0x332aaaaab000), (0x455555556000, 0x480000000000)]"

definition in_regions :: "(addr \<times> addr) list \<Rightarrow> addr \<Rightarrow> bool" where
  "in_regions rs a \<longleftrightarrow> list_ex (\<lambda>(lo, hi). lo \<le> a \<and> a < hi) rs"

fun regions_disjoint :: "(addr \<times> addr) list \<Rightarrow> bool" where
  "regions_disjoint [] = True"
| "regions_disjoint ((lo, hi) # rs) =
     (lo \<le> hi \<and> list_all (\<lambda>(lo', hi'). hi \<le> lo' \<or> hi' \<le> lo) rs \<and> regions_disjoint rs)"

text \<open>
  The pages at the bottom of the second and fourth user range, and the byte at the end of the
  third, whose shadow falls outside the mapped regions.
\<close>

definition unshadowed_gaps :: "(addr \<times> addr) list" where
  "unshadowed_gaps = [(0x2aaaaaaab000, 0x2aaaaaaac000), (0x565555556000, 0x565555556001),
     (0x7aaaaaaab000, 0x7aaaaaaac000)]"

text \<open>An 8-byte aligned, non-null slot whose shadow is mapped.\<close>

definition shadow_slot :: "addr \<Rightarrow> bool" where
  "shadow_slot p \<longleftrightarrow> p \<noteq> 0 \<and> p AND 7 = 0 \<and> in_regions user_ranges p
     \<and> \<not> in_regions unshadowed_gaps p"


text \<open>The sizes that survive being stored in 32 bits and read back by this configuration.\<close>

definition size_survives :: "config \<Rightarrow> u64 \<Rightarrow> bool" where
  "size_survives c n \<longleftrightarrow>
     (if long_size c \<and> \<not> wordsize_bounds c then n < 0xffffffff \<or> n = -1 else n < 0x100000000)"

text \<open>Bounds that the configuration's structure can hold.\<close>

definition representable :: "config \<Rightarrow> bounds \<Rightarrow> bool" where
  "representable c b \<longleftrightarrow> member_base c (bnd_base b) = bnd_base b \<and> size_survives c (bnd_size b)"

definition has_shadow_space :: "config \<Rightarrow> bool" where
  "has_shadow_space c \<longleftrightarrow> \<not> no_shadow_space c \<and> \<not> noop_inlines c"

definition within_region :: "(addr \<times> addr) list \<Rightarrow> addr \<Rightarrow> nat \<Rightarrow> bool" where
  "within_region rs a n \<longleftrightarrow> (\<exists>(lo, hi) \<in> set rs. unat lo \<le> unat a \<and> unat a + n \<le> unat hi)"


subsection \<open>Where the shadow lands\<close>

lemma in_regions_simps [simp]:
  "in_regions [] a \<longleftrightarrow> False"
  "in_regions ((lo, hi) # rs) a \<longleftrightarrow> (lo \<le> a \<and> a < hi) \<or> in_regions rs a"
  by (simp_all add: in_regions_def)

lemma in_regionsI:
  "(lo, hi) \<in> set rs \<Longrightarrow> unat lo \<le> unat a \<Longrightarrow> unat a < unat hi \<Longrightarrow> in_regions rs a"
  by (auto simp: in_regions_def list_ex_iff word_le_nat_alt word_less_nat_alt)

lemma word3_xor_7:
  fixes h :: u64
  assumes "unat h < 8"
  shows "unat (h XOR 7) = 7 - unat h"
proof -
  define n where "n = unat h"
  have h: "h = of_nat n" by (simp add: n_def)
  have "n = 0 \<or> n = 1 \<or> n = 2 \<or> n = 3 \<or> n = 4 \<or> n = 5 \<or> n = 6 \<or> n = 7"
    using assms by (auto simp: n_def)
  then show ?thesis unfolding h by (elim disjE) simp_all
qed

lemma base_stored_loc_split:
  "libcrunch_base_stored_loc p = push_bit 44 (drop_bit 44 p XOR 7) OR take_bit 44 p"
proof -
  have k: "push_bit 0x28 0x70 = (push_bit 44 7 :: u64)" by simp
  have "push_bit 44 h XOR p = push_bit 44 (drop_bit 44 p XOR h) OR take_bit 44 p" for h
  proof (rule bit_word_eqI)
    fix n assume "n < LENGTH(64)"
    then show "bit (push_bit 44 h XOR p) n
        = bit (push_bit 44 (drop_bit 44 p XOR h) OR take_bit 44 p) n"
      by (cases "n < 44") (auto simp: bit_simps)
  qed
  then show ?thesis unfolding libcrunch_base_stored_loc_def k .
qed

lemma unat_push_or_take:
  fixes x p :: u64
  assumes "unat x < 2 ^ 20"
  shows "unat (push_bit 44 x OR take_bit 44 p) = 2 ^ 44 * unat x + unat p mod 2 ^ 44"
proof -
  have "push_bit 44 x AND take_bit 44 p = 0"
    by (rule bit_word_eqI) (auto simp: bit_simps)
  then have "push_bit 44 x OR take_bit 44 p = push_bit 44 x + take_bit 44 p"
    by (simp add: disjunctive_add_eq_or)
  moreover have "unat (push_bit 44 x) = 2 ^ 44 * unat x"
    using assms by (simp add: push_bit_eq_mult unat_word_ariths)
  moreover have "unat (take_bit 44 p) = unat p mod 2 ^ 44"
    by (simp only: unat_take_bit_u64)
  moreover have "2 ^ 44 * unat x + unat p mod 2 ^ 44 < 2 ^ 64"
  proof -
    have "unat p mod 2 ^ 44 < 2 ^ 44" by simp
    with assms show ?thesis by simp
  qed
  ultimately show ?thesis by (simp add: unat_word_ariths)
qed

text \<open>For a 47-bit address the XOR complements the three top bits.\<close>

lemma unat_base_stored_loc:
  assumes "unat p < 2 ^ 47"
  shows "unat (libcrunch_base_stored_loc p) = 2 ^ 44 * (7 - unat p div 2 ^ 44) + unat p mod 2 ^ 44"
proof -
  have d: "unat (drop_bit 44 p) = unat p div 2 ^ 44"
    by (simp only: unat_drop_bit_u64)
  with assms have "unat (drop_bit 44 p) < 8" by auto
  then have "unat (drop_bit 44 p XOR 7) = 7 - unat p div 2 ^ 44"
    using word3_xor_7 d by simp
  moreover from this have "unat (drop_bit 44 p XOR 7) < 2 ^ 20" by simp
  ultimately show ?thesis
    using unat_push_or_take base_stored_loc_split by metis
qed

lemma unat_size_stored_loc:
  assumes "unat p < 2 ^ 48"
  shows "unat (libcrunch_size_stored_loc p) = 0x080000000000 + unat p div 2"
proof -
  have "unat (drop_bit 1 p) = unat p div 2"
    using unat_drop_bit_u64[of 1 p] by simp
  then show ?thesis
    using assms by (simp add: libcrunch_size_stored_loc_def unat_word_ariths)
qed

lemma base_stored_loc_top:
  assumes "unat p div 2 ^ 44 = h" "h < 8"
  shows "unat (libcrunch_base_stored_loc p) + 2 ^ 44 * h = 2 ^ 44 * (7 - h) + unat p"
proof -
  have "unat p = 2 ^ 44 * h + unat p mod 2 ^ 44"
    using assms(1) mult_div_mod_eq[of "2 ^ 44" "unat p"] by simp
  moreover have "unat p < 2 ^ 47"
    using assms by auto
  ultimately show ?thesis
    using unat_base_stored_loc[of p] assms(1) by simp
qed

text \<open>The XOR moves each user range as a block.\<close>

lemma user_range_cases:
  assumes "in_regions user_ranges p"
  obtains
    (r00) "unat p < 0x055555555555" "unat (libcrunch_base_stored_loc p) = unat p + 0x700000000000"
  | (r2a) "0x2aaaaaaab000 \<le> unat p" "unat p < 0x300000000000"
      "unat (libcrunch_base_stored_loc p) = unat p + 0x300000000000"
  | (r55) "0x555555556000 \<le> unat p" "unat p < 0x565555556001"
      "unat (libcrunch_base_stored_loc p) = unat p - 0x300000000000"
  | (r7a) "0x7aaaaaaab000 \<le> unat p" "unat p < 0x800000000000"
      "unat (libcrunch_base_stored_loc p) = unat p - 0x700000000000"
proof -
  consider "unat p < 0x055555555555" | "0x2aaaaaaab000 \<le> unat p \<and> unat p < 0x300000000000"
    | "0x555555556000 \<le> unat p \<and> unat p < 0x565555556001"
    | "0x7aaaaaaab000 \<le> unat p \<and> unat p < 0x800000000000"
    using assms by (auto simp: user_ranges_def word_le_nat_alt word_less_nat_alt)
  then show ?thesis
  proof cases
    case 1
    then show ?thesis using base_stored_loc_top[of p 0] that(1) by simp
  next
    case 2
    then have "unat p div 2 ^ 44 = 2" by (intro div_nat_eqI) simp_all
    with 2 show ?thesis using base_stored_loc_top[of p 2] that(2) by simp
  next
    case 3
    then have "unat p div 2 ^ 44 = 5" by (intro div_nat_eqI) simp_all
    with 3 show ?thesis using base_stored_loc_top[of p 5] that(3) by simp
  next
    case 4
    then have "unat p div 2 ^ 44 = 7" by (intro div_nat_eqI) simp_all
    with 4 show ?thesis using base_stored_loc_top[of p 7] that(4) by simp
  qed
qed

lemma user_range_bound: "in_regions user_ranges p \<Longrightarrow> unat p < 2 ^ 47"
  by (auto simp: user_ranges_def word_le_nat_alt word_less_nat_alt)

lemma base_stored_loc_mapped:
  assumes "in_regions user_ranges p" "p \<noteq> 0x565555556000"
  shows "in_regions base_regions (libcrunch_base_stored_loc p)"
  using assms(1)
proof (cases rule: user_range_cases)
  case r00
  then show ?thesis
    by (intro in_regionsI[of "0x700000000000" "0x755555556000"]) (simp_all add: base_regions_def)
next
  case r2a
  then show ?thesis
    by (intro in_regionsI[of "0x5aaaaaaab000" "0x600000000000"]) (simp_all add: base_regions_def)
next
  case r55
  moreover have "unat p \<noteq> 0x565555556000"
    using assms(2) by (simp add: word_unat_eq_iff)
  ultimately show ?thesis
    by (intro in_regionsI[of "0x255555556000" "0x265555556000"]) (simp_all add: base_regions_def)
next
  case r7a
  then show ?thesis
    by (intro in_regionsI[of "0x0aaaaaaab000" "0x100000000000"]) (simp_all add: base_regions_def)
qed

lemma size_stored_loc_mapped:
  assumes "in_regions user_ranges p" "\<not> in_regions unshadowed_gaps p"
  shows "in_regions size_regions (libcrunch_size_stored_loc p)"
proof -
  have "unat p < 2 ^ 48" using user_range_bound[OF assms(1)] by simp
  note loc = unat_size_stored_loc[OF this]
  have gap: "\<not> (0x2aaaaaaab000 \<le> unat p \<and> unat p < 0x2aaaaaaac000)" "unat p \<noteq> 0x565555556000"
    "\<not> (0x7aaaaaaab000 \<le> unat p \<and> unat p < 0x7aaaaaaac000)"
    using assms(2) by (auto simp: unshadowed_gaps_def word_le_nat_alt word_less_nat_alt)
  from assms(1) show ?thesis
  proof (cases rule: user_range_cases)
    case r00
    then show ?thesis using loc
      by (intro in_regionsI[of "0x080000000000" "0x0aaaaaaab000"]) (simp_all add: size_regions_def)
  next
    case r2a
    with gap have "0x2aaaaaaac000 \<le> unat p" by simp
    with r2a show ?thesis using loc
      by (intro in_regionsI[of "0x1d5555556000" "0x22aaaaaab000"]) (simp_all add: size_regions_def)
  next
    case r55
    with gap have "unat p < 0x565555556000" by simp
    with r55 show ?thesis using loc
      by (intro in_regionsI[of "0x32aa80000000" "0x332aaaaab000"]) (simp_all add: size_regions_def)
  next
    case r7a
    with gap have "0x7aaaaaaac000 \<le> unat p" by simp
    with r7a show ?thesis using loc
      by (intro in_regionsI[of "0x455555556000" "0x480000000000"]) (simp_all add: size_regions_def)
  qed
qed

lemma in_regions_append: "in_regions (rs @ ss) a \<longleftrightarrow> in_regions rs a \<or> in_regions ss a"
  by (auto simp: in_regions_def)

text \<open>The gaps, by number.\<close>

lemma gap_cases:
  assumes "in_regions unshadowed_gaps p"
  obtains "0x2aaaaaaab000 \<le> unat p" "unat p < 0x2aaaaaaac000" | "unat p = 0x565555556000"
    | "0x7aaaaaaab000 \<le> unat p" "unat p < 0x7aaaaaaac000"
proof -
  have "0x2aaaaaaab000 \<le> unat p \<and> unat p < 0x2aaaaaaac000 \<or> unat p = 0x565555556000
      \<or> 0x7aaaaaaab000 \<le> unat p \<and> unat p < 0x7aaaaaaac000"
    using assms by (auto simp: unshadowed_gaps_def word_le_nat_alt word_less_nat_alt)
  then show thesis using that by blast
qed

lemma gap_sizes_unmapped:
  assumes "in_regions unshadowed_gaps p"
  shows "\<not> in_regions (base_regions @ size_regions) (libcrunch_size_stored_loc p)"
proof -
  have "unat p < 2 ^ 48" by (rule gap_cases[OF assms]) simp_all
  note loc = unat_size_stored_loc[OF this]
  let ?a = "unat (libcrunch_size_stored_loc p)"
  have "0x1d5555555800 \<le> ?a \<and> ?a < 0x1d5555556000 \<or> ?a = 0x332aaaaab000
      \<or> 0x455555555800 \<le> ?a \<and> ?a < 0x455555556000"
    by (rule gap_cases[OF assms]) (auto simp: loc)
  then show ?thesis
    by (auto simp: base_regions_def size_regions_def word_le_nat_alt word_less_nat_alt)
qed

lemma shadow_mapped_iff:
  assumes "in_regions user_ranges p"
  shows "in_regions (base_regions @ size_regions) (libcrunch_base_stored_loc p) \<longleftrightarrow> p \<noteq> 0x565555556000"
    and "in_regions (base_regions @ size_regions) (libcrunch_size_stored_loc p)
      \<longleftrightarrow> \<not> in_regions unshadowed_gaps p"
proof -
  have "\<not> in_regions (base_regions @ size_regions) (libcrunch_base_stored_loc 0x565555556000)"
    by (simp add: libcrunch_base_stored_loc_def base_regions_def size_regions_def)
  then show "in_regions (base_regions @ size_regions) (libcrunch_base_stored_loc p) \<longleftrightarrow> p \<noteq> 0x565555556000"
    using base_stored_loc_mapped[OF assms] by (auto simp: in_regions_append)
  show "in_regions (base_regions @ size_regions) (libcrunch_size_stored_loc p)
      \<longleftrightarrow> \<not> in_regions unshadowed_gaps p"
    using size_stored_loc_mapped[OF assms] gap_sizes_unmapped by (auto simp: in_regions_append)
qed

text \<open>
  (C20) Which shadow locations are mapped.  Take an address that \<^verbatim>\<open>check_maps_cb\<close> lets the program map in
  the four ranges that are to be shadowed.  Its base is stored inside a region that \<^verbatim>\<open>init_shadow_space\<close>
  maps, unless the address is \<open>0x565555556000\<close>.  Its size is stored inside such a region if and only if
  the address is not in one of three gaps: the lowest pages of the \<open>2aaa\<close> and of the \<open>7aaa\<close> range
  (\<open>0x2aaaaaaab000\<close> and \<open>0x7aaaaaaab000\<close>) and \<open>0x565555556000\<close>.  The twelve ranges (four user ranges, four
  base regions, four size regions) are pairwise disjoint, so shadow bounds stored in the regions never
  touch program data and the two kinds of shadow never collide.
\<close>

theorem shadow_locations_mapped_and_disjoint:
  "regions_disjoint (user_ranges @ base_regions @ size_regions)
   \<and> (in_regions user_ranges p \<longrightarrow>
        (in_regions (base_regions @ size_regions) (libcrunch_base_stored_loc p) \<longleftrightarrow> p \<noteq> 0x565555556000)
        \<and> (in_regions (base_regions @ size_regions) (libcrunch_size_stored_loc p) \<longleftrightarrow>
            \<not> in_regions [(0x2aaaaaaab000, 0x2aaaaaaac000), (0x565555556000, 0x565555556001),
                 (0x7aaaaaaab000, 0x7aaaaaaac000)] p))"
proof (intro conjI impI)
  show "regions_disjoint (user_ranges @ base_regions @ size_regions)"
    by (simp add: user_ranges_def base_regions_def size_regions_def)
  assume "in_regions user_ranges p"
  from shadow_mapped_iff[OF this]
  show "in_regions (base_regions @ size_regions) (libcrunch_base_stored_loc p) \<longleftrightarrow> p \<noteq> 0x565555556000"
    "in_regions (base_regions @ size_regions) (libcrunch_size_stored_loc p) \<longleftrightarrow>
       \<not> in_regions [(0x2aaaaaaab000, 0x2aaaaaaac000), (0x565555556000, 0x565555556001),
            (0x7aaaaaaab000, 0x7aaaaaaac000)] p"
    by (simp_all only: unshadowed_gaps_def)
qed

theorem shadow_locations_mapped_and_disjoint_witness:
  "in_regions (base_regions @ size_regions) (libcrunch_base_stored_loc 0x7fff12345678)
   \<and> in_regions (base_regions @ size_regions) (libcrunch_size_stored_loc 0x7fff12345678)
   \<and> \<not> in_regions (base_regions @ size_regions) (libcrunch_size_stored_loc 0x2aaaaaaab000)"
  using shadow_locations_mapped_and_disjoint[of "0x7fff12345678"]
    shadow_locations_mapped_and_disjoint[of "0x2aaaaaaab000"]
  by (simp add: user_ranges_def)


subsection \<open>Slots do not overlap\<close>

lemma regions_disjoint_append:
  "regions_disjoint (rs @ ss) \<Longrightarrow> (lo, hi) \<in> set rs \<Longrightarrow> (lo', hi') \<in> set ss \<Longrightarrow>
     hi \<le> lo' \<or> hi' \<le> lo"
  by (induction rs rule: regions_disjoint.induct) (auto simp: list_all_iff)

lemma within_disjoint_regions:
  assumes "regions_disjoint (rs @ ss)" "within_region rs a n" "within_region ss b k"
  shows "ranges_disjoint a n b k"
proof -
  obtain lo hi lo' hi' where r: "(lo, hi) \<in> set rs" "(lo', hi') \<in> set ss"
    and a: "unat lo \<le> unat a" "unat a + n \<le> unat hi"
    and b: "unat lo' \<le> unat b" "unat b + k \<le> unat hi'"
    using assms(2,3) by (auto simp: within_region_def)
  have "hi \<le> lo' \<or> hi' \<le> lo"
    using regions_disjoint_append[OF assms(1) r] .
  then have "unat a + n \<le> unat b \<or> unat b + k \<le> unat a"
    using a b by (auto simp: word_le_nat_alt)
  then show ?thesis
    using a b unat_u64_bound[of hi] unat_u64_bound[of hi'] by (intro ranges_disjointI_unat) auto
qed

lemma and_7_take_bit: "(p :: u64) AND 7 = take_bit 3 p"
  by (simp add: take_bit_eq_mask mask_eq_exp_minus_1)

lemma aligned_mod: "(p :: u64) AND 7 = 0 \<longleftrightarrow> unat p mod 8 = 0"
proof -
  have "(p AND 7 = 0) = (unat (take_bit 3 p) = 0)"
    unfolding and_7_take_bit by (rule unat_eq_zero[symmetric])
  then show ?thesis unfolding unat_take_bit_u64 by simp
qed

lemma base_loc_mod: "unat (libcrunch_base_stored_loc p) mod 8 = unat p mod 8"
proof -
  have "take_bit 3 (libcrunch_base_stored_loc p) = take_bit 3 p"
    unfolding base_stored_loc_split by (rule bit_word_eqI) (auto simp: bit_simps)
  then have "unat (take_bit 3 (libcrunch_base_stored_loc p)) = unat (take_bit 3 p)" by simp
  then show ?thesis unfolding unat_take_bit_u64 by simp
qed

lemma base_stored_loc_involution: "libcrunch_base_stored_loc (libcrunch_base_stored_loc p) = p"
  unfolding libcrunch_base_stored_loc_def by (rule xor_left_cancel)

lemma base_stored_loc_inj:
  assumes "libcrunch_base_stored_loc p = libcrunch_base_stored_loc q"
  shows "p = q"
  using arg_cong[OF assms, of libcrunch_base_stored_loc]
  unfolding base_stored_loc_involution .

lemma mult_8_apart:
  "(a :: nat) mod 8 = 0 \<Longrightarrow> b mod 8 = 0 \<Longrightarrow> a \<noteq> b \<Longrightarrow> a + 8 \<le> b \<or> b + 8 \<le> a"
  by presburger

lemma mult_8_fits: "(a :: nat) mod 8 = 0 \<Longrightarrow> h mod 8 = 0 \<Longrightarrow> a < h \<Longrightarrow> a + 8 \<le> h"
  by presburger

lemma mult_4_fits: "(a :: nat) mod 4 = 0 \<Longrightarrow> h mod 4 = 0 \<Longrightarrow> a < h \<Longrightarrow> a + 4 \<le> h"
  by presburger

text \<open>An aligned access that starts in a region with aligned ends stays inside it.\<close>

lemma within_regionI:
  assumes "in_regions rs a" "unat a mod k = 0" "0 < k"
    and "list_all (\<lambda>(lo, hi). unat hi mod k = 0) rs"
  shows "within_region rs a k"
proof -
  obtain lo hi where r: "(lo, hi) \<in> set rs" "unat lo \<le> unat a" "unat a < unat hi"
    using assms(1) by (auto simp: in_regions_def list_ex_iff word_le_nat_alt word_less_nat_alt)
  then have "unat hi mod k = 0" using assms(4) by (auto simp: list_all_iff)
  then have "unat a + k \<le> unat hi"
  proof -
    obtain i j where ij: "unat a = k * i" "unat hi = k * j"
      using assms(2) \<open>unat hi mod k = 0\<close> by (auto simp: mod_eq_0_iff_dvd elim!: dvdE)
    with r(3) assms(3) have "i + 1 \<le> j" by simp
    then have "k * (i + 1) \<le> k * j" by (rule mult_le_mono2)
    with ij show ?thesis by simp
  qed
  with r show ?thesis by (auto simp: within_region_def)
qed

lemma slot_aligned: "shadow_slot p \<Longrightarrow> unat p mod 8 = 0"
  by (simp add: shadow_slot_def aligned_mod)

lemma slot_not_last: "shadow_slot p \<Longrightarrow> p \<noteq> 0x565555556000"
  by (auto simp: shadow_slot_def unshadowed_gaps_def)

lemma slot_base_within:
  assumes "shadow_slot p"
  shows "within_region base_regions (libcrunch_base_stored_loc p) 8"
proof (rule within_regionI)
  show "in_regions base_regions (libcrunch_base_stored_loc p)"
    using base_stored_loc_mapped slot_not_last[OF assms] assms by (simp add: shadow_slot_def)
  show "unat (libcrunch_base_stored_loc p) mod 8 = 0"
    using slot_aligned[OF assms] base_loc_mod by simp
qed (simp_all add: base_regions_def)

lemma slot_size_within:
  assumes "shadow_slot p"
  shows "within_region size_regions (libcrunch_size_stored_loc p) 4"
proof (rule within_regionI)
  show "in_regions size_regions (libcrunch_size_stored_loc p)"
    using assms size_stored_loc_mapped[of p] by (simp add: shadow_slot_def)
  have "unat p < 2 ^ 48" using assms user_range_bound[of p] by (simp add: shadow_slot_def)
  moreover have "(0x080000000000 + unat p div 2) mod 4 = 0"
    using slot_aligned[OF assms] by presburger
  ultimately show "unat (libcrunch_size_stored_loc p) mod 4 = 0"
    by (simp add: unat_size_stored_loc)
qed (simp_all add: size_regions_def)

text \<open>The user ranges, cut to whole slots.\<close>

definition user_slots :: "(addr \<times> addr) list" where
  "user_slots = [(0, 0x055555555558), (0x2aaaaaaab000, 0x300000000000),
     (0x555555556000, 0x565555556000), (0x7aaaaaaab000, 0x800000000000)]"

lemma slot_user_within:
  assumes "shadow_slot p"
  shows "within_region user_slots p 8"
proof (rule within_regionI)
  have "in_regions user_ranges p" using assms by (simp add: shadow_slot_def)
  moreover have "unat p \<noteq> 0x565555556000"
    using slot_not_last[OF assms] by (simp add: word_unat_eq_iff)
  ultimately show "in_regions user_slots p"
    by (auto simp: user_ranges_def user_slots_def word_le_nat_alt word_less_nat_alt)
  show "unat p mod 8 = 0" by (rule slot_aligned[OF assms])
qed (simp_all add: user_slots_def)

lemma shadow_regions_disjoint:
  "regions_disjoint (base_regions @ size_regions)"
  "regions_disjoint (user_slots @ base_regions)"
  "regions_disjoint (user_slots @ size_regions)"
  by (simp_all add: base_regions_def size_regions_def user_slots_def)

lemma slots_disjoint:
  assumes "shadow_slot p" "shadow_slot q"
  shows "ranges_disjoint (libcrunch_base_stored_loc p) 8 (libcrunch_size_stored_loc q) 4"
    and "ranges_disjoint p 8 (libcrunch_base_stored_loc q) 8"
    and "ranges_disjoint p 8 (libcrunch_size_stored_loc q) 4"
  using assms shadow_regions_disjoint
  by (blast intro: within_disjoint_regions slot_base_within slot_size_within slot_user_within)+

lemma distinct_slots_disjoint:
  assumes "shadow_slot p" "shadow_slot q" "p \<noteq> q"
  shows "ranges_disjoint (libcrunch_base_stored_loc p) 8 (libcrunch_base_stored_loc q) 8"
    and "ranges_disjoint (libcrunch_size_stored_loc p) 4 (libcrunch_size_stored_loc q) 4"
    and "ranges_disjoint p 8 q 8"
proof -
  have u: "unat p < 2 ^ 47" "unat q < 2 ^ 47"
    using assms user_range_bound by (auto simp: shadow_slot_def)
  have m: "unat p mod 8 = 0" "unat q mod 8 = 0" and ne: "unat p \<noteq> unat q"
    using assms slot_aligned by (auto simp: word_unat_eq_iff)
  have apart: "unat p + 8 \<le> unat q \<or> unat q + 8 \<le> unat p"
    using mult_8_apart[OF m ne] .
  show "ranges_disjoint p 8 q 8"
    using u apart by (intro ranges_disjointI_unat) auto
  show "ranges_disjoint (libcrunch_size_stored_loc p) 4 (libcrunch_size_stored_loc q) 4"
    using u apart by (intro ranges_disjointI_unat) (auto simp: unat_size_stored_loc)
  let ?b = "unat (libcrunch_base_stored_loc p)" and ?d = "unat (libcrunch_base_stored_loc q)"
  have bd: "?b mod 8 = 0" "?d mod 8 = 0"
    using m base_loc_mod by simp_all
  have "?b \<noteq> ?d" using assms(3) base_stored_loc_inj[of p q] by (auto simp: word_unat_eq_iff)
  from mult_8_apart[OF bd this]
  show "ranges_disjoint (libcrunch_base_stored_loc p) 8 (libcrunch_base_stored_loc q) 8"
    using mult_8_fits[OF bd(1), of "2 ^ 64"] mult_8_fits[OF bd(2), of "2 ^ 64"]
      unat_u64_bound[of "libcrunch_base_stored_loc p"]
      unat_u64_bound[of "libcrunch_base_stored_loc q"]
    by (intro ranges_disjointI_unat) auto
qed


subsection \<open>Storing and fetching\<close>

text \<open>What a shadow space promises to the code that stores values for addresses in it.\<close>

locale shadow_map =
  fixes put :: "'m \<Rightarrow> addr \<Rightarrow> 'v \<Rightarrow> 'm"
    and get :: "'m \<Rightarrow> addr \<Rightarrow> 'v"
    and slot :: "addr \<Rightarrow> bool"
    and storable :: "'v \<Rightarrow> bool"
  assumes get_put_same: "slot p \<Longrightarrow> storable v \<Longrightarrow> get (put m p v) p = v"
    and get_put_other: "slot p \<Longrightarrow> slot q \<Longrightarrow> p \<noteq> q \<Longrightarrow> get (put m p v) q = get m q"
begin

definition put_all :: "'m \<Rightarrow> (addr \<times> 'v) list \<Rightarrow> 'm" where
  "put_all m kvs = foldl (\<lambda>m (p, v). put m p v) m kvs"

text \<open>A sequence of stores behaves as a finite map: the last store to a slot wins.\<close>

lemma get_put_all:
  assumes "\<forall>(q, v) \<in> set kvs. slot q \<and> storable v" "slot p"
  shows "get (put_all m kvs) p = (case map_of (rev kvs) p of None \<Rightarrow> get m p | Some v \<Rightarrow> v)"
  using assms
proof (induction kvs rule: rev_induct)
  case Nil
  then show ?case by (simp add: put_all_def)
next
  case (snoc kv kvs)
  obtain q v where kv: "kv = (q, v)" by force
  have "put_all m (kvs @ [kv]) = put (put_all m kvs) q v"
    by (simp add: put_all_def kv)
  with snoc kv show ?case
    by (cases "p = q") (auto simp: get_put_same get_put_other)
qed

end

lemma ucast_max_bounds_trick:
  fixes n :: u64
  assumes "n < 0xffffffff \<or> n = -1"
  shows "ucast (ucast n + 1 :: u32) - 1 = n"
proof (cases "n = -1")
  case True
  have "(ucast (-1 :: u64) :: u32) = -1"
    by (rule bit_word_eqI) (auto simp: bit_simps)
  with True show ?thesis by simp
next
  case False
  with assms have "unat n < 0xffffffff" by (simp add: word_less_nat_alt)
  moreover from this have "unat (ucast n :: u32) = unat n"
    by (simp add: unsigned_ucast_eq take_bit_nat_eq_self)
  ultimately have "unat (ucast n + 1 :: u32) = unat n + 1"
    by (simp add: unat_word_ariths)
  moreover have "unat (n + 1) = unat n + 1"
    using \<open>unat n < 0xffffffff\<close> by (simp add: unat_word_ariths)
  ultimately have "ucast (ucast n + 1 :: u32) = n + 1"
    using \<open>unat n < 0xffffffff\<close>
    by (simp add: word_unat_eq_iff unsigned_ucast_eq take_bit_nat_eq_self)
  then show ?thesis by simp
qed

lemma ucast_32_roundtrip:
  fixes n :: u64
  assumes "n < 0x100000000"
  shows "ucast (ucast n :: u32) = n"
proof -
  have "unat n < 2 ^ 32" using assms by (simp add: word_less_nat_alt)
  then have "take_bit 32 n = n" by (rule take_bit_32_id)
  then show ?thesis by (simp add: unsigned_ucast_eq)
qed

definition load_size :: "config \<Rightarrow> u32 \<Rightarrow> u64" where
  "load_size c s = (if long_size c \<and> \<not> wordsize_bounds c then ucast (s + 1) - 1 else ucast s)"

lemma load_size_survives: "size_survives c n \<Longrightarrow> load_size c (ucast n) = n"
  by (auto simp: load_size_def size_survives_def ucast_max_bounds_trick ucast_32_roundtrip
      split: if_splits)

lemma fetch_unfold:
  assumes "has_shadow_space c" "v \<noteq> 0" "p \<noteq> 0"
  shows "fetch_bounds_from_shadow_space c m v p =
    \<lparr> bnd_base = member_base c (load64 m (libcrunch_base_stored_loc p)),
      bnd_size = load_size c (load32 m (libcrunch_size_stored_loc p)) \<rparr>"
  using assms
  by (simp add: fetch_bounds_from_shadow_space_def has_shadow_space_def load_size_def Let_def)

lemma fetch_store_same:
  assumes "has_shadow_space c" "v \<noteq> 0" "t \<noteq> 0" "shadow_slot p" "representable c b"
  shows "fetch_bounds_from_shadow_space c (shadow_store_bounds_for c m p b t) v p = b"
proof -
  have "p \<noteq> 0" using assms by (simp add: shadow_slot_def)
  moreover have "ranges_disjoint (libcrunch_base_stored_loc p) 8 (libcrunch_size_stored_loc p) 4"
    using slots_disjoint assms by blast
  ultimately show ?thesis
    using assms by (simp add: fetch_unfold shadow_store_bounds_for_def mem_simps
        representable_def load_size_survives)
qed

lemma fetch_store_other:
  assumes "has_shadow_space c" "v \<noteq> 0" "shadow_slot p" "shadow_slot q" "p \<noteq> q"
  shows "fetch_bounds_from_shadow_space c (shadow_store_bounds_for c m p b t) v q
       = fetch_bounds_from_shadow_space c m v q"
proof -
  have "q \<noteq> 0" using assms by (simp add: shadow_slot_def)
  moreover have "ranges_disjoint (libcrunch_base_stored_loc q) 8 (libcrunch_base_stored_loc p) 8"
    "ranges_disjoint (libcrunch_size_stored_loc q) 4 (libcrunch_size_stored_loc p) 4"
    using distinct_slots_disjoint[OF assms(4,3)] assms(5) by auto
  moreover have "ranges_disjoint (libcrunch_base_stored_loc q) 8 (libcrunch_size_stored_loc p) 4"
    "ranges_disjoint (libcrunch_size_stored_loc q) 4 (libcrunch_base_stored_loc p) 8"
    using slots_disjoint assms ranges_disjoint_sym by blast+
  ultimately show ?thesis
    using assms by (simp add: fetch_unfold shadow_store_bounds_for_def mem_simps Let_def)
qed

lemma data_unchanged:
  assumes "shadow_slot p" "shadow_slot q"
  shows "load64 (shadow_store_bounds_for c m q b t) p = load64 m p"
  using slots_disjoint(2,3)[OF assms]
  by (simp add: shadow_store_bounds_for_def mem_simps Let_def)

locale bounds_shadow =
  fixes c :: config and v :: addr and t :: addr
  assumes shadowed: "has_shadow_space c" "v \<noteq> 0" "t \<noteq> 0"

sublocale bounds_shadow \<subseteq> shadow_map
  "\<lambda>m p b. shadow_store_bounds_for c m p b t"
  "\<lambda>m p. fetch_bounds_from_shadow_space c m v p"
  shadow_slot "representable c"
  using shadowed by unfold_locales (simp_all add: fetch_store_same fetch_store_other)

context bounds_shadow
begin

lemma stores_behave_as_map:
  assumes "\<forall>(q, b) \<in> set kvs. shadow_slot q \<and> representable c b" "shadow_slot p"
  shows "fetch_bounds_from_shadow_space c
           (foldl (\<lambda>m (q, b). shadow_store_bounds_for c m q b t) m kvs) v p =
         (case map_of (rev kvs) p of
            None \<Rightarrow> fetch_bounds_from_shadow_space c m v p | Some b \<Rightarrow> b)"
  using get_put_all[OF assms, of m] by (simp add: put_all_def)

end

interpretation shadow_m: bounds_shadow config_m 1 1
  by unfold_locales (simp_all add: config_defs has_shadow_space_def)

interpretation shadow_bws: bounds_shadow config_bws 1 1
  by unfold_locales (simp_all add: config_defs has_shadow_space_def)

text \<open>
  (C8) The shadow space is a finite map from pointer slots to bounds.  In a configuration with a shadow
  space, after any sequence of \<^verbatim>\<open>__shadow_store_bounds_for\<close> calls, with a type, on slots whose shadow is
  mapped and with bounds the configuration can represent, fetching the bounds of a slot for a
  non-null pointer gives those of the last store to it, or what the memory held before if there was
  none, and the program's own pointer at the slot is untouched.
\<close>

theorem shadow_space_is_a_map:
  assumes "has_shadow_space c" "v \<noteq> 0" "t \<noteq> 0"
    and "\<forall>(q, b) \<in> set kvs. shadow_slot q \<and> representable c b" "shadow_slot p"
  shows "fetch_bounds_from_shadow_space c
           (foldl (\<lambda>m (q, b). shadow_store_bounds_for c m q b t) m kvs) v p =
         (case map_of (rev kvs) p of
            None \<Rightarrow> fetch_bounds_from_shadow_space c m v p | Some b \<Rightarrow> b)
    \<and> load64 (foldl (\<lambda>m (q, b). shadow_store_bounds_for c m q b t) m kvs) p = load64 m p"
proof
  have loc: "bounds_shadow c v t"
    using assms(1-3) by (rule bounds_shadow.intro)
  show "fetch_bounds_from_shadow_space c
           (foldl (\<lambda>m (q, b). shadow_store_bounds_for c m q b t) m kvs) v p =
         (case map_of (rev kvs) p of
            None \<Rightarrow> fetch_bounds_from_shadow_space c m v p | Some b \<Rightarrow> b)"
    by (rule bounds_shadow.stores_behave_as_map[OF loc assms(4,5)])
  show "load64 (foldl (\<lambda>m (q, b). shadow_store_bounds_for c m q b t) m kvs) p = load64 m p"
    using assms(4,5)
    by (induction kvs arbitrary: m) (auto simp: data_unchanged)
qed

theorem shadow_space_is_a_map_witness:
  "fetch_bounds_from_shadow_space config_m
     (foldl (\<lambda>m (q, b). shadow_store_bounds_for config_m m q b 1) (\<lambda>_. 0)
        [(0x1000, \<lparr> bnd_base = 0x2000, bnd_size = 16 \<rparr>),
         (0x1008, \<lparr> bnd_base = 0x3000, bnd_size = -1 \<rparr>),
         (0x1000, \<lparr> bnd_base = 0x4000, bnd_size = 8 \<rparr>)]) 0x2004 0x1000
   = \<lparr> bnd_base = 0x4000, bnd_size = 8 \<rparr>"
  using shadow_space_is_a_map[of config_m "0x2004" 1
      "[(0x1000, \<lparr> bnd_base = 0x2000, bnd_size = 16 \<rparr>),
        (0x1008, \<lparr> bnd_base = 0x3000, bnd_size = -1 \<rparr>),
        (0x1000, \<lparr> bnd_base = 0x4000, bnd_size = 8 \<rparr>)]" "0x1000" "\<lambda>_. 0"]
  by (simp add: config_defs has_shadow_space_def shadow_slot_def user_ranges_def
      unshadowed_gaps_def representable_def size_survives_def member_base_def)


lemma unat_u32_bound: "unat (s :: u32) < 2 ^ 32"
  using unsigned_less[of s] by simp

lemma load_size_range:
  "size_survives c (load_size c s)"
proof (cases "long_size c \<and> \<not> wordsize_bounds c")
  case True
  show ?thesis
  proof (cases "s = -1")
    case False
    then have "unat (s + 1) \<noteq> 0" by (metis eq_neg_iff_add_eq_0 unat_eq_zero)
    moreover have lt: "unat (s + 1) < 2 ^ 32" by (rule unat_u32_bound)
    moreover have u: "unat (ucast (s + 1) :: u64) = unat (s + 1)"
      by (simp add: unsigned_ucast_eq) (use lt in \<open>simp add: take_bit_nat_eq_self\<close>)
    ultimately have "unat (ucast (s + 1) - 1 :: u64) = unat (s + 1) - 1"
      by (subst unat_sub_nowrap) (simp_all add: word_le_nat_alt)
    with lt have "unat (ucast (s + 1) - 1 :: u64) < 0xffffffff"
      using \<open>unat (s + 1) \<noteq> 0\<close> by simp
    then show ?thesis
      using True by (simp add: size_survives_def load_size_def word_less_nat_alt)
  qed (use True in \<open>simp add: size_survives_def load_size_def\<close>)
next
  case False
  have "unat (ucast s :: u64) = unat s"
    using unat_u32_bound[of s] by (simp add: unsigned_ucast_eq take_bit_nat_eq_self)
  then show ?thesis
    using False unat_u32_bound[of s] by (auto simp: size_survives_def load_size_def word_less_nat_alt)
qed

text \<open>
  Exactly which sizes survive the 32-bit shadow word.  With 64-bit sizes the increment and
  decrement of the fetch keep \<open>max bounds\<close> and every size below \<open>2^32 - 1\<close>; every other size is
  read back as a different one (an object of exactly \<open>2^32 - 1\<close> bytes comes back with maximal
  bounds, one of \<open>2^32\<close> bytes with invalid bounds).
\<close>

theorem shadow_size_loss_exact:
  assumes "has_shadow_space c" "v \<noteq> 0" "t \<noteq> 0" "shadow_slot p"
  shows "bnd_size (fetch_bounds_from_shadow_space c (shadow_store_bounds_for c m p b t) v p)
           = bnd_size b \<longleftrightarrow> size_survives c (bnd_size b)"
proof -
  have "p \<noteq> 0" using assms by (simp add: shadow_slot_def)
  moreover have "ranges_disjoint (libcrunch_base_stored_loc p) 8 (libcrunch_size_stored_loc p) 4"
    using slots_disjoint assms by blast
  ultimately have "bnd_size (fetch_bounds_from_shadow_space c (shadow_store_bounds_for c m p b t) v p)
      = load_size c (ucast (bnd_size b))"
    using assms by (simp add: fetch_unfold shadow_store_bounds_for_def mem_simps)
  then show ?thesis
    using load_size_survives[of c "bnd_size b"] load_size_range[of c "ucast (bnd_size b)"] by auto
qed

theorem shadow_size_loss_exact_witness:
  "bnd_size (fetch_bounds_from_shadow_space config_m
     (shadow_store_bounds_for config_m (\<lambda>_. 0) 0x1000
        \<lparr> bnd_base = 0x200000000000, bnd_size = 0xffffffff \<rparr> 1) 0x200000000000 0x1000) \<noteq> 0xffffffff"
  using shadow_size_loss_exact[of config_m "0x200000000000" 1 "0x1000" "\<lambda>_. 0"
      "\<lparr> bnd_base = 0x200000000000, bnd_size = 0xffffffff \<rparr>"]
  by (simp add: config_defs has_shadow_space_def shadow_slot_def user_ranges_def
      unshadowed_gaps_def size_survives_def)


subsection \<open>Copying\<close>

text \<open>The user addresses whose whole shadow is mapped, cut to whole slots.\<close>

definition shadowed_slots :: "(addr \<times> addr) list" where
  "shadowed_slots = [(0, 0x055555555550), (0x2aaaaaaac000, 0x300000000000),
     (0x555555556000, 0x565555556000), (0x7aaaaaaac000, 0x800000000000)]"

lemma load_bytes_memmove:
  assumes "i + k \<le> unat n"
  shows "load_bytes (memmove m d s n) (d + of_nat i) k = load_bytes m (s + of_nat i) k"
proof (rule load_bytes_cong)
  fix j assume "j < k"
  then have j: "i + j < unat n" using assms by simp
  then have "i + j < 2 ^ 64" using unat_u64_bound[of n] by simp
  then have "unat (d + of_nat i + of_nat j - d) = i + j"
    using unat_sub_offset[of "i + j" d] by (simp add: add.assoc)
  moreover have "d + of_nat i + of_nat j - d = of_nat i + of_nat j" by simp
  ultimately show "memmove m d s n (d + of_nat i + of_nat j) = m (s + of_nat i + of_nat j)"
    using j by (simp add: memmove_def add.assoc)
qed

lemma load_bytes_memmove_outside:
  assumes "ranges_disjoint a k d (unat n)"
  shows "load_bytes (memmove m d s n) a k = load_bytes m a k"
proof (rule load_bytes_cong)
  fix j assume j: "j < k"
  have "\<not> unat (a + of_nat j - d) < unat n"
  proof
    assume "unat (a + of_nat j - d) < unat n"
    moreover have "a + of_nat j = d + of_nat (unat (a + of_nat j - d))" by simp
    ultimately show False using assms j unfolding ranges_disjoint_def by blast
  qed
  then show "memmove m d s n (a + of_nat j) = m (a + of_nat j)" by (simp add: memmove_def)
qed

text \<open>Inside one range both shadow locations move with the address.\<close>

lemma shadowed_cases:
  assumes "within_region shadowed_slots p n"
  obtains "unat p + n \<le> 0x055555555550"
  | "0x2aaaaaaac000 \<le> unat p" "unat p + n \<le> 0x300000000000"
  | "0x555555556000 \<le> unat p" "unat p + n \<le> 0x565555556000"
  | "0x7aaaaaaac000 \<le> unat p" "unat p + n \<le> 0x800000000000"
  using assms by (auto simp: within_region_def shadowed_slots_def)

lemma shadowed_bound: "within_region shadowed_slots p n \<Longrightarrow> unat p + n \<le> 2 ^ 47"
  by (erule shadowed_cases) auto

lemma base_loc_shift:
  assumes "within_region shadowed_slots p n" "k < n"
  shows "libcrunch_base_stored_loc (p + of_nat k) = libcrunch_base_stored_loc p + of_nat k"
proof -
  have b: "unat p + n \<le> 2 ^ 47" using shadowed_bound[OF assms(1)] .
  with assms(2) have k: "unat (of_nat k :: u64) = k" by (simp add: unat_of_nat_u64)
  with b assms(2) have pk: "unat (p + of_nat k) = unat p + k" by (simp add: unat_word_ariths)
  have d: "(unat p + k) div 2 ^ 44 = unat p div 2 ^ 44" "unat p div 2 ^ 44 < 8"
  proof -
    have "\<exists>h. h < 8 \<and> 2 ^ 44 * h \<le> unat p \<and> unat p + n \<le> 2 ^ 44 * Suc h"
      using assms(1)
    proof (cases rule: shadowed_cases)
      case 1 then show ?thesis by (intro exI[of _ 0]) simp
    next
      case 2 then show ?thesis by (intro exI[of _ 2]) simp
    next
      case 3 then show ?thesis by (intro exI[of _ 5]) simp
    next
      case 4 then show ?thesis by (intro exI[of _ 7]) simp
    qed
    then obtain h where h: "h < 8" "2 ^ 44 * h \<le> unat p" "unat p + n \<le> 2 ^ 44 * Suc h" by blast
    have "unat p div 2 ^ 44 = h" "(unat p + k) div 2 ^ 44 = h"
      using h assms(2) by (auto intro!: div_nat_eqI simp: mult.commute)
    with h(1) show "(unat p + k) div 2 ^ 44 = unat p div 2 ^ 44" "unat p div 2 ^ 44 < 8"
      by simp_all
  qed
  have "unat (libcrunch_base_stored_loc (p + of_nat k)) = unat (libcrunch_base_stored_loc p) + k"
    using base_stored_loc_top[of p] base_stored_loc_top[of "p + of_nat k"] d pk by simp
  moreover from this have "unat (libcrunch_base_stored_loc p) + k < 2 ^ 64"
    using unat_u64_bound[of "libcrunch_base_stored_loc (p + of_nat k)"] by simp
  ultimately show ?thesis by (simp add: word_unat_eq_iff unat_word_ariths k)
qed

lemma size_loc_shift:
  assumes "within_region shadowed_slots p n" "unat p mod 8 = 0" "8 * i < n"
  shows "libcrunch_size_stored_loc (p + of_nat (8 * i)) = libcrunch_size_stored_loc p + of_nat (4 * i)"
proof -
  have b: "unat p + n \<le> 2 ^ 47" using shadowed_bound[OF assms(1)] .
  with assms(3) have "8 * i < 2 ^ 64" "4 * i < 2 ^ 64" by simp_all
  then have k: "unat (of_nat (8 * i) :: u64) = 8 * i" "unat (of_nat (4 * i) :: u64) = 4 * i"
    using unat_of_nat_u64 by blast+
  with b assms(3) have pk: "unat (p + of_nat (8 * i)) = unat p + 8 * i"
    by (simp only: unat_word_ariths) simp
  have "(unat p + 8 * i) div 2 = unat p div 2 + 4 * i" by simp
  with b pk assms(3)
  have "unat (libcrunch_size_stored_loc (p + of_nat (8 * i))) = unat (libcrunch_size_stored_loc p) + 4 * i"
    by (subst (1 2) unat_size_stored_loc) (simp_all only: pk, simp_all)
  moreover from this have "unat (libcrunch_size_stored_loc p) + 4 * i < 2 ^ 64"
    using unat_u64_bound[of "libcrunch_size_stored_loc (p + of_nat (8 * i))"] by simp
  ultimately show ?thesis using k(2) by (simp only: word_unat_eq_iff unat_word_ariths) simp
qed

lemma shadowed_in_user:
  "within_region shadowed_slots p n \<Longrightarrow> 0 < n \<Longrightarrow> in_regions user_ranges p"
  by (erule shadowed_cases) (auto simp: user_ranges_def word_le_nat_alt word_less_nat_alt)

lemma base_block_within:
  assumes "within_region shadowed_slots p n" "0 < n"
  shows "within_region base_regions (libcrunch_base_stored_loc p) n"
proof -
  have u: "in_regions user_ranges p" using shadowed_in_user assms .
  have e: ?thesis if "(lo, hi) \<in> set base_regions"
    "unat lo \<le> unat (libcrunch_base_stored_loc p)"
    "unat (libcrunch_base_stored_loc p) + n \<le> unat hi" for lo hi
    using that by (auto simp: within_region_def)
  from u show ?thesis
  proof (cases rule: user_range_cases)
    case r00
    with assms show ?thesis
      by (intro e[of "0x700000000000" "0x755555556000"])
         (auto simp: base_regions_def elim!: shadowed_cases)
  next
    case r2a
    with assms show ?thesis
      by (intro e[of "0x5aaaaaaab000" "0x600000000000"])
         (auto simp: base_regions_def elim!: shadowed_cases)
  next
    case r55
    with assms show ?thesis
      by (intro e[of "0x255555556000" "0x265555556000"])
         (auto simp: base_regions_def elim!: shadowed_cases)
  next
    case r7a
    with assms show ?thesis
      by (intro e[of "0x0aaaaaaab000" "0x100000000000"])
         (auto simp: base_regions_def elim!: shadowed_cases)
  qed
qed

lemma size_block_within:
  assumes "within_region shadowed_slots p n" "0 < n"
  shows "within_region size_regions (libcrunch_size_stored_loc p) (n div 2)"
proof -
  have b: "unat p + n \<le> 2 ^ 47" using shadowed_bound[OF assms(1)] .
  then have l: "unat (libcrunch_size_stored_loc p) = 0x080000000000 + unat p div 2"
    by (intro unat_size_stored_loc) simp
  have h: "unat p div 2 + n div 2 \<le> (unat p + n) div 2" by simp
  have hi: "unat p + n \<le> 2 * k \<Longrightarrow> unat p div 2 + n div 2 \<le> k" for k
    using h by (metis div_le_mono le_trans nonzero_mult_div_cancel_left zero_neq_numeral)
  from assms(1) show ?thesis
  proof (cases rule: shadowed_cases)
    case 1
    then show ?thesis using hi[of "0x02aaaaaaaaa8"] by (simp add: within_region_def size_regions_def l)
  next
    case 2
    then show ?thesis using hi[of "0x180000000000"]
      by (simp add: within_region_def size_regions_def l) linarith
  next
    case 3
    then show ?thesis using hi[of "0x2b2aaaaab000"]
      by (simp add: within_region_def size_regions_def l) linarith
  next
    case 4
    then show ?thesis using hi[of "0x400000000000"]
      by (simp add: within_region_def size_regions_def l) linarith
  qed
qed

lemma within_region_sub:
  assumes "within_region rs a n" "i + k \<le> n" "n < 2 ^ 64" "0 < k"
  shows "within_region rs (a + of_nat i) k"
proof -
  obtain lo hi where r: "(lo, hi) \<in> set rs" "unat lo \<le> unat a" "unat a + n \<le> unat hi"
    using assms(1) by (auto simp: within_region_def)
  have "unat (of_nat i :: u64) = i" using assms by (simp add: unat_of_nat_u64)
  moreover have "unat a + i < 2 ^ 64" using r(3) assms unat_u64_bound[of hi] by linarith
  ultimately have "unat (a + of_nat i) = unat a + i" by (simp add: unat_word_ariths)
  with r assms(2) have "unat lo \<le> unat (a + of_nat i)" "unat (a + of_nat i) + k \<le> unat hi"
    by simp_all
  with r(1) show ?thesis unfolding within_region_def by blast
qed

lemma within_in_regions:
  assumes "within_region rs a n" "j < n"
  shows "in_regions rs (a + of_nat j)"
proof -
  obtain lo hi where r: "(lo, hi) \<in> set rs" "unat lo \<le> unat a" "unat a + n \<le> unat hi"
    using assms(1) by (auto simp: within_region_def)
  have hi: "unat a + j < 2 ^ 64" using r(3) assms(2) unat_u64_bound[of hi] by linarith
  then have "unat (of_nat j :: u64) = j" by (intro unat_of_nat_u64) simp
  with hi have "unat (a + of_nat j) = unat a + j" by (simp add: unat_word_ariths)
  with r assms(2) show ?thesis by (intro in_regionsI[OF r(1)]) simp_all
qed

lemma load_bytes_agree:
  assumes "within_region rs b n" "\<And>a. in_regions rs a \<Longrightarrow> m' a = m a"
  shows "load_bytes m' b n = load_bytes m b n"
  by (rule load_bytes_cong) (rule assms(2)[OF within_in_regions[OF assms(1)]])

text \<open>The two moves of the hook, before liballocs' own hook runs.\<close>

lemma copy_bases:
  assumes "within_region shadowed_slots d (unat n)" "within_region shadowed_slots s (unat n)"
    and "8 * i + 8 \<le> unat n"
    and "ranges_disjoint (libcrunch_base_stored_loc d + of_nat (8 * i)) 8 e (unat k)"
  shows "load64 (memmove (memmove m (libcrunch_base_stored_loc d) (libcrunch_base_stored_loc s) n)
             e f k) (libcrunch_base_stored_loc (d + of_nat (8 * i)))
         = load64 m (libcrunch_base_stored_loc (s + of_nat (8 * i)))"
proof -
  have i: "8 * i < unat n" using assms(3) by simp
  show ?thesis
    unfolding load64_def base_loc_shift[OF assms(1) i] base_loc_shift[OF assms(2) i]
      load_bytes_memmove_outside[OF assms(4)] load_bytes_memmove[OF assms(3)] ..
qed

lemma copy_sizes:
  assumes "within_region shadowed_slots d (unat n)" "within_region shadowed_slots s (unat n)"
    and "unat d mod 8 = 0" "unat s mod 8 = 0" "8 * i + 8 \<le> unat n" "unat k = unat n div 2"
    and "ranges_disjoint (libcrunch_size_stored_loc s + of_nat (4 * i)) 4 e (unat j)"
  shows "load32 (memmove (memmove m e f j)
            (libcrunch_size_stored_loc d) (libcrunch_size_stored_loc s) k)
            (libcrunch_size_stored_loc (d + of_nat (8 * i)))
         = load32 m (libcrunch_size_stored_loc (s + of_nat (8 * i)))"
proof -
  have i: "8 * i < unat n" and ik: "4 * i + 4 \<le> unat k" using assms(5,6) by simp_all
  show ?thesis
    unfolding load32_def size_loc_shift[OF assms(1,3) i] size_loc_shift[OF assms(2,4) i]
      load_bytes_memmove[OF ik] load_bytes_memmove_outside[OF assms(7)] ..
qed

lemma size_move_length:
  assumes "unat (n :: u64) \<le> 2 ^ 47"
  shows "unat (n * 4 div 8) = unat n div 2"
proof -
  have "unat (n * 4) = unat n * 4" using assms by (simp add: unat_word_ariths)
  then show ?thesis by (simp add: unat_div)
qed

text \<open>
  (C19) The copy hook keeps the bounds of copied pointers.  In a configuration with a shadow space that
  has been set up, when an aligned block of \<open>n\<close> bytes is copied (the blocks may overlap) inside user
  ranges with a mapped shadow, the bounds fetched afterwards for the \<open>i\<close>-th pointer of the destination, if
  it is not null, are those the \<open>i\<close>-th pointer of the source had (neither slot being at address 0);
  liballocs' own hook is assumed not to write to libcrunch's shadow regions.
\<close>

theorem notify_copy_moves_bounds:
  assumes "has_shadow_space c" "v \<noteq> 0" "bases_region_00 \<noteq> 0"
    and "within_region shadowed_slots dest (unat n)" "within_region shadowed_slots src (unat n)"
    and "dest AND 7 = 0" "src AND 7 = 0" "8 * i + 8 \<le> unat n"
    and "dest + of_nat (8 * i) \<noteq> 0" "src + of_nat (8 * i) \<noteq> 0"
    and "\<forall>m a. in_regions (base_regions @ size_regions) a \<longrightarrow> real dest src n m a = m a"
  shows "fetch_bounds_from_shadow_space c
           (wrap_notify_copy real bases_region_00 m dest src n) v (dest + of_nat (8 * i))
         = fetch_bounds_from_shadow_space c m v (src + of_nat (8 * i))"
proof -
  let ?B = libcrunch_base_stored_loc and ?S = libcrunch_size_stored_loc
  define k where "k = n * 4 div 8"
  have n: "0 < unat n" "unat n \<le> 2 ^ 47"
    using assms(8) shadowed_bound[OF assms(4)] by simp_all
  have k: "unat k = unat n div 2" unfolding k_def using n(2) by (rule size_move_length)
  have al: "unat dest mod 8 = 0" "unat src mod 8 = 0" using assms(6,7) by (simp_all add: aligned_mod)
  note bd = base_block_within[OF assms(4) n(1)] and sd = size_block_within[OF assms(4) n(1)]
    and ss = size_block_within[OF assms(5) n(1)]
  have wb: "within_region base_regions (?B dest + of_nat (8 * i)) 8"
    using n(2) assms(8) by (intro within_region_sub[OF bd]) simp_all
  have ws: "within_region size_regions (?S dest + of_nat (4 * i)) 4"
    using n(2) assms(8) by (intro within_region_sub[OF sd]) simp_all
  have ws': "within_region size_regions (?S src + of_nat (4 * i)) 4"
    using n(2) assms(8) by (intro within_region_sub[OF ss]) simp_all
  define m2 where "m2 = memmove (memmove m (?B dest) (?B src) n) (?S dest) (?S src) k"
  have i: "8 * i < unat n" using assms(8) by simp
  have r: "real dest src n m2 a = m2 a" if "in_regions base_regions a \<or> in_regions size_regions a" for a
    using assms(11) that by (auto simp: in_regions_def)
  have "load64 (real dest src n m2) (?B (dest + of_nat (8 * i))) = load64 m2 (?B (dest + of_nat (8 * i)))"
    unfolding load64_def base_loc_shift[OF assms(4) i]
    by (simp only: load_bytes_agree[OF wb r[OF disjI1]])
  moreover have "load32 (real dest src n m2) (?S (dest + of_nat (8 * i))) = load32 m2 (?S (dest + of_nat (8 * i)))"
    unfolding load32_def size_loc_shift[OF assms(4) al(1) i]
    by (simp only: load_bytes_agree[OF ws r[OF disjI2]])
  moreover have "load64 m2 (?B (dest + of_nat (8 * i))) = load64 m (?B (src + of_nat (8 * i)))"
    unfolding m2_def using sd k
    by (intro copy_bases[OF assms(4,5,8)] within_disjoint_regions[OF shadow_regions_disjoint(1) wb]) simp
  moreover have "load32 m2 (?S (dest + of_nat (8 * i))) = load32 m (?S (src + of_nat (8 * i)))"
    unfolding m2_def using within_disjoint_regions[OF shadow_regions_disjoint(1) bd ws']
    by (intro copy_sizes[OF assms(4,5) al assms(8) k]) (rule ranges_disjoint_sym)
  moreover have "wrap_notify_copy real bases_region_00 m dest src n = real dest src n m2"
    using assms(3) by (simp add: wrap_notify_copy_def m2_def k_def Let_def)
  ultimately show ?thesis
    using assms(1,2,9,10) by (simp add: fetch_unfold)
qed

theorem notify_copy_moves_bounds_witness:
  "fetch_bounds_from_shadow_space config_m
     (wrap_notify_copy (\<lambda>_ _ _ m. m) 0x700000000000 (\<lambda>_. 7) 0x1008 0x1000 32) 1 (0x1008 + of_nat (8 * 2))
   = fetch_bounds_from_shadow_space config_m (\<lambda>_. 7) 1 (0x1000 + of_nat (8 * 2))"
  using notify_copy_moves_bounds[of config_m 1 "0x700000000000" "0x1008" 32 "0x1000" 2
      "\<lambda>_ _ _ m. m" "\<lambda>_. 7"]
  by (simp add: config_defs has_shadow_space_def within_region_def shadowed_slots_def)

end
