(* ===== verification/Fetch_Bounds.thy ===== *)
theory Fetch_Bounds
  imports Library_Init Shadow_Space
begin

text \<open>
  Finding the bounds of a pointer when the shadow space has none: the cache lookup of
  \<^verbatim>\<open>include/libcrunch_cil_inlines.h\<close>, the out-of-line slow path of \<^verbatim>\<open>src/libcrunch.c\<close> that asks
  liballocs which object contains the pointer, and its variant that asks the dynamic linker.
  The walk over subobjects is the fold of \<^verbatim>\<open>bounds_cb\<close> over the calls liballocs makes.  The lemmas
  show that the slow path always delivers valid bounds, that the bounds contain the pointer, and
  where they come from.
\<close>

definition size_of_type :: "'w liballocs \<Rightarrow> uniqtype \<Rightarrow> u64" where
  "size_of_type la t = ucast (pos_maxoff la t)"

definition fetch_bounds_from_cache ::
  "config \<Rightarrow> 'w liballocs \<Rightarrow> addr \<Rightarrow> addr \<Rightarrow> u64 \<Rightarrow> 'w crunch \<Rightarrow> bounds \<times> 'w crunch" where
  "fetch_bounds_from_cache c la ptr derived_ptr_maybetrapped t_sz st =
     (let testptr = (if libcrunch_ptr_trap_bits c ptr = 1
                     then libcrunch_untrap c ptr TRAP_ONE_PAST - t_sz else ptr);
          derived = libcrunch_detrap c derived_ptr_maybetrapped
      in case cache_lookup_notype la OolCache (world st) testptr t_sz of
           Some (_, hit) \<Rightarrow> (make_bounds c (ce_base hit) (ce_limit hit), st)
         | None \<Rightarrow>
           (case cache_lookup_notype la FakeBoundsCache (world st) testptr t_sz of
              Some (i, hit) \<Rightarrow>
                (let limit_from_derived = derived +
                       (if ce_uniqtype hit \<noteq> 0 then size_of_type la (ce_uniqtype hit) else 1);
                     st' = (if limit_from_derived > ce_limit hit
                            then st\<lparr> world := cache_set_limit la FakeBoundsCache (world st) i
                                               limit_from_derived \<rparr>
                            else st)
                 in (libcrunch_max_bounds c derived, st'))
            | None \<Rightarrow> (libcrunch_make_invalid_bounds c ptr, st)))"

text \<open>The macros shared by the slow paths of all checks.\<close>

definition do_query ::
  "'w liballocs \<Rightarrow> addr \<Rightarrow> 'w crunch \<Rightarrow> (alloc_info option \<times> 'w crunch) outcome" where
  "do_query la obj st =
     omap (\<lambda>st. (case get_alloc_info la (world st) obj of (w, r) \<Rightarrow> (r, st\<lparr> world := w \<rparr>)))
       (check_init la st)"

definition do_array_precisify ::
  "'w liballocs \<Rightarrow> alloc_info \<Rightarrow> 'w crunch \<Rightarrow> (alloc_info \<times> 'w crunch) outcome" where
  "do_array_precisify la info st =
     (let t = ai_uniqtype info; a = ai_allocator info
      in if t \<noteq> 0 \<and> make_precise la t \<noteq> 0 then
           (if make_precise la t = array_precise_fn la \<and> pos_maxoff la t = 0 then Inl DivByZero
            else (let (w, t') =
                    (if make_precise la t = array_precise_fn la
                        \<and> 1 = ai_size info div size_of_type la t
                     then (world st, array_element_type la t)
                     else run_make_precise la (world st) t (ai_start info) (ai_size info));
                      w' = (if a \<noteq> 0 \<and> has_set_type la a then set_type la a w (ai_start info) t'
                            else w)
                  in Inr (info\<lparr> ai_uniqtype := t' \<rparr>, st\<lparr> world := w' \<rparr>)))
         else Inr (info, st))"

definition target_offset :: "addr \<Rightarrow> alloc_info \<Rightarrow> u32" where
  "target_offset obj info = ucast (obj - ai_start info)"

definition cache_bounds ::
  "'w liballocs \<Rightarrow> addr \<Rightarrow> addr \<Rightarrow> uniqtype \<Rightarrow> u16 \<Rightarrow> addr \<Rightarrow> 'w crunch \<Rightarrow> 'w crunch" where
  "cache_bounds la obj_base obj_limit t period alloc_base st =
     st\<lparr> world := cache_with_type la OolCache (world st)
       \<lparr> cf_base = obj_base, cf_limit = obj_limit, cf_uniqtype = t,
         cf_depth = (if obj_base = alloc_base then 0 else 1), cf_period = period,
         cf_alloc_base = alloc_base \<rparr> \<rparr>"

definition cache_is_a ::
  "'w liballocs \<Rightarrow> addr \<Rightarrow> addr \<Rightarrow> uniqtype \<Rightarrow> int \<Rightarrow> u16 \<Rightarrow> addr \<Rightarrow> 'w crunch \<Rightarrow> 'w crunch" where
  "cache_is_a la obj_base obj_limit t depth period alloc_base st =
     st\<lparr> world := cache_with_type la OolCache (world st)
       \<lparr> cf_base = obj_base, cf_limit = obj_limit, cf_uniqtype = t, cf_depth = depth,
         cf_period = period, cf_alloc_base = alloc_base \<rparr> \<rparr>"

definition cache_fake_bounds ::
  "'w liballocs \<Rightarrow> addr \<Rightarrow> addr \<Rightarrow> uniqtype \<Rightarrow> int \<Rightarrow> u16 \<Rightarrow> addr \<Rightarrow> 'w crunch \<Rightarrow> 'w crunch" where
  "cache_fake_bounds la obj_base obj_limit t depth period alloc_base st =
     st\<lparr> world := cache_with_type la FakeBoundsCache (world st)
       \<lparr> cf_base = obj_base, cf_limit = obj_limit, cf_uniqtype = t, cf_depth = depth,
         cf_period = period, cf_alloc_base = alloc_base \<rparr> \<rparr>"

text \<open>The callback of the subobject walk and its argument (\<^verbatim>\<open>struct bounds_cb_arg\<close>).\<close>

record bounds_cb_arg =
  passed_in_t :: uniqtype
  cb_target_offset :: u32
  cb_success :: bool
  matched_t :: uniqtype
  innermost_array_t :: uniqtype
  innermost_array_off :: u32
  outermost_array_t :: uniqtype
  outermost_array_off :: u32
  accum_array_bounds :: u64

definition bounds_cb_descend :: "'w liballocs \<Rightarrow> visit \<Rightarrow> bounds_cb_arg \<Rightarrow> bounds_cb_arg" where
  "bounds_cb_descend la v arg =
     (if is_array_type la (v_containing v) then
        (let arg1 = arg\<lparr> innermost_array_off := v_containing_start v,
                         innermost_array_t := v_containing v \<rparr>
         in if outermost_array_t arg1 = 0
            then arg1\<lparr> outermost_array_off := v_containing_start v,
                       outermost_array_t := v_containing v,
                       accum_array_bounds := ucast (array_length la (v_containing v)) \<rparr>
            else arg1\<lparr> accum_array_bounds := accum_array_bounds arg1
                         * ucast (array_length la (v_containing v)) \<rparr>)
      else arg\<lparr> outermost_array_off := 0, outermost_array_t := 0, innermost_array_off := 0,
               innermost_array_t := 0, accum_array_bounds := 0 \<rparr>)"

definition bounds_cb :: "'w liballocs \<Rightarrow> visit \<Rightarrow> bounds_cb_arg \<Rightarrow> bool \<times> bounds_cb_arg" where
  "bounds_cb la v arg0 =
     (let arg = bounds_cb_descend la v arg0
      in if v_start v < cb_target_offset arg then (False, arg)
         else if v_start v > cb_target_offset arg then (True, arg)
         else if pos_maxoff la (v_spans v) < pos_maxoff la (passed_in_t arg)
         then (True, arg\<lparr> cb_success := True \<rparr>)
         else if pos_maxoff la (v_spans v) > pos_maxoff la (passed_in_t arg) then (False, arg)
         else (True, arg\<lparr> cb_success := True, matched_t := v_spans v \<rparr>))"

fun bounds_walk :: "'w liballocs \<Rightarrow> visit list \<Rightarrow> bounds_cb_arg \<Rightarrow> bounds_cb_arg" where
  "bounds_walk la [] arg = arg"
| "bounds_walk la (v # vs) arg =
     (case bounds_cb la v arg of (stop, arg') \<Rightarrow> if stop then arg' else bounds_walk la vs arg')"

definition initial_cb_arg :: "uniqtype \<Rightarrow> u32 \<Rightarrow> bounds_cb_arg" where
  "initial_cb_arg t off = \<lparr> passed_in_t = t, cb_target_offset = off, cb_success = False,
     matched_t = 0, innermost_array_t = 0, innermost_array_off = 0, outermost_array_t = 0,
     outermost_array_off = 0, accum_array_bounds = 0 \<rparr>"

text \<open>The exits of \<^verbatim>\<open>__fetch_bounds_internal\<close>, one per label.\<close>

definition return_min_bounds ::
  "config \<Rightarrow> 'w liballocs \<Rightarrow> addr \<Rightarrow> alloc_info \<Rightarrow> 'w crunch \<Rightarrow> bounds \<times> 'w crunch" where
  "return_min_bounds c la obj info st =
     (make_bounds c obj (obj + 1),
      if ai_allocator info \<noteq> 0 \<and> is_cacheable la (ai_allocator info)
      then cache_bounds la obj (obj + 1) 0 1 (ai_start info) st else st)"

definition abort_returning_max_bounds ::
  "config \<Rightarrow> 'w liballocs \<Rightarrow> addr \<Rightarrow> addr \<Rightarrow> uniqtype \<Rightarrow> 'w crunch \<Rightarrow> bounds \<times> 'w crunch" where
  "abort_returning_max_bounds c la obj derived t st =
     (libcrunch_max_bounds c obj,
      cache_fake_bounds la (if obj < derived then obj else derived)
        ((if obj < derived then derived else obj) + (if t \<noteq> 0 then size_of_type la t else 0))
        t 1 (if t \<noteq> 0 then ucast (pos_maxoff la t) else 1) 0 st)"

definition return_alloc_bounds ::
  "config \<Rightarrow> 'w liballocs \<Rightarrow> addr \<Rightarrow> addr \<Rightarrow> uniqtype \<Rightarrow> alloc_info \<Rightarrow> 'w crunch \<Rightarrow> bounds \<times> 'w crunch" where
  "return_alloc_bounds c la obj derived t info st =
     (let base = ai_start info; limit = ai_start info + ai_size info; size = limit - base
      in if obj - base > size then abort_returning_max_bounds c la obj derived t st
         else (make_bounds c base limit,
               if ai_allocator info \<noteq> 0 \<and> is_cacheable la (ai_allocator info)
               then cache_bounds la base limit (ai_uniqtype info)
                      (if ai_uniqtype info \<noteq> 0 then ucast (pos_maxoff la (ai_uniqtype info)) else 1)
                      (ai_start info) st
               else st))"

definition return_array_bounds ::
  "config \<Rightarrow> 'w liballocs \<Rightarrow> uniqtype \<Rightarrow> alloc_info \<Rightarrow> bounds_cb_arg \<Rightarrow> 'w crunch \<Rightarrow> bounds \<times> 'w crunch" where
  "return_array_bounds c la t info arg st =
     (let lower = ai_start info + ucast (innermost_array_off arg);
          upper = (if \<not> has_known_length la (innermost_array_t arg)
                   then ai_start info + ai_size info
                   else ai_start info + ucast (innermost_array_off arg)
                        + ucast (array_length la (innermost_array_t arg) * pos_maxoff la t));
          period = pos_maxoff la (array_element_type la (innermost_array_t arg))
      in (make_bounds c lower upper,
          if ai_allocator info \<noteq> 0 \<and> is_cacheable la (ai_allocator info)
          then cache_bounds la lower upper t (ucast period) (ai_start info) st else st))"

definition return_object_bounds ::
  "config \<Rightarrow> 'w liballocs \<Rightarrow> addr \<Rightarrow> uniqtype \<Rightarrow> alloc_info \<Rightarrow> 'w crunch \<Rightarrow> (bounds \<times> 'w crunch) outcome" where
  "return_object_bounds c la obj t info st =
     (let limit = obj + (if pos_maxoff la t > 0 then size_of_type la t else 1)
      in if ai_allocator info \<noteq> 0 \<and> is_cacheable la (ai_allocator info)
         then (if ai_uniqtype info = 0 then Inl NullDeref
               else Inr (make_bounds c obj limit,
                 cache_bounds la obj limit t (ucast (pos_maxoff la (ai_uniqtype info)))
                   (ai_start info) st))
         else Inr (make_bounds c obj limit, st))"

text \<open>The slow path once an allocation is known: an untyped one is taken to hold characters.\<close>

definition typed_info :: "'w liballocs \<Rightarrow> alloc_info \<Rightarrow> alloc_info" where
  "typed_info la info = (if ai_start info \<noteq> 0 \<and> ai_size info \<noteq> 0 \<and> ai_uniqtype info = 0
     then info\<lparr> ai_uniqtype := uniqtype_signed_char la \<rparr> else info)"

definition walk_alloc :: "'w liballocs \<Rightarrow> addr \<Rightarrow> uniqtype \<Rightarrow> alloc_info \<Rightarrow> bounds_cb_arg" where
  "walk_alloc la obj t info =
     bounds_walk la (walk_subobjects_spanning la (target_offset obj info) (ai_uniqtype info))
       (initial_cb_arg t (target_offset obj info))"

definition fetch_bounds_in_alloc ::
  "config \<Rightarrow> 'w liballocs \<Rightarrow> addr \<Rightarrow> addr \<Rightarrow> uniqtype \<Rightarrow> alloc_info \<Rightarrow> 'w crunch \<Rightarrow>
     (bounds \<times> 'w crunch) outcome" where
  "fetch_bounds_in_alloc c la obj derived t info st =
     (if t = uniqtype_signed_char la \<or> t = uniqtype_unsigned_char la
      then Inr (return_alloc_bounds c la obj derived t info st)
      else if t = 0 then Inl NullDeref
      else if pos_maxoff la t = pos_maxoff_unbounded la
      then Inr (return_min_bounds c la obj info st)
      else (let arg = walk_alloc la obj t info
            in if cb_success arg then
                 (if innermost_array_t arg \<noteq> 0
                  then Inr (return_array_bounds c la t info arg st)
                  else return_object_bounds c la obj t info st)
               else Inr (return_min_bounds c la obj info st)))"

text \<open>
  The slow path.  With a null pointer the code jumps over the initialisation of the variable \<^verbatim>\<open>a\<close>
  that the exit it jumps to reads.  An error of the query leaves through \<^verbatim>\<open>out\<close>, so the two tests
  of \<^verbatim>\<open>err\<close> that follow it never succeed.
\<close>

definition fetch_bounds_internal ::
  "config \<Rightarrow> 'w liballocs \<Rightarrow> addr \<Rightarrow> addr \<Rightarrow> uniqtype \<Rightarrow> 'w crunch \<Rightarrow> (bounds \<times> 'w crunch) outcome" where
  "fetch_bounds_internal c la obj derived t st =
     (if obj = 0 then Inl UninitRead
      else obind (do_query la obj st) (\<lambda>(r, st).
        case r of None \<Rightarrow> Inr (abort_returning_max_bounds c la obj derived t st)
        | Some info \<Rightarrow>
          obind (do_array_precisify la info st) (\<lambda>(info', st).
            fetch_bounds_in_alloc c la obj derived t (typed_info la info') st)))"

definition fetch_bounds_ool ::
  "config \<Rightarrow> 'w liballocs \<Rightarrow> addr \<Rightarrow> addr \<Rightarrow> uniqtype \<Rightarrow> 'w crunch \<Rightarrow> (bounds \<times> 'w crunch) outcome" where
  "fetch_bounds_ool c la ptr derived_ptr t st0 =
     (let st = st0\<lparr> cnt_fetch_bounds_called := cnt_fetch_bounds_called st0 + 1 \<rparr>
      in if t = 0 then Inl NullDeref
         else (let ptr' = (if libcrunch_ptr_trap_bits c ptr = 1
                     then libcrunch_detrap c (ptr - size_of_type la t) else ptr);
                   derived' = (if libcrunch_ptr_trap_bits c derived_ptr = 1
                     then libcrunch_detrap c (derived_ptr - size_of_type la t) else derived_ptr);
                   (from_cache, st1) =
                     fetch_bounds_from_cache c la ptr' derived' (size_of_type la t) st
               in if \<not> libcrunch_bounds_invalid c from_cache ptr' then Inr (from_cache, st1)
                  else fetch_bounds_internal c la ptr' derived' t
                         (st1\<lparr> cnt_fetch_bounds_missed_cache :=
                                 cnt_fetch_bounds_missed_cache st1 + 1 \<rparr>)))"

definition fetch_bounds_ool_via_dladdr ::
  "config \<Rightarrow> 'w liballocs \<Rightarrow> addr \<Rightarrow> addr \<Rightarrow> uniqtype \<Rightarrow> 'w crunch \<Rightarrow> (bounds \<times> 'w crunch) outcome" where
  "fetch_bounds_ool_via_dladdr c la ptr derived_ptr t st =
     (if ptr = 0 then Inr (make_bounds c 0 1, st)
      else case dladdr_symbol la ptr of
             Some (base, st_size) \<Rightarrow> Inr (make_bounds c base (base + st_size), st)
           | None \<Rightarrow> Inr (libcrunch_make_invalid_bounds c ptr, st))"

definition ensure_bounds_in_cache ::
  "config \<Rightarrow> 'w liballocs \<Rightarrow> addr \<Rightarrow> bounds \<Rightarrow> uniqtype \<Rightarrow> 'w crunch \<Rightarrow> 'w crunch outcome" where
  "ensure_bounds_in_cache c la ptrval ptr_bounds t st =
     (if libcrunch_bounds_invalid c ptr_bounds ptrval then Inr st
      else if libcrunch_get_limit c ptr_bounds ptrval = -1 then Inr st
      else if t = 0 then Inl NullDeref
      else (case fetch_bounds_from_cache c la ptrval ptrval (size_of_type la t) st of
              (from_cache, st1) \<Rightarrow>
                if libcrunch_bounds_invalid c from_cache ptrval
                then Inr (cache_bounds la (libcrunch_get_base c ptr_bounds ptrval)
                       (libcrunch_get_limit c ptr_bounds ptrval) t 1 0 st1)
                else Inr st1))"


subsection \<open>What the slow path relies on\<close>

text \<open>
  Documented behaviour of liballocs: a cache hit is a range that contains the pointer; the
  allocation reported for a pointer contains it, starts at a non-null address and is smaller than
  4 GiB (the code keeps offsets in 32 bits); a type whose lengths are made precise from memory
  bounds has a non-zero element size; and each subobject of a walk lies inside the array that is
  reported as containing it.
\<close>

definition cache_sound :: "'w liballocs \<Rightarrow> bool" where
  "cache_sound la \<longleftrightarrow> (\<forall>cid w p n i e. cache_lookup_notype la cid w p n = Some (i, e) \<longrightarrow>
     p - ce_base e < ce_limit e - ce_base e)"

definition alloc_sound :: "'w liballocs \<Rightarrow> bool" where
  "alloc_sound la \<longleftrightarrow> (\<forall>w p w' i. get_alloc_info la w p = (w', Some i) \<longrightarrow>
     p - ai_start i < ai_size i \<and> ai_start i \<noteq> 0 \<and> unat (ai_size i) < 2 ^ 32)"

definition types_sound :: "'w liballocs \<Rightarrow> bool" where
  "types_sound la \<longleftrightarrow> uniqtype_signed_char la \<noteq> 0
     \<and> (\<forall>t. make_precise la t = array_precise_fn la \<longrightarrow> pos_maxoff la t \<noteq> 0)"

definition visit_sound :: "'w liballocs \<Rightarrow> uniqtype \<Rightarrow> visit \<Rightarrow> bool" where
  "visit_sound la t v \<longleftrightarrow> v_containing_start v \<le> v_start v
     \<and> (is_array_type la (v_containing v) \<longrightarrow> v_containing v \<noteq> 0
        \<and> (has_known_length la (v_containing v) \<longrightarrow>
             unat (v_start v - v_containing_start v)
               < unat (array_length la (v_containing v)) * unat (pos_maxoff la (v_spans v))
             \<and> unat (array_length la (v_containing v)) * unat (pos_maxoff la t) < 2 ^ 32))"

definition walk_sound :: "'w liballocs \<Rightarrow> uniqtype \<Rightarrow> bool" where
  "walk_sound la t \<longleftrightarrow> (\<forall>off u. \<forall>v \<in> set (walk_subobjects_spanning la off u). visit_sound la t v)"

definition liballocs_sound :: "'w liballocs \<Rightarrow> uniqtype \<Rightarrow> bool" where
  "liballocs_sound la t \<longleftrightarrow> cache_sound la \<and> alloc_sound la \<and> types_sound la \<and> walk_sound la t"


subsection \<open>The walk\<close>

lemma bounds_cb_descend_simps [simp]:
  "passed_in_t (bounds_cb_descend la v arg) = passed_in_t arg"
  "cb_target_offset (bounds_cb_descend la v arg) = cb_target_offset arg"
  "cb_success (bounds_cb_descend la v arg) = cb_success arg"
  "innermost_array_t (bounds_cb_descend la v arg) =
     (if is_array_type la (v_containing v) then v_containing v else 0)"
  "innermost_array_off (bounds_cb_descend la v arg) =
     (if is_array_type la (v_containing v) then v_containing_start v else 0)"
  by (simp_all add: bounds_cb_descend_def Let_def)

lemma bounds_cb_passed:
  "bounds_cb la v arg = (stop, arg') \<Longrightarrow>
     passed_in_t arg' = passed_in_t arg \<and> cb_target_offset arg' = cb_target_offset arg"
  unfolding bounds_cb_def Let_def by (auto split: if_split_asm)

lemma bounds_cb_continue:
  assumes "bounds_cb la v arg = (False, arg')" "\<not> cb_success arg"
  shows "\<not> cb_success arg'"
  using assms unfolding bounds_cb_def Let_def by (auto split: if_split_asm)

lemma bounds_cb_success:
  assumes "bounds_cb la v arg = (stop, arg')" "\<not> cb_success arg" "cb_success arg'"
  shows "v_start v = cb_target_offset arg"
    and "pos_maxoff la (v_spans v) \<le> pos_maxoff la (passed_in_t arg)"
    and "innermost_array_t arg' = (if is_array_type la (v_containing v) then v_containing v else 0)"
    and "innermost_array_off arg' =
      (if is_array_type la (v_containing v) then v_containing_start v else 0)"
  using assms unfolding bounds_cb_def Let_def by (auto split: if_split_asm)

lemma bounds_walk_success:
  assumes "cb_success (bounds_walk la vs arg)" "\<not> cb_success arg"
  shows "\<exists>v \<in> set vs. v_start v = cb_target_offset arg
     \<and> pos_maxoff la (v_spans v) \<le> pos_maxoff la (passed_in_t arg)
     \<and> innermost_array_t (bounds_walk la vs arg) =
         (if is_array_type la (v_containing v) then v_containing v else 0)
     \<and> innermost_array_off (bounds_walk la vs arg) =
         (if is_array_type la (v_containing v) then v_containing_start v else 0)"
  using assms
proof (induction vs arbitrary: arg)
  case (Cons v vs)
  obtain stop arg' where cb: "bounds_cb la v arg = (stop, arg')" by force
  show ?case
  proof (cases stop)
    case True
    then have "bounds_walk la (v # vs) arg = arg'" using cb by simp
    then show ?thesis using Cons.prems bounds_cb_success[OF cb Cons.prems(2)] by simp
  next
    case False
    with cb Cons.prems(2) have "\<not> cb_success arg'" by (simp add: bounds_cb_continue)
    moreover have "bounds_walk la (v # vs) arg = bounds_walk la vs arg'" using cb False by simp
    ultimately show ?thesis
      using Cons.IH[of arg'] Cons.prems bounds_cb_passed[OF cb] by simp
  qed
qed simp


subsection \<open>The slow path delivers bounds that admit the pointer\<close>

definition admits :: "bounds \<Rightarrow> addr \<Rightarrow> bool" where
  "admits b p \<longleftrightarrow> austin p (bnd_base b) (bnd_size b)"

definition long_config :: "config \<Rightarrow> bool" where
  "long_config c \<longleftrightarrow> long_size c \<and> \<not> wordsize_bounds c"

lemma long_configD: "long_config c \<Longrightarrow> long_bounds c"
  by (simp add: long_config_def long_bounds_def)

lemmas long_simps = long_bounds.long_bounds_simps[OF long_configD]

lemma admits_valid: "admits b p \<Longrightarrow> \<not> libcrunch_bounds_invalid c b q"
  by (auto simp: admits_def libcrunch_bounds_invalid_def)

lemma admits_make: "long_config c \<Longrightarrow> admits (make_bounds c l u) p \<longleftrightarrow> p - l < u - l"
  by (simp add: admits_def long_simps austin_def)

lemma admits_max: "long_config c \<Longrightarrow> admits (libcrunch_max_bounds c q) p \<longleftrightarrow> p \<noteq> -1"
  by (simp add: admits_def long_simps austin_def word_order.not_eq_extremum)

lemma ucast_u32_u64_iff: "(ucast (x :: u32) :: u64) = ucast y \<longleftrightarrow> x = y"
  using unat_u32_bound[of x] unat_u32_bound[of y]
  by (auto simp: word_unat_eq_iff unsigned_ucast_eq take_bit_nat_eq_self)

lemma unat_ucast_u64: "unat (ucast (x :: u32) :: u64) = unat x"
  using unat_u32_bound[of x] by (simp add: unsigned_ucast_eq take_bit_nat_eq_self)

lemma ucast_target_offset:
  assumes "obj - ai_start info < ai_size info" "unat (ai_size info) < 2 ^ 32"
  shows "ucast (target_offset obj info) = obj - ai_start info"
proof -
  have "unat (obj - ai_start info) < 2 ^ 32"
    using assms by (simp add: word_less_nat_alt)
  then have "obj - ai_start info < 0x100000000" by (simp add: word_less_nat_alt)
  then show ?thesis unfolding target_offset_def by (rule ucast_32_roundtrip)
qed

lemma array_bounds_admit:
  assumes c: "long_config c" and v: "visit_sound la t v" "is_array_type la (v_containing v)"
    and arg: "innermost_array_t arg = v_containing v" "innermost_array_off arg = v_containing_start v"
    and sz: "pos_maxoff la (v_spans v) \<le> pos_maxoff la t"
    and off: "v_start v = target_offset obj info"
    and info: "obj - ai_start info < ai_size info" "unat (ai_size info) < 2 ^ 32"
  shows "admits (fst (return_array_bounds c la t info arg st)) obj"
proof -
  let ?cs = "ucast (v_containing_start v) :: u64" and ?o = "obj - ai_start info"
  have o: "ucast (v_start v) = ?o" using ucast_target_offset[OF info] off by simp
  have le: "v_containing_start v \<le> v_start v" using v by (simp add: visit_sound_def)
  then have le': "?cs \<le> ?o" unfolding o[symmetric] by (simp add: word_le_nat_alt unat_ucast_u64)
  have d: "unat (?o - ?cs) = unat (v_start v - v_containing_start v)"
    using le le' unfolding o[symmetric] by (simp add: unat_sub unat_ucast_u64)
  have p: "obj - (ai_start info + ?cs) = ?o - ?cs" by simp
  show ?thesis
  proof (cases "has_known_length la (v_containing v)")
    case True
    have lt: "unat (v_start v - v_containing_start v)
        < unat (array_length la (v_containing v)) * unat (pos_maxoff la (v_spans v))"
      and fit: "unat (array_length la (v_containing v)) * unat (pos_maxoff la t) < 2 ^ 32"
      using v True by (simp_all add: visit_sound_def)
    have "unat (array_length la (v_containing v)) * unat (pos_maxoff la (v_spans v))
        \<le> unat (array_length la (v_containing v)) * unat (pos_maxoff la t)"
      using sz by (intro mult_le_mono2) (simp add: word_le_nat_alt)
    moreover have "unat (array_length la (v_containing v) * pos_maxoff la t)
        = unat (array_length la (v_containing v)) * unat (pos_maxoff la t)"
      using fit by (simp add: unat_word_ariths)
    ultimately have "unat (?o - ?cs) < unat (ucast (array_length la (v_containing v) * pos_maxoff la t) :: u64)"
      using lt d by (simp only: unat_ucast_u64)
    then show ?thesis
      using True c by (simp add: return_array_bounds_def Let_def admits_make arg p word_less_nat_alt)
  next
    case False
    have "?o - ?cs < ai_size info - ?cs"
    proof -
      have "unat (ai_size info - ?cs) = unat (ai_size info) - unat ?cs"
        using le' info(1) by (intro unat_sub) simp
      moreover have "unat (?o - ?cs) = unat ?o - unat ?cs" using le' by (rule unat_sub)
      ultimately show ?thesis using le' info(1) by (simp add: word_less_nat_alt word_le_nat_alt)
    qed
    moreover have "ai_start info + ai_size info - (ai_start info + ?cs) = ai_size info - ?cs" by simp
    ultimately show ?thesis
      using False c by (simp add: return_array_bounds_def Let_def admits_make arg p)
  qed
qed

lemma check_init_done: "is_initialized st \<Longrightarrow> check_init la st = Inr st"
  by (simp add: check_init_def libcrunch_check_init_def config_defs)

lemma precisify_total:
  assumes "types_sound la"
  shows "\<exists>t' w'. do_array_precisify la info st = Inr (info\<lparr> ai_uniqtype := t' \<rparr>, st\<lparr> world := w' \<rparr>)"
proof (cases "ai_uniqtype info \<noteq> 0 \<and> make_precise la (ai_uniqtype info) \<noteq> 0")
  case True
  have nz: "\<not> (make_precise la (ai_uniqtype info) = array_precise_fn la
      \<and> pos_maxoff la (ai_uniqtype info) = 0)"
    using assms by (auto simp: types_sound_def)
  obtain w t' where wt: "(if make_precise la (ai_uniqtype info) = array_precise_fn la
        \<and> 1 = ai_size info div size_of_type la (ai_uniqtype info)
      then (world st, array_element_type la (ai_uniqtype info))
      else run_make_precise la (world st) (ai_uniqtype info) (ai_start info) (ai_size info)) = (w, t')"
    by (rule prod.exhaust)
  show ?thesis
    unfolding do_array_precisify_def Let_def wt if_P[OF True] if_not_P[OF nz] by auto
next
  case False
  have "do_array_precisify la info st
      = Inr (info\<lparr> ai_uniqtype := ai_uniqtype info \<rparr>, st\<lparr> world := world st \<rparr>)"
    unfolding do_array_precisify_def Let_def if_not_P[OF False] by simp
  then show ?thesis by blast
qed

lemma walk_alloc_success:
  assumes "cb_success (walk_alloc la obj t info)" "walk_sound la t"
  obtains v where "visit_sound la t v" "v_start v = target_offset obj info"
    "pos_maxoff la (v_spans v) \<le> pos_maxoff la t"
    "innermost_array_t (walk_alloc la obj t info) =
        (if is_array_type la (v_containing v) then v_containing v else 0)"
    "innermost_array_off (walk_alloc la obj t info) =
        (if is_array_type la (v_containing v) then v_containing_start v else 0)"
  using bounds_walk_success[OF assms(1)[unfolded walk_alloc_def]] assms(2)
  by (auto simp: initial_cb_arg_def walk_alloc_def walk_sound_def)

lemma pair_admits: "admits (fst r) p \<Longrightarrow> \<exists>b. (\<exists>st'. r = (b, st')) \<and> admits b p"
  by (cases r) simp

lemma in_alloc_admits:
  assumes "long_config c" "walk_sound la t" "t \<noteq> 0"
    and i: "obj - ai_start info < ai_size info" "unat (ai_size info) < 2 ^ 32" "ai_uniqtype info \<noteq> 0"
  shows "\<exists>b st'. fetch_bounds_in_alloc c la obj derived t info st = Inr (b, st') \<and> admits b obj"
proof -
  have min: "admits (fst (return_min_bounds c la obj info st)) obj"
    using assms(1) by (simp add: return_min_bounds_def admits_make)
  have alloc: "admits (fst (return_alloc_bounds c la obj derived t info st)) obj"
    using assms(1) i(1) order.asym[OF i(1)]
    by (auto simp: return_alloc_bounds_def Let_def admits_make)
  have "\<exists>b st'. return_object_bounds c la obj t info st = Inr (b, st') \<and> admits b obj"
    using assms(1) i(3)
    by (simp add: return_object_bounds_def Let_def admits_make size_of_type_def word_less_nat_alt
        unat_ucast_u64)
  moreover have "admits (fst (return_array_bounds c la t info (walk_alloc la obj t info) st)) obj"
    if s: "cb_success (walk_alloc la obj t info)" "innermost_array_t (walk_alloc la obj t info) \<noteq> 0"
  proof -
    obtain v where v: "visit_sound la t v" "v_start v = target_offset obj info"
      "pos_maxoff la (v_spans v) \<le> pos_maxoff la t"
      "innermost_array_t (walk_alloc la obj t info) =
        (if is_array_type la (v_containing v) then v_containing v else 0)"
      "innermost_array_off (walk_alloc la obj t info) =
        (if is_array_type la (v_containing v) then v_containing_start v else 0)"
      using walk_alloc_success[OF s(1) assms(2)] .
    moreover from this s(2) have "is_array_type la (v_containing v)" by (simp split: if_splits)
    ultimately show ?thesis
      using array_bounds_admit[OF assms(1) v(1) _ _ _ v(3,2) i(1,2)] by simp
  qed
  ultimately show ?thesis
    using min alloc assms(3) unfolding fetch_bounds_in_alloc_def Let_def
    by (auto intro!: pair_admits)
qed

lemma internal_admits:
  assumes "long_config c" "liballocs_sound la t" "is_initialized st"
    and "obj \<noteq> 0" "obj \<noteq> -1" "t \<noteq> 0"
  shows "\<exists>b st'. fetch_bounds_internal c la obj derived t st = Inr (b, st')
    \<and> admits b obj \<and> \<not> libcrunch_bounds_invalid c b obj"
proof -
  have snd: "alloc_sound la" "types_sound la" "walk_sound la t"
    using assms(2) by (simp_all add: liballocs_sound_def)
  obtain w r where q: "get_alloc_info la (world st) obj = (w, r)" by force
  then have dq: "do_query la obj st = Inr (r, st\<lparr> world := w \<rparr>)"
    using assms(3) by (simp add: do_query_def check_init_done)
  have "\<exists>b st'. fetch_bounds_internal c la obj derived t st = Inr (b, st') \<and> admits b obj"
  proof (cases r)
    case None
    then show ?thesis
      using assms(1,4,5) dq
      by (simp add: fetch_bounds_internal_def abort_returning_max_bounds_def admits_max)
  next
    case (Some info0)
    obtain t' w' where pr: "do_array_precisify la info0 (st\<lparr> world := w \<rparr>)
        = Inr (info0\<lparr> ai_uniqtype := t' \<rparr>, st\<lparr> world := w' \<rparr>)"
      using precisify_total[OF snd(2), of info0 "st\<lparr> world := w \<rparr>"] by auto
    define info where "info = typed_info la (info0\<lparr> ai_uniqtype := t' \<rparr>)"
    have "obj - ai_start info0 < ai_size info0" "ai_start info0 \<noteq> 0" "unat (ai_size info0) < 2 ^ 32"
      using snd(1) q Some unfolding alloc_sound_def by blast+
    then have i: "obj - ai_start info < ai_size info" "unat (ai_size info) < 2 ^ 32"
      "ai_uniqtype info \<noteq> 0"
      using snd(2) by (auto simp: info_def typed_info_def types_sound_def)
    have "fetch_bounds_internal c la obj derived t st
        = fetch_bounds_in_alloc c la obj derived t info (st\<lparr> world := w' \<rparr>)"
      using assms(4) dq Some pr by (simp add: fetch_bounds_internal_def info_def)
    then show ?thesis using in_alloc_admits[OF assms(1) snd(3) assms(6) i] by simp
  qed
  then show ?thesis using admits_valid by blast
qed



lemma ex_sub_sound: "ex_sub off u = Some (off', u') \<Longrightarrow> off' \<le> off \<and> u \<noteq> 0
    \<and> (u = ex_int_10 \<longrightarrow> off < 40 \<and> u' = ex_int) \<and> (u = ex_schar_arr \<longrightarrow> off < 16 \<and> u' = ex_schar)"
  by (auto simp: ex_sub_def word_le_nat_alt unat_mod split: if_splits)

lemma ex_walk_sound: "unat (ex_size t) < 41 \<Longrightarrow> walk_sound ex_la t"
proof -
  assume t: "unat (ex_size t) < 41"
  have "visit_sound ex_la t v" if mem: "v \<in> set (ex_walk off u)" for v off u
  proof -
    obtain off' u' where o: "ex_sub off u = Some (off', u')"
      and v: "v = \<lparr> v_spans = u', v_start = off - off', v_containing = u, v_containing_start = 0 \<rparr>"
      using mem by (cases "ex_sub off u") (auto simp: ex_walk_def)
    note e = ex_sub_sound[OF o]
    then have "unat (off - off') \<le> unat off" by (simp add: unat_sub)
    with e t show ?thesis
      by (auto simp: visit_sound_def v ex_la_def ex_size_def word_less_nat_alt)
  qed
  then show ?thesis by (simp add: walk_sound_def ex_la_def)
qed

lemma ex_liballocs_sound:
  assumes "unat (ex_size t) < 41"
  shows "liballocs_sound ex_la t"
proof -
  have "types_sound ex_la" by (simp add: types_sound_def ex_la_def)
  moreover have "cache_sound ex_la"
    by (auto simp: cache_sound_def ex_la_def ex_lookup_def find_Some_iff)
  moreover have "alloc_sound ex_la"
    by (auto simp: alloc_sound_def ex_la_def ex_find_alloc_def find_Some_iff)
  ultimately show ?thesis
    using ex_walk_sound[OF assms] by (simp add: liballocs_sound_def)
qed



subsection \<open>Through the cache\<close>

lemma canonical_bits: "canonical p \<Longrightarrow> 48 \<le> k \<Longrightarrow> k < 64 \<Longrightarrow> bit p k = bit p 48"
proof -
  assume "canonical p" "48 \<le> k" "k < 64"
  then have "bit (signed_take_bit 48 p) k = bit p k" by (simp add: canonical_def)
  then show ?thesis using \<open>48 \<le> k\<close> \<open>k < 64\<close> by (auto simp: bit_simps min_def split: if_splits)
qed

lemma take_2_not_one:
  fixes x :: u64
  assumes "bit x 0 = bit x 1"
  shows "take_bit 2 x \<noteq> 1"
proof
  assume h: "take_bit 2 x = 1"
  have "bit (take_bit 2 x) 0" "\<not> bit (take_bit 2 x) 1" unfolding h by simp_all
  with assms show False by (simp only: bit_take_bit_iff) simp
qed

lemma canonical_not_one_past:
  assumes "canonical p"
  shows "libcrunch_ptr_trap_bits c p \<noteq> 1"
proof -
  have "bit p (49 + 0) = bit p 48" "bit p (49 + 1) = bit p 48"
    using canonical_bits[OF assms, of 49] canonical_bits[OF assms, of 50] by simp_all
  then have "bit (drop_bit 49 p) 0 = bit (drop_bit 49 p) 1"
    unfolding bit_drop_bit_eq comp_def by (rule trans[OF _ sym])
  moreover from this have "bit (drop_bit 49 p XOR signed_drop_bit 63 p) 0
      = bit (drop_bit 49 p XOR signed_drop_bit 63 p) 1"
    by (simp only: bit_xor_iff) (simp add: bit_signed_drop_bit_iff min_def)
  ultimately show ?thesis
    using take_2_not_one
    by (simp add: libcrunch_ptr_trap_bits_def and_3_take_bit Let_def)
qed

text \<open>The pointer the slow path looks up: for a one-past trap pointer, the element before.\<close>

definition lookup_ptr :: "config \<Rightarrow> 'w liballocs \<Rightarrow> uniqtype \<Rightarrow> addr \<Rightarrow> addr" where
  "lookup_ptr c la t ptr = (if libcrunch_ptr_trap_bits c ptr = 1
     then libcrunch_detrap c (ptr - size_of_type la t) else ptr)"

lemma lookup_ptr_not_one_past: "libcrunch_ptr_trap_bits c (lookup_ptr c la t ptr) \<noteq> 1"
proof (cases "libcrunch_ptr_trap_bits c ptr = 1")
  case True
  then have "traps_on c" by (auto simp: libcrunch_ptr_trap_bits_def traps_on_def split: if_splits)
  then have "canonical (libcrunch_detrap c (ptr - size_of_type la t))" by simp
  then show ?thesis using True canonical_not_one_past by (simp add: lookup_ptr_def)
qed (simp add: lookup_ptr_def)

lemma from_cache_cases:
  assumes "long_config c" "cache_sound la" "libcrunch_ptr_trap_bits c p \<noteq> 1" "p \<noteq> -1"
    and "fetch_bounds_from_cache c la p d n st = (b, st')"
  shows "admits b p \<or> libcrunch_bounds_invalid c b p"
    and "is_initialized st' = is_initialized st"
proof -
  have hit: "p - ce_base e < ce_limit e - ce_base e"
    if "cache_lookup_notype la cid w p n = Some (i, e)" for cid w i e
    using assms(2) that unfolding cache_sound_def by blast
  show "admits b p \<or> libcrunch_bounds_invalid c b p"
    using assms(1,3-5) hit
    by (auto simp: fetch_bounds_from_cache_def Let_def admits_make admits_max split: option.splits)
  show "is_initialized st' = is_initialized st"
    using assms(3,5) by (auto simp: fetch_bounds_from_cache_def Let_def split: option.splits if_splits)
qed

lemma fetch_bounds_ool_valid:
  assumes "long_config c" "liballocs_sound la t" "is_initialized st" "t \<noteq> 0"
    and "lookup_ptr c la t ptr \<noteq> 0" "lookup_ptr c la t ptr \<noteq> -1"
  shows "\<exists>b st'. fetch_bounds_ool c la ptr derived t st = Inr (b, st')
    \<and> admits b (lookup_ptr c la t ptr) \<and> \<not> libcrunch_bounds_invalid c b ptr"
proof -
  let ?p = "lookup_ptr c la t ptr" and ?d = "lookup_ptr c la t derived"
  let ?st = "st\<lparr> cnt_fetch_bounds_called := cnt_fetch_bounds_called st + 1 \<rparr>"
  obtain b1 st1 where fc: "fetch_bounds_from_cache c la ?p ?d (size_of_type la t) ?st = (b1, st1)"
    by force
  have "cache_sound la" using assms(2) by (simp add: liballocs_sound_def)
  note cases = from_cache_cases[OF assms(1) this lookup_ptr_not_one_past assms(6) fc]
  have u: "fetch_bounds_ool c la ptr derived t st =
    (if \<not> libcrunch_bounds_invalid c b1 ?p then Inr (b1, st1)
     else fetch_bounds_internal c la ?p ?d t
       (st1\<lparr> cnt_fetch_bounds_missed_cache := cnt_fetch_bounds_missed_cache st1 + 1 \<rparr>))"
    using assms(4) fc by (simp add: fetch_bounds_ool_def lookup_ptr_def Let_def)
  have inv: "libcrunch_bounds_invalid c b q \<longleftrightarrow> libcrunch_bounds_invalid c b q'" for b q q'
    by (simp add: libcrunch_bounds_invalid_def)
  have "is_initialized (st1\<lparr> cnt_fetch_bounds_missed_cache := cnt_fetch_bounds_missed_cache st1 + 1 \<rparr>)"
    using cases(2) assms(3) by simp
  from internal_admits[OF assms(1,2) this assms(5,6,4), of ?d]
  show ?thesis using cases(1) u inv[of _ ?p ptr] by auto
qed

text \<open>
  \<^verbatim>\<open>__fetch_bounds_ool\<close> keeps the promise its callers compile in: it returns, never with invalid
  bounds, and the bounds admit the pointer that was asked about, where a one-past trap pointer
  stands for the element before it.  The call is counted, whether or not the cache answers.
\<close>

theorem fetch_bounds_ool_delivers:
  assumes "long_config c" "liballocs_sound la t" "is_initialized st" "t \<noteq> 0"
    and "lookup_ptr c la t ptr \<noteq> 0" "lookup_ptr c la t ptr \<noteq> -1"
  shows "\<exists>b st'. fetch_bounds_ool c la ptr derived t st = Inr (b, st')
    \<and> admits b (lookup_ptr c la t ptr) \<and> \<not> libcrunch_bounds_invalid c b ptr"
  using assms by (rule fetch_bounds_ool_valid)

theorem fetch_bounds_ool_delivers_witness:
  "\<exists>b st'. fetch_bounds_ool config_m ex_la (libcrunch_trap config_m 0x1028 TRAP_ONE_PAST) 0x1024 ex_int ex_st
       = Inr (b, st')
    \<and> admits b (lookup_ptr config_m ex_la ex_int (libcrunch_trap config_m 0x1028 TRAP_ONE_PAST))
    \<and> \<not> libcrunch_bounds_invalid config_m b (libcrunch_trap config_m 0x1028 TRAP_ONE_PAST)"
proof -
  have "libcrunch_trap config_m 0x1028 TRAP_ONE_PAST = 0x2000000001028"
    by (simp add: libcrunch_trap_def config_defs)
  moreover have "libcrunch_ptr_trap_bits config_m 0x2000000001028 = 1"
    by (simp add: libcrunch_ptr_trap_bits_def config_defs)
  moreover have "libcrunch_detrap config_m 0x2000000001024 = 0x1024"
    using detrap_trap[of config_m "0x1024" TRAP_ONE_PAST]
    by (simp add: libcrunch_trap_def config_defs traps_on_def user_ptr_def)
  ultimately have "lookup_ptr config_m ex_la ex_int (libcrunch_trap config_m 0x1028 TRAP_ONE_PAST) = 0x1024"
    by (simp add: lookup_ptr_def size_of_type_def ex_la_def ex_size_def)
  then show ?thesis
    using fetch_bounds_ool_delivers[of config_m ex_la ex_int ex_st
        "libcrunch_trap config_m 0x1028 TRAP_ONE_PAST" "0x1024"] ex_liballocs_sound[of ex_int]
    by (simp add: long_config_def config_defs ex_size_def ex_st_def)
qed

text \<open>
  Asking the slow path about a null pointer reads an uninitialised variable: unless a cache
  holds an entry for address 0, \<^verbatim>\<open>__fetch_bounds_ool\<close> reaches \<^verbatim>\<open>return_min_bounds\<close> having jumped over
  the declaration of \<^verbatim>\<open>a\<close>.  Callers that pass a loaded null pointer through
  \<^verbatim>\<open>__fetch_and_push_argument_bounds\<close> without a location reach it.
\<close>

theorem fetch_bounds_of_null_reads_garbage:
  assumes "t \<noteq> 0" "\<forall>cid n. cache_lookup_notype la cid (world st) 0 n = None"
  shows "fetch_bounds_ool c la 0 derived t st = Inl UninitRead"
proof -
  have "libcrunch_ptr_trap_bits c 0 \<noteq> 1" by (simp add: libcrunch_ptr_trap_bits_def)
  then show ?thesis
    using assms
    by (simp add: fetch_bounds_ool_def fetch_bounds_from_cache_def fetch_bounds_internal_def Let_def)
qed

theorem fetch_bounds_of_null_reads_garbage_witness:
  "fetch_bounds_ool config_m ex_la 0 0 ex_int ex_st = Inl UninitRead"
  by (rule fetch_bounds_of_null_reads_garbage)
     (simp_all add: ex_la_def ex_st_def initial_crunch_def ex_w_def ex_lookup_def ex_entries_def
       split: cache_id.splits)

text \<open>
  A pointer to a larger type into an array gets bounds beyond the array.  When the walk ends at
  an array element that starts at the pointer and is smaller than the type asked about, the bounds
  are the array's length times the size of the \<^emph>\<open>larger\<close> type, not the pointee alone as the
  comment above the walk says: they exceed the whole array.
\<close>

theorem smaller_element_bounds_exceed_array:
  assumes "long_config c" "walk_subobjects_spanning la (target_offset obj info) (ai_uniqtype info) = [v]"
    and "v_start v = target_offset obj info" "pos_maxoff la (v_spans v) < pos_maxoff la t"
    and "is_array_type la (v_containing v)" "v_containing v \<noteq> 0" "has_known_length la (v_containing v)"
    and "t \<noteq> uniqtype_signed_char la" "t \<noteq> uniqtype_unsigned_char la" "t \<noteq> 0"
    and "pos_maxoff la t \<noteq> pos_maxoff_unbounded la"
    and "array_length la (v_containing v) \<noteq> 0"
    and "unat (array_length la (v_containing v)) * unat (pos_maxoff la t) < 2 ^ 32"
  shows "\<exists>b st'. fetch_bounds_in_alloc c la obj derived t info st = Inr (b, st')
    \<and> unat (bnd_size b) = unat (array_length la (v_containing v)) * unat (pos_maxoff la t)
    \<and> unat (array_length la (v_containing v)) * unat (pos_maxoff la (v_spans v)) < unat (bnd_size b)"
proof -
  let ?n = "array_length la (v_containing v)"
  have w: "walk_alloc la obj t info = (bounds_cb_descend la v (initial_cb_arg t (target_offset obj info)))
      \<lparr> cb_success := True \<rparr>"
    using assms(2,3,4) by (simp add: walk_alloc_def bounds_cb_def initial_cb_arg_def Let_def)
  have "unat (?n * pos_maxoff la t) = unat ?n * unat (pos_maxoff la t)"
    using assms(13) by (simp add: unat_word_ariths)
  then have "unat (bnd_size (fst (return_array_bounds c la t info (walk_alloc la obj t info) st)))
      = unat ?n * unat (pos_maxoff la t)"
    using assms(1,5,7) by (simp add: return_array_bounds_def Let_def w long_simps unat_ucast_u64)
  moreover have "unat ?n * unat (pos_maxoff la (v_spans v)) < unat ?n * unat (pos_maxoff la t)"
    using assms(4,12) by (simp add: word_less_nat_alt unat_gt_0)
  moreover have "fetch_bounds_in_alloc c la obj derived t info st
      = Inr (return_array_bounds c la t info (walk_alloc la obj t info) st)"
    using assms(5,6,8-11) by (simp add: fetch_bounds_in_alloc_def Let_def w)
  ultimately show ?thesis by (metis prod.collapse)
qed

theorem smaller_element_bounds_exceed_array_witness:
  "\<exists>b st'. fetch_bounds_in_alloc config_m ex_la 0x1000 0x1000 ex_pair (hd (ex_allocs ex_w)) ex_st
       = Inr (b, st') \<and> unat (bnd_size b) = 80 \<and> 40 < unat (bnd_size b)"
  using smaller_element_bounds_exceed_array[of config_m ex_la "0x1000" "hd (ex_allocs ex_w)"
      "\<lparr> v_spans = ex_int, v_start = 0, v_containing = ex_int_10, v_containing_start = 0 \<rparr>"
      ex_pair "0x1000" ex_st]
  by (simp add: long_config_def config_defs ex_la_def ex_w_def target_offset_def ex_walk_def
      ex_sub_def ex_size_def)

end
