(* ===== verification/Runtime.thy ===== *)
theory Runtime
  imports Fetch_Bounds
begin

text \<open>
  The out-of-line functions that the inline checks call.  Which library provides them is decided at
  link time: the real libcrunch (\<^verbatim>\<open>src/libcrunch.c\<close>) or the stub library (\<^verbatim>\<open>src/stubs.c\<close>) that lets an
  instrumented program run unchecked.  \<open>runtime\<close> is the record of these functions; \<open>real_runtime\<close>
  and \<open>stub_runtime\<close> are its two instances.  The locale \<open>bounds_supplier\<close> states what the inline
  code compiles in as a fact, that a bounds query never answers with invalid bounds, and is
  interpreted for both libraries.
\<close>

record 'w runtime =
  rt_fetch_bounds_ool :: "addr \<Rightarrow> addr \<Rightarrow> uniqtype \<Rightarrow> 'w crunch \<Rightarrow> (bounds \<times> 'w crunch) outcome"
  rt_fetch_bounds_ool_via_dladdr ::
    "addr \<Rightarrow> addr \<Rightarrow> uniqtype \<Rightarrow> 'w crunch \<Rightarrow> (bounds \<times> 'w crunch) outcome"
  rt_bounds_error :: "addr \<Rightarrow> addr \<Rightarrow> addr \<Rightarrow> bounds \<Rightarrow> 'w crunch \<Rightarrow> 'w crunch outcome"
  rt_soft_deref_error :: "addr \<Rightarrow> bounds \<Rightarrow> addr \<Rightarrow> 'w crunch \<Rightarrow> 'w crunch outcome"

text \<open>The macro \<^verbatim>\<open>__fetch_bounds_ool_to_use\<close>.\<close>

definition fetch_bounds_ool_to_use ::
  "config \<Rightarrow> 'w runtime \<Rightarrow> addr \<Rightarrow> addr \<Rightarrow> uniqtype \<Rightarrow> 'w crunch \<Rightarrow> (bounds \<times> 'w crunch) outcome" where
  "fetch_bounds_ool_to_use c rt =
     (if no_pointer_type_info c then rt_fetch_bounds_ool_via_dladdr rt else rt_fetch_bounds_ool rt)"

text \<open>The error reports of the real library; \<open>site\<close> is the code address of the failed check.\<close>

definition libcrunch_bounds_error_at ::
  "'w liballocs \<Rightarrow> addr \<Rightarrow> addr \<Rightarrow> bounds \<Rightarrow> addr \<Rightarrow> 'w crunch \<Rightarrow> 'w crunch outcome" where
  "libcrunch_bounds_error_at la derived derivedfrom b site st =
     obind (check_init la st) (\<lambda>st.
       omap (\<lambda>st. st\<lparr> cnt_created_invalid_pointer := cnt_created_invalid_pointer st + 1 \<rparr>)
         (report_failure_if_necessary la site DERIVED_PTR_VALID 0 0 0 st))"

definition libcrunch_soft_deref_error_at ::
  "'w liballocs \<Rightarrow> addr \<Rightarrow> bounds \<Rightarrow> addr \<Rightarrow> 'w crunch \<Rightarrow> 'w crunch outcome" where
  "libcrunch_soft_deref_error_at la ptr b site st =
     obind (check_init la st) (report_failure_if_necessary la site DEREFED_PTR_VALID 0 0 0)"

definition libcrunch_bounds_error ::
  "'w liballocs \<Rightarrow> addr \<Rightarrow> addr \<Rightarrow> addr \<Rightarrow> bounds \<Rightarrow> 'w crunch \<Rightarrow> 'w crunch outcome" where
  "libcrunch_bounds_error la return_address derived derivedfrom b st =
     libcrunch_bounds_error_at la derived derivedfrom b return_address st"

definition real_runtime :: "config \<Rightarrow> 'w liballocs \<Rightarrow> 'w runtime" where
  "real_runtime c la = \<lparr> rt_fetch_bounds_ool = fetch_bounds_ool c la,
     rt_fetch_bounds_ool_via_dladdr = fetch_bounds_ool_via_dladdr c la,
     rt_bounds_error = libcrunch_bounds_error la,
     rt_soft_deref_error = libcrunch_soft_deref_error_at la \<rparr>"

text \<open>The stub library: every bounds query answers with maximal bounds, every error is ignored.\<close>

definition stub_fetch_bounds_ool ::
  "config \<Rightarrow> addr \<Rightarrow> addr \<Rightarrow> uniqtype \<Rightarrow> 'w crunch \<Rightarrow> (bounds \<times> 'w crunch) outcome" where
  "stub_fetch_bounds_ool c ptr derived_ptr t st = Inr (libcrunch_max_bounds c ptr, st)"

definition stub_fetch_bounds_ool_via_dladdr ::
  "config \<Rightarrow> addr \<Rightarrow> addr \<Rightarrow> uniqtype \<Rightarrow> 'w crunch \<Rightarrow> (bounds \<times> 'w crunch) outcome" where
  "stub_fetch_bounds_ool_via_dladdr c ptr derived_ptr t st = Inr (libcrunch_max_bounds c ptr, st)"

definition stub_bounds_error ::
  "addr \<Rightarrow> addr \<Rightarrow> addr \<Rightarrow> bounds \<Rightarrow> 'w crunch \<Rightarrow> 'w crunch outcome" where
  "stub_bounds_error return_address derived derivedfrom b st = Inr st"

definition stub_soft_deref_error_at :: "addr \<Rightarrow> bounds \<Rightarrow> addr \<Rightarrow> 'w crunch \<Rightarrow> 'w crunch outcome" where
  "stub_soft_deref_error_at codeptr b site st = Inr st"

definition stub_runtime :: "config \<Rightarrow> 'w runtime" where
  "stub_runtime c = \<lparr> rt_fetch_bounds_ool = stub_fetch_bounds_ool c,
     rt_fetch_bounds_ool_via_dladdr = stub_fetch_bounds_ool_via_dladdr c,
     rt_bounds_error = stub_bounds_error,
     rt_soft_deref_error = stub_soft_deref_error_at \<rparr>"

definition fetch_bounds_full ::
  "config \<Rightarrow> 'w runtime \<Rightarrow> addr \<Rightarrow> addr \<Rightarrow> addr \<Rightarrow> uniqtype \<Rightarrow> 'w crunch \<Rightarrow> (bounds \<times> 'w crunch) outcome" where
  "fetch_bounds_full c rt ptr derived loaded_from t st =
     (if ptr = 0 then Inr (libcrunch_make_invalid_bounds c derived, st)
      else if t = 0 then Inr (libcrunch_make_invalid_bounds c derived, st)
      else (let b = fetch_bounds_inl c (memory st) ptr loaded_from t
            in if libcrunch_bounds_invalid c b ptr
               then obind (fetch_bounds_ool_to_use c rt ptr derived t st) (\<lambda>(b', st).
                      if libcrunch_bounds_invalid c b' ptr then Inl Unreachable else Inr (b', st))
               else Inr (b, st)))"


subsection \<open>The promise behind the unreachable markers\<close>

text \<open>
  \<open>answerable p t st\<close> says in which states and for which pointers the library is asked; the law is
  the assumption that \<^verbatim>\<open>if (__libcrunch_bounds_invalid(...)) __builtin_unreachable()\<close> hands to the
  compiler.
\<close>

locale bounds_supplier =
  fixes c :: config
    and rt :: "'w runtime"
    and answerable :: "addr \<Rightarrow> uniqtype \<Rightarrow> 'w crunch \<Rightarrow> bool"
  assumes supplies: "answerable p t st \<Longrightarrow>
    \<exists>b st'. fetch_bounds_ool_to_use c rt p d t st = Inr (b, st') \<and> \<not> libcrunch_bounds_invalid c b p"
begin

lemma fetch_full_returns:
  assumes "ptr \<noteq> 0" "t \<noteq> 0" "answerable ptr t st"
  shows "\<exists>b st'. fetch_bounds_full c rt ptr derived loaded_from t st = Inr (b, st')
    \<and> \<not> libcrunch_bounds_invalid c b ptr"
  using assms supplies[OF assms(3), of derived]
  by (auto simp: fetch_bounds_full_def Let_def)

end

definition real_answerable ::
  "config \<Rightarrow> 'w liballocs \<Rightarrow> addr \<Rightarrow> uniqtype \<Rightarrow> 'w crunch \<Rightarrow> bool" where
  "real_answerable c la p t st \<longleftrightarrow> long_config c \<and> \<not> no_pointer_type_info c
     \<and> liballocs_sound la t \<and> is_initialized st \<and> t \<noteq> 0
     \<and> lookup_ptr c la t p \<noteq> 0 \<and> lookup_ptr c la t p \<noteq> -1"

interpretation real: bounds_supplier c "real_runtime c la" "real_answerable c la"
  for c and la :: "'w liballocs"
proof
  fix p t d and st :: "'w crunch"
  assume a: "real_answerable c la p t st"
  then have "fetch_bounds_ool_to_use c (real_runtime c la) p d t st = fetch_bounds_ool c la p d t st"
    by (simp add: fetch_bounds_ool_to_use_def real_runtime_def real_answerable_def)
  then show "\<exists>b st'. fetch_bounds_ool_to_use c (real_runtime c la) p d t st = Inr (b, st')
      \<and> \<not> libcrunch_bounds_invalid c b p"
    using a fetch_bounds_ool_valid[of c la t st p d] by (auto simp: real_answerable_def)
qed

interpretation stub: bounds_supplier c "stub_runtime c" "\<lambda>p t st. long_config c" for c
proof
  fix p t d and st :: "'w crunch"
  assume "long_config c"
  then show "\<exists>b st'. fetch_bounds_ool_to_use c (stub_runtime c) p d t st = Inr (b, st')
      \<and> \<not> libcrunch_bounds_invalid c b p"
    by (simp add: fetch_bounds_ool_to_use_def stub_runtime_def stub_fetch_bounds_ool_def
        stub_fetch_bounds_ool_via_dladdr_def long_simps libcrunch_bounds_invalid_def)
qed

text \<open>The symbol that \<^verbatim>\<open>dladdr\<close> gives for an address is missing or has the size 0.\<close>

definition dladdr_unknown :: "'w liballocs \<Rightarrow> addr \<Rightarrow> bool" where
  "dladdr_unknown la p \<longleftrightarrow> (case dladdr_symbol la p of None \<Rightarrow> True | Some (base, st_size) \<Rightarrow> st_size = 0)"

lemma fetch_full_via_dladdr:
  assumes "ptr \<noteq> 0" "t \<noteq> 0" "long_config c" "no_pointer_type_info c"
  shows "if libcrunch_bounds_invalid c (fetch_bounds_inl c (memory st) ptr loaded_from t) ptr
          \<and> dladdr_unknown la ptr
    then fetch_bounds_full c (real_runtime c la) ptr derived loaded_from t st = Inl Unreachable
    else \<exists>b st'. fetch_bounds_full c (real_runtime c la) ptr derived loaded_from t st = Inr (b, st')
      \<and> \<not> libcrunch_bounds_invalid c b ptr"
  using assms
  by (auto simp: fetch_bounds_full_def Let_def fetch_bounds_ool_to_use_def real_runtime_def
      fetch_bounds_ool_via_dladdr_def dladdr_unknown_def long_simps libcrunch_bounds_invalid_def
      simp del: obind_eq_Inr split: option.splits)



end
