(* ===== verification/Derive_Check.thy ===== *)
theory Derive_Check
  imports Runtime
begin

text \<open>
  Checking pointer derivation and dereference (\<^verbatim>\<open>include/libcrunch_cil_inlines.h\<close>).  A derivation
  \<open>q = p + i\<close> is checked by the fast primary check and, when that fails, by the secondary check,
  which fetches missing bounds, lets a pointer come back in bounds, tags a one-past pointer and
  reports everything else.  The abstract specification is a verdict on the derived address against
  the bounds; the refinement theorems show what the detailed checks do for each verdict, in the
  configurations with and without the split path, and where tagged pointers escape it.
\<close>

definition primary_check_derive_ptr ::
  "config \<Rightarrow> 'w runtime \<Rightarrow> addr \<Rightarrow> addr \<Rightarrow> addr \<Rightarrow> bounds \<Rightarrow> 'w crunch \<Rightarrow>
     ((bool \<times> addr) \<times> 'w crunch) outcome" where
  "primary_check_derive_ptr c rt pc derived derivedfrom derivedfrom_bounds st0 =
     (let st = (if keep_expensive_counts c
                then st0\<lparr> cnt_ptr_derivations := cnt_ptr_derivations st0 + 1 \<rparr> else st0)
      in if noop_inlines c \<or> \<not> check_derive c then Inr ((True, derived), st)
         else
          (let address = derived;
               (base, like_trapped_base) =
                 (if wordsize_bounds c
                  then (let l = clear_lower_32 derivedfrom OR bnd_base derivedfrom_bounds
                        in (libcrunch_detrap c l, l))
                  else (let b = libcrunch_get_base c derivedfrom_bounds derivedfrom
                        in (b, libcrunch_like_trapped c derivedfrom b)));
               size = libcrunch_get_size c derivedfrom_bounds derivedfrom;
               (success, derived') =
                 (if no_split_path c \<and> using_trap_ptrs c then
                    (if address - like_trapped_base < size
                     then (True, libcrunch_detrap c derived)
                     else if address - like_trapped_base = size
                     then (True, libcrunch_trap c derived TRAP_ONE_PAST)
                     else (False, derived))
                  else if using_trap_pointers c then
                    (if trap_one_past_in_primary_check c
                     then (address - base \<le> size,
                           if address - base = size then libcrunch_trap c derived TRAP_ONE_PAST
                           else derived)
                     else (address - base < size, derived))
                  else (address - base < size, derived))
           in if no_split_path c \<and> \<not> success
              then omap (\<lambda>st. ((success, derived'), st))
                     (rt_bounds_error rt pc derived' derivedfrom derivedfrom_bounds st)
              else Inr ((success, derived'), st)))"

definition check_deref ::
  "config \<Rightarrow> 'w runtime \<Rightarrow> addr \<Rightarrow> addr \<Rightarrow> bounds \<Rightarrow> 'w crunch \<Rightarrow> (bool \<times> 'w crunch) outcome" where
  "check_deref c rt pc ptr ptr_bounds st0 =
     (let st = (if keep_expensive_counts c
                then st0\<lparr> cnt_ptr_derefs := cnt_ptr_derefs st0 + 1 \<rparr> else st0)
      in if using_trap_ptrs c then Inr (True, st)
         else (let base = libcrunch_get_base c ptr_bounds ptr;
                   size = libcrunch_get_size c ptr_bounds ptr
               in if ptr - base < size then Inr (True, st)
                  else obind (rt_soft_deref_error rt ptr ptr_bounds pc st) (\<lambda>st.
                         if abort_on_oob_deref c then Inl Aborted else Inr (False, st))))"

text \<open>The result is the return value, the new \<^verbatim>\<open>*p_derived\<close> and the new \<^verbatim>\<open>*p_derivedfrom_bounds\<close>.\<close>

definition secondary_check_derive_ptr ::
  "config \<Rightarrow> 'w runtime \<Rightarrow> addr \<Rightarrow> addr \<Rightarrow> addr \<Rightarrow> bounds \<Rightarrow> uniqtype \<Rightarrow> 'w crunch \<Rightarrow>
     ((bool \<times> addr \<times> bounds) \<times> 'w crunch) outcome" where
  "secondary_check_derive_ptr c rt pc derived derivedfrom0 b0 t st =
     (if noop_inlines c then Inr ((True, derived, b0), st)
      else if no_split_path c then Inl Aborted
      else
       (let pre_detrap_addr = derived;
            address = libcrunch_detrap c derived;
            derivedfrom_trapped = libcrunch_is_trap_ptr c derivedfrom0;
            derivedfrom = (if wordsize_bounds c then libcrunch_detrap c derivedfrom0 else derivedfrom0);
            base = libcrunch_get_base c b0 derivedfrom;
            naive_base = (if wordsize_bounds c then libcrunch_get_base c b0 derived else base);
            size = libcrunch_get_size c b0 derivedfrom
        in if \<not> (pre_detrap_addr - naive_base \<ge> size) then Inl Unreachable
           else obind (if libcrunch_bounds_invalid c b0 derivedfrom
                       then fetch_bounds_ool_to_use c rt derivedfrom derived t st
                       else Inr (b0, st)) (\<lambda>(b, st).
             if libcrunch_bounds_invalid c b derivedfrom then Inl Unreachable
             else
              (let base = libcrunch_get_base c b derivedfrom;
                   size = libcrunch_get_size c b derivedfrom
               in if address - base < size
                  then Inr ((True, if derivedfrom_trapped then address else derived, b), st)
                  else if using_trap_ptrs c \<and> address - base = size
                  then Inr ((True, libcrunch_trap c derived TRAP_ONE_PAST, b), st)
                  else obind (rt_bounds_error rt pc derived derivedfrom b st) (\<lambda>st.
                    if abort_on_invalid_derive c then Inl Aborted
                    else if using_trap_ptrs c
                    then Inr ((False, libcrunch_trap c derived TRAP_INVALID, b), st)
                    else Inr ((False, derived, b), st))))))"

definition full_check_derive_ptr ::
  "config \<Rightarrow> 'w runtime \<Rightarrow> addr \<Rightarrow> addr \<Rightarrow> addr \<Rightarrow> bounds \<Rightarrow> uniqtype \<Rightarrow> 'w crunch \<Rightarrow>
     ((bool \<times> addr \<times> bounds) \<times> 'w crunch) outcome" where
  "full_check_derive_ptr c rt pc derived derivedfrom b t st =
     (if noop_inlines c \<or> \<not> check_derive c then Inr ((True, derived, b), st)
      else obind (primary_check_derive_ptr c rt pc derived derivedfrom b st) (\<lambda>((ok, derived'), st).
        if ok then
          (if libcrunch_bounds_invalid c b derivedfrom then Inl Unreachable
           else if \<not> no_split_path c \<and> libcrunch_is_trap_ptr c derivedfrom then Inl Unreachable
           else Inr ((True, derived', b), st))
        else secondary_check_derive_ptr c rt pc derived' derivedfrom b t st))"

definition primary_secondary_derive_transition :: "config \<Rightarrow> 'w crunch \<Rightarrow> 'w crunch outcome" where
  "primary_secondary_derive_transition c st =
     (if no_split_path c then Inl Aborted
      else Inr (st\<lparr> cnt_primary_secondary_transitions := cnt_primary_secondary_transitions st + 1 \<rparr>))"

definition primary_secondary_deref_transition :: "config \<Rightarrow> 'w crunch \<Rightarrow> 'w crunch outcome" where
  "primary_secondary_deref_transition c st =
     (if no_split_path c then Inl Aborted
      else Inr (st\<lparr> cnt_primary_secondary_transitions := cnt_primary_secondary_transitions st + 1 \<rparr>))"


subsection \<open>The specification: a verdict on the derived address\<close>

datatype verdict = InBounds | OnePast | OutOfBounds

text \<open>Verdicts are ordered by severity.\<close>

fun severity :: "verdict \<Rightarrow> nat" where
  "severity InBounds = 0"
| "severity OnePast = 1"
| "severity OutOfBounds = 2"

lemma severity_inject [simp]: "severity v = severity w \<longleftrightarrow> v = w"
  by (cases v; cases w) simp_all

instantiation verdict :: linorder
begin

definition less_eq_verdict :: "verdict \<Rightarrow> verdict \<Rightarrow> bool" where
  "less_eq_verdict v w \<longleftrightarrow> severity v \<le> severity w"

definition less_verdict :: "verdict \<Rightarrow> verdict \<Rightarrow> bool" where
  "less_verdict v w \<longleftrightarrow> severity v < severity w"

instance
  by standard (auto simp: less_eq_verdict_def less_verdict_def dest: antisym)

end

definition verdict_of :: "bounds \<Rightarrow> addr \<Rightarrow> verdict" where
  "verdict_of b p =
     (if unat (bnd_base b) \<le> unat p \<and> unat p < unat (bnd_base b) + unat (bnd_size b) then InBounds
      else if unat p = unat (bnd_base b) + unat (bnd_size b) then OnePast
      else OutOfBounds)"

text \<open>Bounds of a user-space object: non-empty and inside the canonical lower half.\<close>

definition user_bounds :: "bounds \<Rightarrow> bool" where
  "user_bounds b \<longleftrightarrow> bnd_size b \<noteq> 0 \<and> unat (bnd_base b) + unat (bnd_size b) < 2 ^ 48"

text \<open>The configurations with trap pointers and a separate slow path (\<^verbatim>\<open>m\<close>, \<^verbatim>\<open>M\<close>, \<^verbatim>\<open>p\<close>, \<^verbatim>\<open>P\<close>, \<^verbatim>\<open>t\<close>).\<close>

definition split_config :: "config \<Rightarrow> bool" where
  "split_config c \<longleftrightarrow> check_derive c \<and> using_trap_ptrs c \<and> \<not> noop_inlines c \<and> \<not> no_split_path c
     \<and> \<not> using_trap_pointers c \<and> \<not> keep_expensive_counts c \<and> \<not> kernel_pointers c \<and> long_config c"

definition nosplit_config :: "config \<Rightarrow> bool" where
  "nosplit_config c \<longleftrightarrow> check_derive c \<and> using_trap_ptrs c \<and> \<not> noop_inlines c \<and> no_split_path c
     \<and> \<not> keep_expensive_counts c \<and> \<not> kernel_pointers c \<and> long_config c"

lemma shipped_split: "\<forall>c \<in> set [config_m, config_M, config_p, config_P, config_t]. split_config c"
  by (simp add: split_config_def long_config_def config_defs)

lemma shipped_nosplit: "\<forall>c \<in> set [config_f, config_F, config_T]. nosplit_config c"
  by (simp add: nosplit_config_def long_config_def config_defs)

text \<open>Narrower bounds are at least as strict, so that bounds may only lose precision by becoming wider.\<close>

lemma verdict_antimono:
  assumes "unat (bnd_base b) \<le> unat (bnd_base b')"
    and "unat (bnd_base b') + unat (bnd_size b') \<le> unat (bnd_base b) + unat (bnd_size b)"
  shows "verdict_of b p \<le> verdict_of b' p"
  using assms by (auto simp: verdict_of_def less_eq_verdict_def)

lemma verdict_sub:
  assumes "user_bounds b"
  shows "verdict_of b p = InBounds \<longleftrightarrow> p - bnd_base b < bnd_size b"
    and "verdict_of b p = OnePast \<longleftrightarrow> p - bnd_base b = bnd_size b"
proof -
  have nw: "no_wrap (bnd_base b) (bnd_size b)" using assms by (simp add: user_bounds_def no_wrap_def)
  show "verdict_of b p = InBounds \<longleftrightarrow> p - bnd_base b < bnd_size b"
    using austin_iff_spans[OF nw, of p]
    by (auto simp: verdict_of_def austin_def spans_def)
  have "unat (bnd_base b + bnd_size b) = unat (bnd_base b) + unat (bnd_size b)"
    using assms by (intro unat_add_nowrap) (simp add: user_bounds_def)
  then have "p - bnd_base b = bnd_size b \<longleftrightarrow> unat p = unat (bnd_base b) + unat (bnd_size b)"
    unfolding sub_eq_size_iff_limit by (simp add: word_unat_eq_iff)
  then show "verdict_of b p = OnePast \<longleftrightarrow> p - bnd_base b = bnd_size b"
    by (auto simp: verdict_of_def)
qed

lemma trap_is_plus:
  assumes "traps_on c" "user_ptr p" "tag = 1 \<or> tag = 2 \<or> tag = 3"
  shows "libcrunch_trap c p tag = p + push_bit 49 (ucast tag)"
proof -
  have "\<And>k. 48 \<le> k \<Longrightarrow> \<not> bit p k"
    using assms(2) bit_small_u64[of p 48] by (simp add: user_ptr_def)
  then have "p AND push_bit 49 (ucast tag) = 0"
    by (intro bit_word_eqI) (auto simp: bit_simps)
  then have "p XOR push_bit 49 (ucast tag) = p + push_bit 49 (ucast tag)"
    by (simp add: disjunctive_xor_eq_or disjunctive_add_eq_or)
  then show ?thesis using assms(1) by (simp add: libcrunch_trap_def traps_on_def)
qed

lemma unat_trap:
  assumes "traps_on c" "user_ptr p" "tag = 1 \<or> tag = 2 \<or> tag = 3"
  shows "unat (libcrunch_trap c p tag) = unat p + 2 ^ 49 * unat tag"
proof -
  have "unat (push_bit 49 (ucast tag) :: u64) = 2 ^ 49 * unat tag"
    using assms(3) by auto
  moreover have "unat p < 2 ^ 48" using assms(2) by (simp add: user_ptr_def)
  moreover have "unat tag < 4" using assms(3) by auto
  ultimately show ?thesis
    unfolding trap_is_plus[OF assms] by (subst unat_add_nowrap) simp_all
qed

text \<open>A tagged address is beyond every user object.\<close>

lemma tagged_beyond:
  assumes "traps_on c" "user_ptr p" "tag = 1 \<or> tag = 2 \<or> tag = 3" "user_bounds b"
  shows "\<not> libcrunch_trap c p tag - bnd_base b < bnd_size b"
proof -
  have "unat tag \<ge> 1" using assms(3) by auto
  then have "unat (libcrunch_trap c p tag) \<ge> 2 ^ 49" using unat_trap[OF assms(1-3)] by simp
  then have "verdict_of b (libcrunch_trap c p tag) \<noteq> InBounds"
    using assms(4) by (auto simp: verdict_of_def user_bounds_def)
  then show ?thesis using verdict_sub(1)[OF assms(4)] by simp
qed

lemma split_traps: "split_config c \<Longrightarrow> traps_on c"
  by (simp add: split_config_def traps_on_def)

lemma split_primary:
  assumes "split_config c"
  shows "primary_check_derive_ptr c rt pc derived derivedfrom b st
       = Inr ((derived - bnd_base b < bnd_size b, derived), st)"
  using assms
  by (simp add: primary_check_derive_ptr_def split_config_def long_simps Let_def)
     (simp add: long_config_def)

lemma split_full:
  assumes "split_config c" "user_bounds b"
  shows "full_check_derive_ptr c rt pc derived derivedfrom b t st =
    (if derived - bnd_base b < bnd_size b
     then (if libcrunch_is_trap_ptr c derivedfrom then Inl Unreachable else Inr ((True, derived, b), st))
     else secondary_check_derive_ptr c rt pc derived derivedfrom b t st)"
  using assms(2) unfolding full_check_derive_ptr_def split_primary[OF assms(1)]
  using assms(1) by (simp add: split_config_def user_bounds_def libcrunch_bounds_invalid_def)

lemma split_secondary:
  assumes "split_config c" "user_bounds b" "\<not> derived - bnd_base b < bnd_size b"
  shows "secondary_check_derive_ptr c rt pc derived derivedfrom b t st =
    (case verdict_of b (libcrunch_detrap c derived) of
       InBounds \<Rightarrow> Inr ((True, if libcrunch_is_trap_ptr c derivedfrom then libcrunch_detrap c derived
                              else derived, b), st)
     | OnePast \<Rightarrow> Inr ((True, libcrunch_trap c derived TRAP_ONE_PAST, b), st)
     | OutOfBounds \<Rightarrow> obind (rt_bounds_error rt pc derived derivedfrom b st) (\<lambda>st.
         if abort_on_invalid_derive c then Inl Aborted
         else Inr ((False, libcrunch_trap c derived TRAP_INVALID, b), st)))"
proof -
  have c: "\<not> noop_inlines c" "\<not> no_split_path c" "using_trap_ptrs c" "\<not> wordsize_bounds c" "long_config c"
    using assms(1) by (simp_all add: split_config_def long_config_def)
  have v: "bnd_size b \<noteq> 0" using assms(2) by (simp add: user_bounds_def)
  have pre: "bnd_size b \<le> derived - bnd_base b" using assms(3) by simp
  note vs = verdict_sub[OF assms(2), of "libcrunch_detrap c derived"]
  show ?thesis
    using vs
    by (cases "verdict_of b (libcrunch_detrap c derived)")
       (simp_all add: secondary_check_derive_ptr_def Let_def long_simps[OF c(5)]
         libcrunch_bounds_invalid_def c(1-4) v pre cong: if_cong)
qed


lemma split_verdict:
  assumes "split_config c" "user_bounds b"
  shows "full_check_derive_ptr c rt pc derived derivedfrom b t st =
    (if verdict_of b derived = InBounds
     then (if libcrunch_is_trap_ptr c derivedfrom then Inl Unreachable else Inr ((True, derived, b), st))
     else case verdict_of b (libcrunch_detrap c derived) of
       InBounds \<Rightarrow> Inr ((True, if libcrunch_is_trap_ptr c derivedfrom then libcrunch_detrap c derived
                              else derived, b), st)
     | OnePast \<Rightarrow> Inr ((True, libcrunch_trap c derived TRAP_ONE_PAST, b), st)
     | OutOfBounds \<Rightarrow> obind (rt_bounds_error rt pc derived derivedfrom b st) (\<lambda>st.
         if abort_on_invalid_derive c then Inl Aborted
         else Inr ((False, libcrunch_trap c derived TRAP_INVALID, b), st)))"
proof (cases "derived - bnd_base b < bnd_size b")
  case True
  then have "verdict_of b derived = InBounds" using verdict_sub(1)[OF assms(2)] by blast
  then show ?thesis unfolding split_full[OF assms] if_P[OF True] by (simp only: simp_thms if_True)
next
  case False
  then have "verdict_of b derived \<noteq> InBounds" using verdict_sub(1)[OF assms(2)] by blast
  then show ?thesis
    unfolding split_full[OF assms] if_not_P[OF False] split_secondary[OF assms False] by (simp only: if_False)
qed

lemma split_untagged:
  assumes "split_config c" "user_bounds b" "user_ptr derived" "user_ptr derivedfrom"
  shows "full_check_derive_ptr c rt pc derived derivedfrom b t st =
    (case verdict_of b derived of
       InBounds \<Rightarrow> Inr ((True, derived, b), st)
     | OnePast \<Rightarrow> Inr ((True, libcrunch_trap c derived TRAP_ONE_PAST, b), st)
     | OutOfBounds \<Rightarrow> obind (rt_bounds_error rt pc derived derivedfrom b st) (\<lambda>st.
         if abort_on_invalid_derive c then Inl Aborted
         else Inr ((False, libcrunch_trap c derived TRAP_INVALID, b), st)))"
proof -
  have can: "canonical derived" "canonical derivedfrom" using assms(3,4) by simp_all
  show ?thesis
  proof (cases "derived - bnd_base b < bnd_size b")
    case True
    then show ?thesis
      using verdict_sub(1)[OF assms(2), of derived] can by (simp add: split_full[OF assms(1,2)])
  next
    case False
    then show ?thesis
      using can by (simp add: split_full[OF assms(1,2)] split_secondary[OF assms(1,2) False])
  qed
qed

text \<open>
  (C3) The derivation check implements a verdict.  In every configuration with trap pointers and a split
  path, for valid user-space bounds and any two addresses, tagged or not: if the derived address as it
  stands is inside the bounds, it is accepted unchanged, and if the pointer it was derived from is
  tagged, the check runs into a point declared unreachable.  Otherwise the address without its tag
  decides.  Inside, it is accepted, and handed back without its tag if the pointer it was derived
  from had one.  Just past the end, it is accepted and the one-past tag is toggled on it.  Anywhere
  else it is reported, and the program is stopped or the invalid tag is toggled, with the check
  returning false.  In particular untagged pointers come back unchanged, with the one-past tag or with
  the invalid tag, according to the verdict.
\<close>

theorem full_check_refines_verdict:
  assumes "split_config c" "user_bounds b"
  shows "full_check_derive_ptr c rt pc derived derivedfrom b t st =
      (if verdict_of b derived = InBounds
       then (if libcrunch_is_trap_ptr c derivedfrom then Inl Unreachable else Inr ((True, derived, b), st))
       else case verdict_of b (libcrunch_detrap c derived) of
         InBounds \<Rightarrow> Inr ((True, if libcrunch_is_trap_ptr c derivedfrom then libcrunch_detrap c derived
                                else derived, b), st)
       | OnePast \<Rightarrow> Inr ((True, libcrunch_trap c derived TRAP_ONE_PAST, b), st)
       | OutOfBounds \<Rightarrow> obind (rt_bounds_error rt pc derived derivedfrom b st) (\<lambda>st.
           if abort_on_invalid_derive c then Inl Aborted
           else Inr ((False, libcrunch_trap c derived TRAP_INVALID, b), st)))
    \<and> (user_ptr derived \<and> user_ptr derivedfrom \<longrightarrow>
        full_check_derive_ptr c rt pc derived derivedfrom b t st =
        (case verdict_of b derived of
           InBounds \<Rightarrow> Inr ((True, derived, b), st)
         | OnePast \<Rightarrow> Inr ((True, libcrunch_trap c derived TRAP_ONE_PAST, b), st)
         | OutOfBounds \<Rightarrow> obind (rt_bounds_error rt pc derived derivedfrom b st) (\<lambda>st.
             if abort_on_invalid_derive c then Inl Aborted
             else Inr ((False, libcrunch_trap c derived TRAP_INVALID, b), st))))"
  using split_verdict[OF assms, of rt pc derived derivedfrom t st]
    split_untagged[OF assms, of derived derivedfrom rt pc t st] by simp

theorem full_check_refines_verdict_witness:
  "full_check_derive_ptr config_m (stub_runtime config_m) 0 0x1028 0x1000
     \<lparr> bnd_base = 0x1000, bnd_size = 40 \<rparr> ex_int ex_st
   = Inr ((True, libcrunch_trap config_m 0x1028 TRAP_ONE_PAST, \<lparr> bnd_base = 0x1000, bnd_size = 40 \<rparr>), ex_st)"
  using full_check_refines_verdict[of config_m "\<lparr> bnd_base = 0x1000, bnd_size = 40 \<rparr>"
      "stub_runtime config_m" 0 "0x1028" "0x1000" ex_int ex_st]
  by (simp add: split_config_def long_config_def config_defs user_bounds_def user_ptr_def verdict_of_def)


subsection \<open>Tagged pointers\<close>

lemma split_tagged:
  assumes "split_config c" "user_bounds b" "user_ptr p" "user_ptr q"
  shows "full_check_derive_ptr c rt pc (libcrunch_trap c p TRAP_ONE_PAST)
           (libcrunch_trap c q TRAP_ONE_PAST) b t st =
    (case verdict_of b p of
       InBounds \<Rightarrow> Inr ((True, p, b), st)
     | OnePast \<Rightarrow> Inr ((True, p, b), st)
     | OutOfBounds \<Rightarrow> obind (rt_bounds_error rt pc (libcrunch_trap c p TRAP_ONE_PAST)
           (libcrunch_trap c q TRAP_ONE_PAST) b st) (\<lambda>st.
         if abort_on_invalid_derive c then Inl Aborted
         else Inr ((False, libcrunch_trap c p TRAP_ONE_BEFORE, b), st)))"
proof -
  have tr: "traps_on c" using assms(1) by (rule split_traps)
  have nt: "\<not> libcrunch_trap c p TRAP_ONE_PAST - bnd_base b < bnd_size b"
    using tagged_beyond[OF tr assms(3) _ assms(2)] by simp
  have d: "libcrunch_detrap c (libcrunch_trap c p TRAP_ONE_PAST) = p"
    using detrap_trap[OF tr] assms(3) by simp
  have tagged: "libcrunch_is_trap_ptr c (libcrunch_trap c q TRAP_ONE_PAST)"
    using is_trap_ptr_trap[OF tr, of q TRAP_ONE_PAST] assms(4) by simp
  have x: "libcrunch_trap c (libcrunch_trap c p TRAP_ONE_PAST) TRAP_INVALID = libcrunch_trap c p TRAP_ONE_BEFORE"
  proof -
    have "(1 :: u16) XOR 3 = 2" by simp
    then show ?thesis unfolding trap_trap by (simp add: libcrunch_trap_def)
  qed
  show ?thesis
    unfolding split_full[OF assms(1,2)] split_secondary[OF assms(1,2) nt] if_not_P[OF nt] d x
    using tagged by (simp only: if_True trap_same_tag_twice)
qed

text \<open>
  A one-past pointer may come back in bounds: when an address inside the object is derived from
  a pointer that carries the one-past tag, the check accepts it and hands back the plain address,
  so that it can be dereferenced again.
\<close>

theorem one_past_comes_back_in:
  assumes "split_config c" "user_bounds b" "user_ptr p" "user_ptr q" "verdict_of b p = InBounds"
  shows "full_check_derive_ptr c rt pc (libcrunch_trap c p TRAP_ONE_PAST)
           (libcrunch_trap c q TRAP_ONE_PAST) b t st = Inr ((True, p, b), st)
    \<and> \<not> libcrunch_is_trap_ptr c p"
  using split_tagged[OF assms(1-4)] assms(5) user_ptr_canonical[OF assms(3)] by simp

theorem one_past_comes_back_in_witness:
  "full_check_derive_ptr config_m (stub_runtime config_m) 0
     (libcrunch_trap config_m 0x1024 TRAP_ONE_PAST) (libcrunch_trap config_m 0x1028 TRAP_ONE_PAST)
     \<lparr> bnd_base = 0x1000, bnd_size = 40 \<rparr> ex_int ex_st
   = Inr ((True, 0x1024, \<lparr> bnd_base = 0x1000, bnd_size = 40 \<rparr>), ex_st)"
  using one_past_comes_back_in[of config_m "\<lparr> bnd_base = 0x1000, bnd_size = 40 \<rparr>" "0x1024" "0x1028"
      "stub_runtime config_m" 0 ex_int ex_st]
  by (simp add: split_config_def long_config_def config_defs user_bounds_def user_ptr_def verdict_of_def)

text \<open>
  (C40) Deriving the one-past address from a one-past pointer strips its tag.  The secondary check tags
  with \<^verbatim>\<open>__libcrunch_trap\<close>, which toggles the tag bits, although the derived pointer already carries
  them: the check succeeds and returns the plain address of the byte after the object, which no
  longer traps when it is dereferenced.
\<close>

theorem one_past_rederived_loses_its_tag:
  assumes "split_config c" "user_bounds b" "user_ptr p" "verdict_of b p = OnePast"
  shows "full_check_derive_ptr c rt pc (libcrunch_trap c p TRAP_ONE_PAST)
           (libcrunch_trap c p TRAP_ONE_PAST) b t st = Inr ((True, p, b), st)
    \<and> \<not> libcrunch_is_trap_ptr c p \<and> \<not> admits b p"
proof -
  have "\<not> admits b p" using verdict_sub[OF assms(2), of p] assms(4) by (simp add: admits_def austin_def)
  then show ?thesis
    using split_tagged[OF assms(1-3,3)] assms(4) user_ptr_canonical[OF assms(3)] by simp
qed

theorem one_past_rederived_loses_its_tag_witness:
  "full_check_derive_ptr config_m (stub_runtime config_m) 0
     (libcrunch_trap config_m 0x1028 TRAP_ONE_PAST) (libcrunch_trap config_m 0x1028 TRAP_ONE_PAST)
     \<lparr> bnd_base = 0x1000, bnd_size = 40 \<rparr> ex_int ex_st
   = Inr ((True, 0x1028, \<lparr> bnd_base = 0x1000, bnd_size = 40 \<rparr>), ex_st)"
  using one_past_rederived_loses_its_tag[of config_m "\<lparr> bnd_base = 0x1000, bnd_size = 40 \<rparr>" "0x1028"
      "stub_runtime config_m" 0 ex_int ex_st]
  by (simp add: split_config_def long_config_def config_defs user_bounds_def user_ptr_def verdict_of_def)


subsection \<open>Chains of derivations\<close>

text \<open>
  The tag that the verdict on an address calls for, and the derivations on which tagging goes wrong:
  the derived address already carries that tag, so that toggling it takes it away.
\<close>

definition wanted_tag :: "bounds \<Rightarrow> addr \<Rightarrow> u16" where
  "wanted_tag b a =
     (case verdict_of b a of InBounds \<Rightarrow> 0 | OnePast \<Rightarrow> TRAP_ONE_PAST | OutOfBounds \<Rightarrow> TRAP_INVALID)"

definition retags :: "config \<Rightarrow> bounds \<Rightarrow> addr \<Rightarrow> bool" where
  "retags c b d \<longleftrightarrow> verdict_of b (libcrunch_detrap c d) \<noteq> InBounds
     \<and> d = libcrunch_trap c (libcrunch_detrap c d) (wanted_tag b (libcrunch_detrap c d))"

text \<open>In user space: a plain address is never tagged twice, a tagged one if its tag is the wanted one.\<close>

lemma retags_user:
  assumes "traps_on c" "user_ptr a"
  shows "\<not> retags c b a"
    and "tag = TRAP_ONE_PAST \<or> tag = TRAP_INVALID \<Longrightarrow>
      retags c b (libcrunch_trap c a tag) \<longleftrightarrow> verdict_of b a \<noteq> InBounds \<and> tag = wanted_tag b a"
proof -
  have t: "libcrunch_trap c a s = libcrunch_trap c a s' \<longleftrightarrow> s = s'"
    if "s = 0 \<or> s = 1 \<or> s = 3" "s' = 0 \<or> s' = 1 \<or> s' = 3" for s s' :: u16
  proof -
    have "libcrunch_trap c a 0 = a" using assms(1) by (simp add: libcrunch_trap_def traps_on_def)
    then have "unat (libcrunch_trap c a s) = unat a + 2 ^ 49 * unat s" if "s = 0 \<or> s = 1 \<or> s = 3" for s
      using unat_trap[OF assms, of s] that by auto
    from this[OF that(1)] this[OF that(2)] show ?thesis by (auto simp: word_unat_eq_iff)
  qed
  have a: "libcrunch_trap c a 0 = a" using assms(1) by (simp add: libcrunch_trap_def traps_on_def)
  have d: "libcrunch_detrap c (libcrunch_trap c a s) = a" for s using detrap_trap[OF assms(1)] assms(2) by simp
  have w: "wanted_tag b a = 0 \<or> wanted_tag b a = 1 \<or> wanted_tag b a = 3"
    "verdict_of b a \<noteq> InBounds \<Longrightarrow> wanted_tag b a \<noteq> 0"
    by (simp_all add: wanted_tag_def split: verdict.split)
  show "\<not> retags c b a" using t[of 0 "wanted_tag b a"] w a assms(2) by (auto simp: retags_def)
  show "retags c b (libcrunch_trap c a tag) \<longleftrightarrow> verdict_of b a \<noteq> InBounds \<and> tag = wanted_tag b a"
    if "tag = TRAP_ONE_PAST \<or> tag = TRAP_INVALID"
    using t[of tag "wanted_tag b a"] w(1) that by (auto simp: retags_def d)
qed

lemma trap_untagged_iff:
  assumes "traps_on c"
  shows "\<not> libcrunch_is_trap_ptr c (libcrunch_trap c d tag) \<longleftrightarrow> d = libcrunch_trap c (libcrunch_detrap c d) tag"
proof -
  have "\<not> libcrunch_is_trap_ptr c (libcrunch_trap c d tag) \<longleftrightarrow> libcrunch_detrap c d = libcrunch_trap c d tag"
    using assms detrap_trap[OF assms, of d tag] by (auto simp: libcrunch_is_trap_ptr_def traps_on_def)
  also have "\<dots> \<longleftrightarrow> d = libcrunch_trap c (libcrunch_detrap c d) tag"
    by (metis trap_same_tag_twice)
  finally show ?thesis .
qed

text \<open>A pointer is safe with bounds if it traps or is inside them.\<close>

definition safe_ptr :: "config \<Rightarrow> bounds \<Rightarrow> addr \<Rightarrow> bool" where
  "safe_ptr c b p \<longleftrightarrow> libcrunch_is_trap_ptr c p \<or> verdict_of b p = InBounds"

text \<open>What one derivation hands back does not depend on the pointer it starts from, only on the address.\<close>

lemma derived_safe_iff:
  assumes "split_config c" "user_bounds b"
    and "full_check_derive_ptr c rt pc d p b t st = Inr ((ok, q, b'), st')"
  shows "b' = b" "safe_ptr c b q \<longleftrightarrow> \<not> retags c b d"
proof -
  note u = assms(3)[unfolded split_verdict[OF assms(1,2)]] and tr = split_traps[OF assms(1)]
  show "b' = b"
    using u by (cases "verdict_of b d = InBounds"; cases "verdict_of b (libcrunch_detrap c d)")
      (auto split: if_split_asm)
  have plain: "\<not> libcrunch_is_trap_ptr c x \<longleftrightarrow> libcrunch_detrap c x = x" for x
    using tr by (auto simp: libcrunch_is_trap_ptr_def traps_on_def)
  have x: "verdict_of b q \<noteq> InBounds"
    if "verdict_of b (libcrunch_detrap c d) \<noteq> InBounds" "q = libcrunch_trap c d tag"
      "\<not> libcrunch_is_trap_ptr c q" for tag
    using that plain[of q] detrap_trap[OF tr, of d tag] by simp
  consider (direct) "verdict_of b d = InBounds" "q = d"
    | (home) "verdict_of b d \<noteq> InBounds" "verdict_of b (libcrunch_detrap c d) = InBounds"
        "q = libcrunch_detrap c d \<or> q = d"
    | (tagged) "verdict_of b (libcrunch_detrap c d) \<noteq> InBounds"
        "q = libcrunch_trap c d (wanted_tag b (libcrunch_detrap c d))"
  proof (cases "verdict_of b d = InBounds")
    case True
    with u direct show thesis by (simp split: if_split_asm)
  next
    case False
    then show thesis
      using u home tagged
      by (cases "verdict_of b (libcrunch_detrap c d)") (auto simp: wanted_tag_def split: if_split_asm)
  qed
  then show "safe_ptr c b q \<longleftrightarrow> \<not> retags c b d"
  proof cases
    case direct
    then have "unat d < 2 ^ 48" using assms(2) by (auto simp: verdict_of_def user_bounds_def split: if_split_asm)
    then have "libcrunch_detrap c d = d" by (simp add: user_ptr_canonical user_ptr_def)
    then show ?thesis using direct by (simp add: safe_ptr_def retags_def)
  next
    case home
    then have "libcrunch_is_trap_ptr c d" using plain[of d] by auto
    then show ?thesis using home by (auto simp: safe_ptr_def retags_def)
  next
    case tagged
    then show ?thesis
      using x[OF tagged] trap_untagged_iff[OF tr, of d] by (auto simp: safe_ptr_def retags_def)
  qed
qed

lemma safe_untagged_admits:
  assumes "user_bounds b" "\<not> libcrunch_is_trap_ptr c p"
  shows "safe_ptr c b p \<longleftrightarrow> admits b p"
  using assms verdict_sub(1)[OF assms(1), of p] by (simp add: safe_ptr_def admits_def austin_def)

text \<open>
  Any chain of checked derivations from \<open>p0\<close> with the bounds \<open>b\<close>: each step adds an offset to the
  pointer that the previous check wrote back, and there is no condition on pointers and offsets.  The
  list holds the addresses that were derived.
\<close>

inductive derives ::
  "config \<Rightarrow> 'w runtime \<Rightarrow> addr \<Rightarrow> bounds \<Rightarrow> uniqtype \<Rightarrow> addr \<Rightarrow> addr list \<Rightarrow> addr \<Rightarrow> bool"
  for c rt pc b t p0 where
  start: "derives c rt pc b t p0 [] p0"
| step: "derives c rt pc b t p0 ds p \<Longrightarrow>
     full_check_derive_ptr c rt pc (p + i) p b t st = Inr ((ok, q, b'), st') \<Longrightarrow>
     derives c rt pc b t p0 (ds @ [p + i]) q"

inductive_cases derivesE: "derives c rt pc b t p0 ds p"

text \<open>
  (C4) Derivation chains.  In every configuration with trap pointers and a split path, for valid
  user-space bounds, take any chain of checked derivations from a pointer inside them, with any
  offsets.  The pointer it ends with is untagged and outside the bounds exactly if the address
  that was derived last already carried the tag that the check toggles on it.  For user-space
  addresses this means that the last step derived the one-past address from a one-past pointer, or
  an address out of bounds from a pointer that already had the invalid tag.  After every other
  chain, a pointer that does not trap when dereferenced is in bounds.
\<close>

theorem derivation_chain_safety:
  assumes "split_config c" "user_bounds b" "verdict_of b p0 = InBounds" "derives c rt pc b t p0 ds p"
  shows "\<not> libcrunch_is_trap_ptr c p \<and> \<not> admits b p \<longleftrightarrow> ds \<noteq> [] \<and> retags c b (last ds)"
  using assms(4)
proof (cases rule: derives.cases)
  case start
  then show ?thesis using verdict_sub(1)[OF assms(2), of p0] assms(3) by (simp add: admits_def austin_def)
next
  case (step ds' p' i st ok b' st')
  then show ?thesis
    using derived_safe_iff(2)[OF assms(1,2) step(3)] safe_untagged_admits[OF assms(2), of c p]
    by (auto simp: safe_ptr_def)
qed

theorem derivation_chain_safety_witness:
  "libcrunch_is_trap_ptr config_m (libcrunch_trap config_m 0x1028 TRAP_ONE_PAST)
   \<and> \<not> libcrunch_is_trap_ptr config_m 0x1028 \<and> \<not> admits \<lparr> bnd_base = 0x1000, bnd_size = 40 \<rparr> 0x1028"
proof -
  let ?b = "\<lparr> bnd_base = 0x1000, bnd_size = 40 \<rparr>" and ?rt = "stub_runtime config_m :: ex_world runtime"
  let ?q = "libcrunch_trap config_m 0x1028 TRAP_ONE_PAST"
  have c: "split_config config_m" "user_bounds ?b" "verdict_of ?b 0x1000 = InBounds"
    by (simp_all add: split_config_def long_config_def config_defs user_bounds_def verdict_of_def)
  have u: "user_ptr 0x1028" "user_ptr 0x1000" "verdict_of ?b 0x1028 = OnePast"
    by (simp_all add: user_ptr_def verdict_of_def)
  have 1: "derives config_m ?rt 0 ?b ex_int 0x1000 ([] @ [0x1000 + 40]) ?q"
    by (rule derives.step[OF derives.start, where st = ex_st and ok = True and b' = ?b and st' = ex_st])
      (use split_untagged[OF c(1,2) u(1,2), of ?rt 0 ex_int ex_st] u(3) in simp)
  have 2: "derives config_m ?rt 0 ?b ex_int 0x1000 (([] @ [0x1000 + 40]) @ [?q + 0]) 0x1028"
    by (rule derives.step[OF 1, where st = ex_st and ok = True and b' = ?b and st' = ex_st])
      (use split_tagged[OF c(1,2) u(1,1), of ?rt 0 ex_int ex_st] u(3) in simp)
  have "wanted_tag ?b 0x1028 = TRAP_ONE_PAST" using u(3) by (simp add: wanted_tag_def)
  then show ?thesis
    using derivation_chain_safety[OF c 1] derivation_chain_safety[OF c 2] u(3)
      retags_user[OF split_traps[OF c(1)] u(1), where b = ?b] safe_untagged_admits[OF c(2), of config_m ?q]
      is_trap_ptr_trap[OF split_traps[OF c(1)] user_ptr_canonical[OF u(1)], of TRAP_ONE_PAST]
    by simp
qed


subsection \<open>Missing bounds\<close>

text \<open>
  A pointer whose bounds are missing is checked against freshly fetched ones.  When the local
  bounds are invalid, the check asks the library; if the answer is user-space bounds, the
  verdict is taken against that answer, the answer replaces the local bounds, and the unreachable
  markers are not reached.
\<close>

theorem missing_bounds_are_fetched:
  assumes "split_config c" "user_ptr derived" "user_ptr derivedfrom" "bnd_size b0 = 0"
    and "fetch_bounds_ool_to_use c rt derivedfrom derived t st = Inr (b, st1)" "user_bounds b"
  shows "full_check_derive_ptr c rt pc derived derivedfrom b0 t st =
    (case verdict_of b derived of
       InBounds \<Rightarrow> Inr ((True, derived, b), st1)
     | OnePast \<Rightarrow> Inr ((True, libcrunch_trap c derived TRAP_ONE_PAST, b), st1)
     | OutOfBounds \<Rightarrow> obind (rt_bounds_error rt pc derived derivedfrom b st1) (\<lambda>st.
         if abort_on_invalid_derive c then Inl Aborted
         else Inr ((False, libcrunch_trap c derived TRAP_INVALID, b), st)))"
proof -
  have c: "\<not> noop_inlines c" "\<not> no_split_path c" "using_trap_ptrs c" "\<not> wordsize_bounds c"
    "long_config c" "check_derive c"
    using assms(1) by (simp_all add: split_config_def long_config_def)
  have v: "bnd_size b \<noteq> 0" using assms(6) by (simp add: user_bounds_def)
  have can: "canonical derived" "canonical derivedfrom" using assms(2,3) by simp_all
  note vs = verdict_sub[OF assms(6), of derived]
  have "full_check_derive_ptr c rt pc derived derivedfrom b0 t st
      = secondary_check_derive_ptr c rt pc derived derivedfrom b0 t st"
    unfolding full_check_derive_ptr_def split_primary[OF assms(1)] using c assms(4) by simp
  then show ?thesis
    using vs
    by (cases "verdict_of b derived")
       (simp_all add: secondary_check_derive_ptr_def Let_def long_simps[OF c(5)]
         libcrunch_bounds_invalid_def c(1-4) v can assms(4,5) cong: if_cong)
qed

theorem missing_bounds_are_fetched_witness:
  "full_check_derive_ptr config_m (real_runtime config_m ex_la) 0 0x2004 0x2000
     \<lparr> bnd_base = 0x2000, bnd_size = 0 \<rparr> ex_int
     (ex_st\<lparr> world := ex_w\<lparr> ex_ool := [\<lparr> ce_base = 0x2000, ce_limit = 0x2004, ce_uniqtype = ex_int \<rparr>] \<rparr> \<rparr>)
   = Inr ((True, libcrunch_trap config_m 0x2004 TRAP_ONE_PAST, \<lparr> bnd_base = 0x2000, bnd_size = 4 \<rparr>),
       ex_st\<lparr> world := ex_w\<lparr> ex_ool := [\<lparr> ce_base = 0x2000, ce_limit = 0x2004, ce_uniqtype = ex_int \<rparr>] \<rparr>,
         cnt_fetch_bounds_called := 1 \<rparr>)"
proof -
  let ?st = "ex_st\<lparr> world := ex_w\<lparr> ex_ool := [\<lparr> ce_base = 0x2000, ce_limit = 0x2004, ce_uniqtype = ex_int \<rparr>] \<rparr> \<rparr>"
  have t: "libcrunch_ptr_trap_bits config_m 0x2000 \<noteq> 1" "libcrunch_ptr_trap_bits config_m 0x2004 \<noteq> 1"
    by (rule canonical_not_one_past, simp add: user_ptr_canonical user_ptr_def)+
  have "fetch_bounds_ool_to_use config_m (real_runtime config_m ex_la) 0x2000 0x2004 ex_int ?st
    = Inr (\<lparr> bnd_base = 0x2000, bnd_size = 4 \<rparr>, ?st\<lparr> cnt_fetch_bounds_called := 1 \<rparr>)"
    using t by (simp add: fetch_bounds_ool_to_use_def real_runtime_def config_defs fetch_bounds_ool_def
        fetch_bounds_from_cache_def ex_defs bounds_defs)
  then show ?thesis
    using missing_bounds_are_fetched[of config_m "0x2004" "0x2000" "\<lparr> bnd_base = 0x2000, bnd_size = 0 \<rparr>"
        "real_runtime config_m ex_la" ex_int ?st "\<lparr> bnd_base = 0x2000, bnd_size = 4 \<rparr>"
        "?st\<lparr> cnt_fetch_bounds_called := 1 \<rparr>" 0]
    by (simp add: split_config_def long_config_def config_defs user_bounds_def user_ptr_def verdict_of_def)
qed


subsection \<open>The other configurations\<close>

lemma like_trapped_user:
  assumes "\<not> noop_inlines c" "user_ptr p" "unat b < 2 ^ 48"
  shows "libcrunch_like_trapped c p b = b"
proof -
  have h: "\<And>k. 49 \<le> k \<Longrightarrow> \<not> bit p k" "\<And>k. 49 \<le> k \<Longrightarrow> \<not> bit b k"
    using assms bit_small_u64[of p 48] bit_small_u64[of b 48] by (simp_all add: user_ptr_def)
  have m: "TRAP_BOTTOM_MASK = mask 49" by (simp add: TRAP_BOTTOM_MASK_def mask_eq_exp_minus_1)
  have "(p AND NOT (mask 49)) OR (b AND mask 49) = b"
    by (rule bit_word_eqI) (use h in \<open>auto simp: bit_simps not_less\<close>)
  then show ?thesis using assms(1) by (simp add: libcrunch_like_trapped_def m)
qed

text \<open>
  Without a split path the primary check does the whole job, and an out-of-bounds derivation
  always ends the program: after the report the full check falls through to the secondary check,
  whose first act is \<^verbatim>\<open>abort()\<close>, whether or not the configuration asks to abort.
\<close>

theorem nosplit_check_accepts_or_aborts:
  assumes "nosplit_config c" "user_bounds b" "user_ptr derived" "user_ptr derivedfrom"
  shows "full_check_derive_ptr c rt pc derived derivedfrom b t st =
    (case verdict_of b derived of
       InBounds \<Rightarrow> Inr ((True, derived, b), st)
     | OnePast \<Rightarrow> Inr ((True, libcrunch_trap c derived TRAP_ONE_PAST, b), st)
     | OutOfBounds \<Rightarrow> obind (rt_bounds_error rt pc derived derivedfrom b st) (\<lambda>st. Inl Aborted))"
proof -
  have c: "\<not> noop_inlines c" "no_split_path c" "using_trap_ptrs c" "\<not> wordsize_bounds c"
    "long_config c" "check_derive c" "\<not> keep_expensive_counts c"
    using assms(1) by (simp_all add: nosplit_config_def long_config_def)
  have v: "bnd_size b \<noteq> 0" using assms(2) by (simp add: user_bounds_def)
  have lt: "libcrunch_like_trapped c derivedfrom (bnd_base b) = bnd_base b"
    using c(1) assms(2,4) by (intro like_trapped_user) (simp_all add: user_bounds_def)
  have "canonical derived" using assms(3) by simp
  then show ?thesis
    using verdict_sub[OF assms(2), of derived]
    by (cases "verdict_of b derived"; cases "rt_bounds_error rt pc derived derivedfrom b st")
       (simp_all add: full_check_derive_ptr_def primary_check_derive_ptr_def
         secondary_check_derive_ptr_def Let_def long_simps[OF c(5)] libcrunch_bounds_invalid_def
         c(1-4,6,7) v lt)
qed

theorem nosplit_check_accepts_or_aborts_witness:
  "full_check_derive_ptr config_f (stub_runtime config_f) 0 0x1030 0x1000
     \<lparr> bnd_base = 0x1000, bnd_size = 40 \<rparr> ex_int ex_st = Inl Aborted"
  using nosplit_check_accepts_or_aborts[of config_f "\<lparr> bnd_base = 0x1000, bnd_size = 40 \<rparr>" "0x1030" "0x1000"
      "stub_runtime config_f" 0 ex_int ex_st]
  by (simp add: nosplit_config_def long_config_def config_defs user_bounds_def user_ptr_def verdict_of_def
      stub_runtime_def stub_bounds_error_def)

text \<open>
  The dereference check of the SoftBound-like configurations is exact: without trap pointers
  it accepts a dereference just when the address is inside the bounds; otherwise it reports, and
  stops the program if so configured.
\<close>

theorem check_deref_exact:
  assumes "long_config c" "\<not> using_trap_ptrs c" "\<not> keep_expensive_counts c" "user_bounds b"
  shows "check_deref c rt pc ptr b st =
    (if verdict_of b ptr = InBounds then Inr (True, st)
     else obind (rt_soft_deref_error rt ptr b pc st) (\<lambda>st.
       if abort_on_oob_deref c then Inl Aborted else Inr (False, st)))"
  using assms verdict_sub(1)[OF assms(4), of ptr]
  by (simp add: check_deref_def Let_def long_simps)

theorem check_deref_exact_witness:
  "check_deref config_S (stub_runtime config_S) 0 0x1028 \<lparr> bnd_base = 0x1000, bnd_size = 40 \<rparr> ex_st = Inl Aborted"
  using check_deref_exact[of config_S "\<lparr> bnd_base = 0x1000, bnd_size = 40 \<rparr>" "stub_runtime config_S" 0 "0x1028" ex_st]
  by (simp add: long_config_def config_defs user_bounds_def verdict_of_def stub_runtime_def
      stub_soft_deref_error_at_def)

text \<open>
  The option to trap one-past pointers in the primary check has no effect: the conditional that
  reads it tests a macro name that no configuration defines, so for every such configuration the
  check behaves the same with and without the option.
\<close>

theorem one_past_in_primary_option_is_dead:
  assumes "\<not> using_trap_pointers c"
  shows "primary_check_derive_ptr (c\<lparr> trap_one_past_in_primary_check := x \<rparr>) rt pc derived derivedfrom b st
       = primary_check_derive_ptr c rt pc derived derivedfrom b st
    \<and> (\<forall>c' \<in> set shipped_configs. \<not> using_trap_pointers c')"
proof -
  have t: "libcrunch_detrap (c\<lparr> trap_one_past_in_primary_check := x \<rparr>) = libcrunch_detrap c"
    "libcrunch_trap (c\<lparr> trap_one_past_in_primary_check := x \<rparr>) = libcrunch_trap c"
    "libcrunch_get_base (c\<lparr> trap_one_past_in_primary_check := x \<rparr>) = libcrunch_get_base c"
    "libcrunch_like_trapped (c\<lparr> trap_one_past_in_primary_check := x \<rparr>) = libcrunch_like_trapped c"
    by (simp_all add: fun_eq_iff libcrunch_detrap_def libcrunch_trap_def libcrunch_get_base_def
        libcrunch_like_trapped_def)
  show ?thesis
    using assms
    by (simp add: primary_check_derive_ptr_def t Let_def shipped_configs_def config_defs)
qed

theorem one_past_in_primary_option_is_dead_witness:
  "primary_check_derive_ptr (config_m\<lparr> trap_one_past_in_primary_check := True \<rparr>) (stub_runtime config_m) 0
     0x1028 0x1000 \<lparr> bnd_base = 0x1000, bnd_size = 40 \<rparr> ex_st
   = primary_check_derive_ptr config_m (stub_runtime config_m) 0
     0x1028 0x1000 \<lparr> bnd_base = 0x1000, bnd_size = 40 \<rparr> ex_st"
  using one_past_in_primary_option_is_dead[of config_m True "stub_runtime config_m" 0 "0x1028" "0x1000"
      "\<lparr> bnd_base = 0x1000, bnd_size = 40 \<rparr>" ex_st]
  by (simp add: config_defs)

text \<open>
  In the configuration that has no pointer type information, the check of a pointer without
  bounds relies on a promise that is not kept: bounds are looked up by symbol, and for a pointer
  that no symbol covers, such as any heap pointer, the lookup answers with invalid bounds and
  execution reaches the point marked unreachable.
\<close>

theorem dladdr_bounds_reach_unreachable:
  assumes "split_config c" "no_pointer_type_info c" "bnd_size b0 = 0"
    and "derivedfrom \<noteq> 0" "dladdr_symbol la derivedfrom = None"
  shows "full_check_derive_ptr c (real_runtime c la) pc derived derivedfrom b0 t st = Inl Unreachable"
proof -
  have c: "\<not> noop_inlines c" "\<not> no_split_path c" "\<not> wordsize_bounds c" "long_config c" "check_derive c"
    using assms(1) by (simp_all add: split_config_def long_config_def)
  have "full_check_derive_ptr c (real_runtime c la) pc derived derivedfrom b0 t st
      = secondary_check_derive_ptr c (real_runtime c la) pc derived derivedfrom b0 t st"
    unfolding full_check_derive_ptr_def split_primary[OF assms(1)] using c assms(3) by simp
  also have "\<dots> = Inl Unreachable"
    using c assms(2-5)
    by (simp add: secondary_check_derive_ptr_def Let_def fetch_bounds_ool_to_use_def real_runtime_def
        fetch_bounds_ool_via_dladdr_def long_simps libcrunch_bounds_invalid_def)
  finally show ?thesis .
qed

theorem dladdr_bounds_reach_unreachable_witness:
  "full_check_derive_ptr config_t (real_runtime config_t ex_la) 0 0x1004 0x1000
     \<lparr> bnd_base = 0x1000, bnd_size = 0 \<rparr> ex_int ex_st = Inl Unreachable"
  using dladdr_bounds_reach_unreachable[of config_t "\<lparr> bnd_base = 0x1000, bnd_size = 0 \<rparr>" "0x1000" ex_la
      0 "0x1004" ex_int ex_st]
  by (simp add: split_config_def long_config_def config_defs ex_la_def)

end
