(* ===== verification/Bounds_Stack.thy ===== *)
theory Bounds_Stack
  imports Derive_Check
begin

text \<open>
  The bounds stack (\<^verbatim>\<open>include/libcrunch_cil_inlines.h\<close>): a second stack, growing downwards in memory,
  on which an instrumented caller passes the bounds of its pointer arguments and a cookie naming
  the callee, and the callee returns the bounds of its result.  The interface \<open>value_stack\<close> is what
  pushing and peeking promise to each other; the calling-convention theorems are proved in it
  once and reached through its interpretation on the stack operations.
\<close>

definition sizeof_bounds :: "config \<Rightarrow> u64" where
  "sizeof_bounds c = (if wordsize_bounds c then 8 else 16)"

text \<open>
  Copying a bounds structure to and from memory (\<^verbatim>\<open>__builtin_memcpy\<close>).  The padding of the layout with
  a 32-bit size is left alone.
\<close>

definition memcpy_bounds_to :: "config \<Rightarrow> mem \<Rightarrow> addr \<Rightarrow> bounds \<Rightarrow> mem" where
  "memcpy_bounds_to c m a b =
     (if wordsize_bounds c
      then store32 (store32 m a (ucast (bnd_size b))) (a + 4) (ucast (bnd_base b))
      else (let m1 = store64 m a (bnd_base b)
            in if long_size c then store64 m1 (a + 8) (bnd_size b)
               else store32 m1 (a + 8) (ucast (bnd_size b))))"

definition memcpy_bounds_from :: "config \<Rightarrow> mem \<Rightarrow> addr \<Rightarrow> bounds" where
  "memcpy_bounds_from c m a =
     (if wordsize_bounds c
      then \<lparr> bnd_base = ucast (load32 m (a + 4)), bnd_size = ucast (load32 m a) \<rparr>
      else \<lparr> bnd_base = load64 m a,
             bnd_size = (if long_size c then load64 m (a + 8) else ucast (load32 m (a + 8))) \<rparr>)"

definition bounds_stack_off :: "config \<Rightarrow> bool" where
  "bounds_stack_off c \<longleftrightarrow> no_bounds_stack c \<or> noop_inlines c"

definition alloc_bounds_stack_space :: "u64 \<Rightarrow> 'w crunch \<Rightarrow> addr \<times> 'w crunch" where
  "alloc_bounds_stack_space nbytes st =
     (let words = (if nbytes mod 8 = 0 then nbytes div 8 else nbytes div 8 + 1);
          sp = bounds_sp st - 8 * words
      in (sp, st\<lparr> bounds_sp := sp \<rparr>))"

definition push_bounds :: "config \<Rightarrow> bounds \<Rightarrow> 'w crunch \<Rightarrow> 'w crunch" where
  "push_bounds c b st =
     (case alloc_bounds_stack_space (sizeof_bounds c) st of
        (a, st) \<Rightarrow> st\<lparr> memory := memcpy_bounds_to c (memory st) a b \<rparr>)"

definition push_local_argument_bounds :: "config \<Rightarrow> bounds \<Rightarrow> 'w crunch \<Rightarrow> 'w crunch" where
  "push_local_argument_bounds c b st = (if bounds_stack_off c then st else push_bounds c b st)"

definition push_argument_bounds_base_limit ::
  "config \<Rightarrow> addr \<Rightarrow> u64 \<Rightarrow> u64 \<Rightarrow> 'w crunch \<Rightarrow> 'w crunch" where
  "push_argument_bounds_base_limit c ptr base limit st =
     (if bounds_stack_off c then st else push_bounds c (make_bounds c base limit) st)"

text \<open>The space is allocated before the bounds are fetched.\<close>

definition fetch_and_push ::
  "config \<Rightarrow> 'w runtime \<Rightarrow> addr \<Rightarrow> addr \<Rightarrow> uniqtype \<Rightarrow> 'w crunch \<Rightarrow> 'w crunch outcome" where
  "fetch_and_push c rt ptr loaded_from t st =
     (case alloc_bounds_stack_space (sizeof_bounds c) st of (a, st) \<Rightarrow>
        obind (if loaded_from \<noteq> 0 then Inr (fetch_bounds_inl c (memory st) ptr loaded_from t, st)
               else fetch_bounds_ool_to_use c rt ptr loaded_from t st) (\<lambda>(b, st).
          Inr (st\<lparr> memory := memcpy_bounds_to c (memory st) a b \<rparr>)))"

definition fetch_and_push_argument_bounds ::
  "config \<Rightarrow> 'w runtime \<Rightarrow> addr \<Rightarrow> addr \<Rightarrow> uniqtype \<Rightarrow> 'w crunch \<Rightarrow> 'w crunch outcome" where
  "fetch_and_push_argument_bounds c rt ptr loaded_from t st =
     (if bounds_stack_off c then Inr st else fetch_and_push c rt ptr loaded_from t st)"

definition push_argument_bounds_cookie :: "config \<Rightarrow> addr \<Rightarrow> 'w crunch \<Rightarrow> 'w crunch" where
  "push_argument_bounds_cookie c callee st =
     (if bounds_stack_off c then st
      else case alloc_bounds_stack_space 8 st of
             (a, st) \<Rightarrow> st\<lparr> memory := store64 (memory st) a callee \<rparr>)"

definition tweak_argument_bounds_cookie :: "config \<Rightarrow> addr \<Rightarrow> 'w crunch \<Rightarrow> bool \<times> 'w crunch" where
  "tweak_argument_bounds_cookie c callee st =
     (if bounds_stack_off c then (False, st)
      else if load64 (memory st) (bounds_sp st) = callee
      then (True, st\<lparr> memory := store64 (memory st) (bounds_sp st)
                        (load64 (memory st) (bounds_sp st) OR 0x800000000000) \<rparr>)
      else (False, st))"

definition peek_argument_bounds :: "config \<Rightarrow> bool \<Rightarrow> u64 \<Rightarrow> addr \<Rightarrow> 'w crunch \<Rightarrow> bounds" where
  "peek_argument_bounds c really offset ptr st =
     (if bounds_stack_off c then libcrunch_make_invalid_bounds c ptr
      else if really
      then memcpy_bounds_from c (memory st)
             (bounds_sp st + 8 * (1 + offset * (sizeof_bounds c div 8)))
      else libcrunch_make_invalid_bounds c ptr)"

definition peek_and_shadow_store_argument_bounds ::
  "config \<Rightarrow> bool \<Rightarrow> addr \<Rightarrow> u64 \<Rightarrow> addr \<Rightarrow> uniqtype \<Rightarrow> 'w crunch \<Rightarrow> 'w crunch" where
  "peek_and_shadow_store_argument_bounds c really loaded_from offset ptr t st =
     (if \<not> bounds_stack_off c \<and> really
      then (let b = peek_argument_bounds c really offset ptr st
            in st\<lparr> memory := shadow_store_bounds_for c (memory st) loaded_from b t \<rparr>)
      else st)"

definition push_local_result_bounds :: "config \<Rightarrow> bool \<Rightarrow> bounds \<Rightarrow> 'w crunch \<Rightarrow> 'w crunch" where
  "push_local_result_bounds c really b st =
     (if \<not> bounds_stack_off c \<and> really then push_bounds c b st else st)"

definition push_result_bounds_base_limit ::
  "config \<Rightarrow> bool \<Rightarrow> addr \<Rightarrow> u64 \<Rightarrow> u64 \<Rightarrow> 'w crunch \<Rightarrow> 'w crunch" where
  "push_result_bounds_base_limit c really ptr base limit st =
     (if \<not> bounds_stack_off c \<and> really then push_bounds c (make_bounds c base limit) st else st)"

definition fetch_and_push_result_bounds ::
  "config \<Rightarrow> 'w runtime \<Rightarrow> bool \<Rightarrow> addr \<Rightarrow> addr \<Rightarrow> uniqtype \<Rightarrow> 'w crunch \<Rightarrow> 'w crunch outcome" where
  "fetch_and_push_result_bounds c rt really ptr loaded_from t st =
     (if \<not> bounds_stack_off c \<and> really then fetch_and_push c rt ptr loaded_from t st else Inr st)"

definition peek_result_bounds :: "config \<Rightarrow> bool \<Rightarrow> u64 \<Rightarrow> addr \<Rightarrow> 'w crunch \<Rightarrow> bounds" where
  "peek_result_bounds c really offset ptr st =
     (if bounds_stack_off c then libcrunch_make_invalid_bounds c ptr
      else if really
      then memcpy_bounds_from c (memory st) (bounds_sp st + 8 * (offset * (sizeof_bounds c div 8)))
      else libcrunch_make_invalid_bounds c ptr)"

definition cleanup_bounds_stack :: "config \<Rightarrow> addr \<Rightarrow> 'w crunch \<Rightarrow> 'w crunch" where
  "cleanup_bounds_stack c saved_ptr st =
     (if bounds_stack_off c then st else st\<lparr> bounds_sp := saved_ptr \<rparr>)"


subsection \<open>The interface of a value stack\<close>

text \<open>
  What a stack that passes values from caller to callee promises: the value pushed last is on top,
  and a push moves everything below it by one place.  \<open>cap\<close> bounds the depth up to which the
  addresses of the slots do not wrap around.
\<close>

locale value_stack =
  fixes push :: "'v \<Rightarrow> 's \<Rightarrow> 's"
    and peek :: "nat \<Rightarrow> 's \<Rightarrow> 'v"
    and storable :: "'v \<Rightarrow> bool"
    and cap :: nat
  assumes peek_top: "storable v \<Longrightarrow> peek 0 (push v s) = v"
    and peek_below: "i < cap \<Longrightarrow> peek (Suc i) (push v s) = peek i s"
begin

text \<open>Pushing arguments right to left leaves the first one on top.\<close>

lemma peek_pushed:
  assumes "length vs \<le> cap" "\<forall>v \<in> set vs. storable v" "i < length vs"
  shows "peek i (foldr push vs s) = vs ! i"
  using assms
proof (induction vs arbitrary: i)
  case (Cons v vs)
  then show ?case by (cases i) (auto simp: peek_top peek_below)
qed simp

lemma peek_beneath_pushed:
  assumes "length vs + j \<le> cap"
  shows "peek (length vs + j) (foldr push vs s) = peek j s"
  using assms by (induction vs) (auto simp: peek_below)

end


subsection \<open>The bounds stack is one\<close>

lemma ranges_disjoint_offset:
  assumes "i + n \<le> j \<or> j + k \<le> i" "i + n \<le> 2 ^ 64" "j + k \<le> 2 ^ 64"
  shows "ranges_disjoint (a + of_nat i) n (a + of_nat j) k"
  unfolding ranges_disjoint_def
proof (intro allI impI notI)
  fix x y assume xy: "x < n" "y < k" "a + of_nat i + of_nat x = a + of_nat j + of_nat y"
  then have "(of_nat (i + x) :: u64) = of_nat (j + y)" by (simp add: add.assoc)
  moreover have "i + x < 2 ^ 64" "j + y < 2 ^ 64" using assms xy by simp_all
  ultimately have "i + x = j + y" using of_nat_u64_eq_iff by blast
  with assms(1) xy show False by auto
qed

lemma disjoint_numeral_offset:
  assumes "n \<le> 8" "k \<le> 8"
  shows "ranges_disjoint a n (a + 8) k" "ranges_disjoint (a + 8) k a n"
  using ranges_disjoint_offset[of 0 n 8 k a] ranges_disjoint_offset[of 8 k 0 n a] assms by simp_all

text \<open>The configurations with 64-bit base and size; a structure takes two words.\<close>

definition stack_config :: "config \<Rightarrow> bool" where
  "stack_config c \<longleftrightarrow> long_config c \<and> \<not> bounds_stack_off c"

lemma stack_configD:
  "stack_config c \<Longrightarrow> sizeof_bounds c = 16 \<and> \<not> wordsize_bounds c \<and> long_size c \<and> \<not> bounds_stack_off c"
  by (simp add: stack_config_def long_config_def sizeof_bounds_def)

lemma memcpy_roundtrip:
  assumes "stack_config c"
  shows "memcpy_bounds_from c (memcpy_bounds_to c m a b) a = b"
  using stack_configD[OF assms] disjoint_numeral_offset[of 8 8 a]
  by (simp add: memcpy_bounds_from_def memcpy_bounds_to_def mem_simps Let_def)

lemma push_bounds_unfold:
  assumes "stack_config c"
  shows "push_bounds c b st =
    st\<lparr> bounds_sp := bounds_sp st - 16, memory := memcpy_bounds_to c (memory st) (bounds_sp st - 16) b \<rparr>"
  using stack_configD[OF assms] by (simp add: push_bounds_def alloc_bounds_stack_space_def Let_def)

definition stack_slot :: "config \<Rightarrow> nat \<Rightarrow> 'w crunch \<Rightarrow> bounds" where
  "stack_slot c i st = memcpy_bounds_from c (memory st) (bounds_sp st + of_nat (16 * i))"

lemma memcpy_elsewhere:
  assumes "stack_config c" "ranges_disjoint a 16 d 16"
  shows "memcpy_bounds_from c (memcpy_bounds_to c m d b) a = memcpy_bounds_from c m a"
proof -
  have sub: "ranges_disjoint (a + of_nat i) 8 (d + of_nat j) 8" if "i \<le> 8" "j \<le> 8" for i j
    unfolding ranges_disjoint_def
  proof (intro allI impI)
    fix x y :: nat assume "x < 8" "y < 8"
    with that have "i + x < 16" "j + y < 16" by simp_all
    with assms(2) have "a + of_nat (i + x) \<noteq> d + of_nat (j + y)" unfolding ranges_disjoint_def by blast
    then show "a + of_nat i + of_nat x \<noteq> d + of_nat j + of_nat y" by (simp add: add.assoc)
  qed
  show ?thesis
    using stack_configD[OF assms(1)] sub[of 0 0] sub[of 0 8] sub[of 8 0] sub[of 8 8]
    by (simp add: memcpy_bounds_from_def memcpy_bounds_to_def mem_simps Let_def)
qed

locale bounds_stack =
  fixes c :: config
  assumes stacked: "stack_config c"

sublocale bounds_stack \<subseteq> value_stack "push_bounds c :: bounds \<Rightarrow> 'w crunch \<Rightarrow> 'w crunch"
    "stack_slot c" "\<lambda>b. True" "2 ^ 32"
proof
  show "stack_slot c 0 (push_bounds c v s) = v" for v and s :: "'w crunch"
    using stacked by (simp add: stack_slot_def push_bounds_unfold memcpy_roundtrip)
  fix i v and s :: "'w crunch" assume i: "i < (2 :: nat) ^ 32"
  let ?d = "bounds_sp s - 16"
  have "ranges_disjoint (?d + of_nat (16 * Suc i)) 16 (?d + of_nat 0) 16"
    using i by (intro ranges_disjoint_offset) simp_all
  moreover have "bounds_sp s + of_nat (16 * i) = ?d + of_nat (16 * Suc i)" by simp
  ultimately show "stack_slot c (Suc i) (push_bounds c v s) = stack_slot c i s"
    using stacked by (simp add: stack_slot_def push_bounds_unfold memcpy_elsewhere)
qed

context bounds_stack
begin

lemma pushed_bounds:
  assumes "length bs \<le> 2 ^ 32" "i < length bs"
  shows "stack_slot c i (foldr (push_bounds c) bs st) = bs ! i"
  using peek_pushed[OF assms(1) _ assms(2)] by simp

end

interpretation stack_m: bounds_stack config_m
  by unfold_locales (simp add: stack_config_def long_config_def bounds_stack_off_def config_defs)

interpretation stack_s: bounds_stack config_s
  by unfold_locales (simp add: stack_config_def long_config_def bounds_stack_off_def config_defs)


subsection \<open>The calling convention\<close>

lemma foldr_push_local:
  "stack_config c \<Longrightarrow> foldr (push_local_argument_bounds c) bs st = foldr (push_bounds c) bs st"
  by (induction bs) (simp_all add: push_local_argument_bounds_def stack_config_def)

lemma memcpy_from_word_elsewhere:
  assumes "stack_config c" "ranges_disjoint a 8 d 8" "ranges_disjoint (a + 8) 8 d 8"
  shows "memcpy_bounds_from c (store64 m d v) a = memcpy_bounds_from c m a"
  using stack_configD[OF assms(1)] assms(2,3)
  by (simp add: memcpy_bounds_from_def mem_simps)

text \<open>The cookie word lies just below the argument slots and shares no byte with them.\<close>

lemma slot_apart_from_cookie:
  fixes sp :: addr
  assumes "i < 2 ^ 32"
  shows "ranges_disjoint (sp + of_nat (16 * i)) 8 (sp - 8) 8"
    and "ranges_disjoint (sp + of_nat (16 * i) + 8) 8 (sp - 8) 8"
proof -
  have "ranges_disjoint (sp - 8 + of_nat (8 + 16 * i)) 8 (sp - 8 + of_nat 0) 8"
    "ranges_disjoint (sp - 8 + of_nat (16 + 16 * i)) 8 (sp - 8 + of_nat 0) 8"
    using assms by (intro ranges_disjoint_offset; simp)+
  then show "ranges_disjoint (sp + of_nat (16 * i)) 8 (sp - 8) 8"
    "ranges_disjoint (sp + of_nat (16 * i) + 8) 8 (sp - 8) 8"
    by (simp_all add: algebra_simps)
qed

lemma push_cookie_unfold:
  "stack_config c \<Longrightarrow> push_argument_bounds_cookie c callee st =
     st\<lparr> bounds_sp := bounds_sp st - 8, memory := store64 (memory st) (bounds_sp st - 8) callee \<rparr>"
  by (simp add: push_argument_bounds_cookie_def stack_config_def alloc_bounds_stack_space_def Let_def)

lemma cookie_bit_changes:
  fixes callee :: addr
  assumes "unat callee < 2 ^ 47"
  shows "callee OR 0x800000000000 \<noteq> callee"
proof
  assume h: "callee OR 0x800000000000 = callee"
  have "0x800000000000 = (push_bit 47 1 :: u64)" by simp
  then have "bit (callee OR 0x800000000000) 47" by (simp add: bit_or_iff bit_push_bit_iff)
  with h have "bit callee 47" by simp
  then show False using bit_small_u64[OF assms, of 47] by simp
qed

lemma peek_argument_slot:
  assumes "stack_config c" "i < 2 ^ 32"
  shows "peek_argument_bounds c True (of_nat i) p
           (st\<lparr> bounds_sp := bounds_sp st - 8,
              memory := store64 (store64 (memory st) (bounds_sp st - 8) x) (bounds_sp st - 8) y \<rparr>)
       = stack_slot c i st"
proof -
  have "bounds_sp st - 8 + 8 * (1 + of_nat i * 2) = bounds_sp st + of_nat (16 * i)"
    by (simp add: algebra_simps)
  then show ?thesis
    using stack_configD[OF assms(1)] slot_apart_from_cookie[OF assms(2), of "bounds_sp st"]
    by (simp add: peek_argument_bounds_def stack_slot_def memcpy_from_word_elsewhere[OF assms(1)])
qed

lemma call_convention:
  assumes "stack_config c" "length bs \<le> 2 ^ 32" "unat callee < 2 ^ 47"
  shows "case tweak_argument_bounds_cookie c callee
           (push_argument_bounds_cookie c callee (foldr (push_local_argument_bounds c) bs st)) of
     (ok, st3) \<Rightarrow> ok
       \<and> (\<forall>i < length bs. peek_argument_bounds c ok (of_nat i) p st3 = bs ! i)
       \<and> \<not> fst (tweak_argument_bounds_cookie c callee st3)
       \<and> bounds_sp (cleanup_bounds_stack c (bounds_sp st) st3) = bounds_sp st"
proof -
  define st1 where "st1 = foldr (push_local_argument_bounds c) bs st"
  have slots: "stack_slot c i st1 = bs ! i" if "i < length bs" for i
    unfolding st1_def foldr_push_local[OF assms(1)]
    using bounds_stack.pushed_bounds[OF bounds_stack.intro[OF assms(1)] assms(2) that] .
  have "peek_argument_bounds c True (of_nat i) p
      (st1\<lparr> bounds_sp := bounds_sp st1 - 8,
         memory := store64 (store64 (memory st1) (bounds_sp st1 - 8) callee) (bounds_sp st1 - 8)
           (callee OR 0x800000000000) \<rparr>) = bs ! i" if "i < length bs" for i
    using peek_argument_slot[OF assms(1), of i p st1] slots[OF that] that assms(2) by simp
  moreover have "\<not> bounds_stack_off c" using assms(1) by (simp add: stack_config_def)
  ultimately show ?thesis
    using cookie_bit_changes[OF assms(3)]
    by (simp add: st1_def[symmetric] push_cookie_unfold[OF assms(1)] tweak_argument_bounds_cookie_def
        cleanup_bounds_stack_def mem_simps)
qed

text \<open>
  (C9) An instrumented call passes its bounds.  In a configuration with bounds of two 64-bit words and
  a bounds stack, when a caller pushes the bounds of its arguments, at most \<open>2 ^ 32\<close>, from right
  to left and then the cookie of a callee in user space, the callee finds the cookie, reads for every argument exactly
  the bounds that were pushed for it, and consumes the cookie, so that a nested call of the same
  function from uninstrumented code does not pick the bounds up again; the caller's clean-up
  restores the stack pointer.
\<close>

theorem call_passes_argument_bounds:
  assumes "stack_config c" "length bs \<le> 2 ^ 32" "unat callee < 2 ^ 47"
  shows "case tweak_argument_bounds_cookie c callee
           (push_argument_bounds_cookie c callee (foldr (push_local_argument_bounds c) bs st)) of
     (ok, st3) \<Rightarrow> ok
       \<and> (\<forall>i < length bs. peek_argument_bounds c ok (of_nat i) p st3 = bs ! i)
       \<and> \<not> fst (tweak_argument_bounds_cookie c callee st3)
       \<and> bounds_sp (cleanup_bounds_stack c (bounds_sp st) st3) = bounds_sp st"
  using assms by (rule call_convention)

theorem call_passes_argument_bounds_witness:
  "case tweak_argument_bounds_cookie config_m 0x401000
       (push_argument_bounds_cookie config_m 0x401000 (foldr (push_local_argument_bounds config_m)
          [\<lparr> bnd_base = 0x1000, bnd_size = 40 \<rparr>, \<lparr> bnd_base = 0x2000, bnd_size = 4 \<rparr>]
          (ex_st\<lparr> bounds_sp := 0x7000fff8 \<rparr>))) of
     (ok, st3) \<Rightarrow> ok \<and> peek_argument_bounds config_m ok (of_nat 1) 0 st3 = \<lparr> bnd_base = 0x2000, bnd_size = 4 \<rparr>"
  using call_passes_argument_bounds[of config_m
      "[\<lparr> bnd_base = 0x1000, bnd_size = 40 \<rparr>, \<lparr> bnd_base = 0x2000, bnd_size = 4 \<rparr>]" "0x401000"
      0 "ex_st\<lparr> bounds_sp := 0x7000fff8 \<rparr>"]
  by (auto simp: stack_config_def long_config_def bounds_stack_off_def config_defs
      simp del: foldr.simps split: prod.splits)

text \<open>
  A call from uninstrumented code gets no bounds rather than someone else's: when the word on top
  of the bounds stack is not the callee's own address, the cookie test fails, leaves the stack
  alone, and every argument is given invalid bounds.
\<close>

theorem uninstrumented_call_gets_no_bounds:
  assumes "load64 (memory st) (bounds_sp st) \<noteq> callee"
  shows "tweak_argument_bounds_cookie c callee st = (False, st)
    \<and> libcrunch_bounds_invalid c (peek_argument_bounds c False off p st) p
    \<and> peek_and_shadow_store_argument_bounds c False loc off p t st = st"
  using assms
  by (simp add: tweak_argument_bounds_cookie_def peek_argument_bounds_def
      peek_and_shadow_store_argument_bounds_def)

theorem uninstrumented_call_gets_no_bounds_witness:
  "tweak_argument_bounds_cookie config_m 0x401000 ex_st = (False, ex_st)"
  using uninstrumented_call_gets_no_bounds[of ex_st "0x401000" config_m 0 0 0 0]
  by (simp add: ex_st_def initial_crunch_def load64_def load_bytes_def upt_rec)

text \<open>
  Result bounds come back: what an instrumented callee pushes for its result is what the caller
  peeks, and a callee whose caller did not pass a cookie pushes nothing.
\<close>

theorem result_bounds_come_back:
  assumes "stack_config c"
  shows "peek_result_bounds c True 0 p (push_local_result_bounds c True b st) = b
    \<and> peek_result_bounds c True 0 p (push_result_bounds_base_limit c True p lo hi st) = make_bounds c lo hi
    \<and> push_local_result_bounds c False b st = st"
  using assms stack_configD[OF assms]
  by (simp add: peek_result_bounds_def push_local_result_bounds_def push_result_bounds_base_limit_def
      push_bounds_unfold memcpy_roundtrip)

theorem result_bounds_come_back_witness:
  "peek_result_bounds config_m True 0 0x1000
     (push_local_result_bounds config_m True \<lparr> bnd_base = 0x1000, bnd_size = 40 \<rparr> ex_st)
   = \<lparr> bnd_base = 0x1000, bnd_size = 40 \<rparr>"
  using result_bounds_come_back[of config_m "0x1000" "\<lparr> bnd_base = 0x1000, bnd_size = 40 \<rparr>" ex_st 0 0]
  by (simp add: stack_config_def long_config_def bounds_stack_off_def config_defs)


subsection \<open>Memory outside the bytes that are written\<close>

definition same_outside :: "addr \<Rightarrow> nat \<Rightarrow> mem \<Rightarrow> mem \<Rightarrow> bool" where
  "same_outside r n m m' \<longleftrightarrow> (\<forall>x. \<not> unat (x - r) < n \<longrightarrow> m' x = m x)"

lemma same_outside_load:
  assumes "same_outside r n m m'" "ranges_disjoint a k r n"
  shows "load_bytes m' a k = load_bytes m a k"
proof (rule load_bytes_cong)
  fix i assume i: "i < k"
  have "\<not> unat (a + of_nat i - r) < n"
  proof
    assume "unat (a + of_nat i - r) < n"
    moreover have "a + of_nat i = r + of_nat (unat (a + of_nat i - r))" by simp
    ultimately show False using assms(2) i unfolding ranges_disjoint_def by blast
  qed
  then show "m' (a + of_nat i) = m (a + of_nat i)" using assms(1) by (simp add: same_outside_def)
qed

lemma same_outside_trans:
  assumes "same_outside r n m m'" "same_outside (r - of_nat k) k m' m''" "n + k < 2 ^ 64"
  shows "same_outside (r - of_nat k) (n + k) m m''"
  unfolding same_outside_def
proof (intro allI impI)
  fix x assume x: "\<not> unat (x - (r - of_nat k)) < n + k"
  have k: "unat (of_nat k :: u64) = k" using assms(3) by (intro unat_of_nat_u64) simp
  with x have "of_nat k \<le> x - (r - of_nat k)" by (simp add: word_le_nat_alt)
  then have "unat (x - r) = unat (x - (r - of_nat k)) - k"
    using unat_sub_nowrap[of "of_nat k" "x - (r - of_nat k)"] k by (simp add: algebra_simps)
  with x have "\<not> unat (x - r) < n" by simp
  with x assms(1,2) show "m'' x = m x" by (simp add: same_outside_def)
qed

lemma same_outside_store64: "same_outside a 8 m (store64 m a v)"
  by (simp add: same_outside_def store64_def store_bytes_def)

lemma same_outside_memcpy:
  assumes "stack_config c"
  shows "same_outside a 16 m (memcpy_bounds_to c m a b)"
proof -
  have "\<not> unat (x - (a + 8)) < 8" if "\<not> unat (x - a) < 16" for x
  proof -
    have "(8 :: u64) \<le> x - a" using that by (simp add: word_le_nat_alt)
    then have "unat (x - a - 8) = unat (x - a) - 8" by (subst unat_sub_nowrap) simp_all
    with that show ?thesis by (simp add: algebra_simps)
  qed
  then show ?thesis
    using stack_configD[OF assms]
    by (auto simp: memcpy_bounds_to_def same_outside_def store64_def store_bytes_def Let_def)
qed

end
