(* ===== verification/Type_Relations.thy ===== *)
theory Type_Relations
  imports Fetch_Bounds
begin

text \<open>
  The relations on types that the checks of \<^verbatim>\<open>src/libcrunch.c\<close> decide: descending through the
  subobjects of an allocation, the degree of a pointer type, the member-by-member comparison of
  structure types, and the compatibility of function types.  Accessor macros such as
  \<^verbatim>\<open>UNIQTYPE_IS_ARRAY_TYPE\<close> belong to liballocs and are fields of its record.

  A descent is a loop with fuel: each successful step uses one unit, and the loop gives
  \<open>NonTermination\<close> when it would step without fuel.  The callers give it the rank of the type it
  starts from; \<open>type_graph_sound\<close> says that ranks decrease along subobjects, array elements and
  pointees (C types are finite trees up to pointers, and a pointer type has finite degree), and the
  lemmas show that the loops then end.
\<close>

named_theorems type_defs "definitions of the type checks"


subsection \<open>Descending to a subobject\<close>

text \<open>
  \<^verbatim>\<open>while (target_offset_within_uniqtype != 0)\<close>: the outermost subobject that starts at the
  address.  The boolean says whether one was found.
\<close>

fun descend_to_start ::
  "'w liballocs \<Rightarrow> nat \<Rightarrow> u32 \<Rightarrow> uniqtype \<Rightarrow> (bool \<times> u32 \<times> uniqtype) outcome" where
  "descend_to_start la fuel off t =
     (if off = 0 then Inr (True, off, t)
      else case first_subobject_spanning la off t of
        None \<Rightarrow> Inr (False, off, t)
      | Some (off', t') \<Rightarrow>
          (if fuel = 0 then Inl NonTermination else descend_to_start la (fuel - 1) off' t'))"

declare descend_to_start.simps [simp del]

text \<open>\<^verbatim>\<open>while (success)\<close>: the innermost subobject that spans the address.\<close>

fun descend_fully :: "'w liballocs \<Rightarrow> nat \<Rightarrow> u32 \<Rightarrow> uniqtype \<Rightarrow> (u32 \<times> uniqtype) outcome" where
  "descend_fully la fuel off t =
     (case first_subobject_spanning la off t of
        None \<Rightarrow> Inr (off, t)
      | Some (off', t') \<Rightarrow>
          (if fuel = 0 then Inl NonTermination else descend_fully la (fuel - 1) off' t'))"

declare descend_fully.simps [simp del]

text \<open>\<^verbatim>\<open>while (UNIQTYPE_IS_ARRAY_TYPE(cur_obj_uniqtype))\<close>: the element type under all array types.\<close>

fun strip_arrays :: "'w liballocs \<Rightarrow> nat \<Rightarrow> uniqtype \<Rightarrow> uniqtype outcome" where
  "strip_arrays la fuel t =
     (if \<not> is_array_type la t then Inr t
      else if fuel = 0 then Inl NonTermination
      else strip_arrays la (fuel - 1) (array_element_type la t))"

declare strip_arrays.simps [simp del]


subsection \<open>Pointer degrees\<close>

text \<open>The argument \<^verbatim>\<open>d\<close> is an \<^verbatim>\<open>int\<close>; the loop runs while it is positive.\<close>

fun has_degree_loop :: "'w liballocs \<Rightarrow> nat \<Rightarrow> uniqtype \<Rightarrow> bool outcome" where
  "has_degree_loop la 0 t = Inr True"
| "has_degree_loop la (Suc d) t =
     (if \<not> is_pointer_type la t then Inr False
      else if pointee_type la t = 0 then Inl AssertFailed
      else has_degree_loop la d (pointee_type la t))"

definition pointer_has_degree :: "'w liballocs \<Rightarrow> uniqtype \<Rightarrow> int \<Rightarrow> bool outcome" where
  "pointer_has_degree la t d = has_degree_loop la (nat d) t"

fun degree_loop :: "'w liballocs \<Rightarrow> nat \<Rightarrow> int \<Rightarrow> uniqtype \<Rightarrow> (int \<times> uniqtype) outcome" where
  "degree_loop la fuel d t =
     (if \<not> is_pointer_type la t then Inr (d, t)
      else if fuel = 0 then Inl NonTermination
      else degree_loop la (fuel - 1) (d + 1) (pointee_type la t))"

declare degree_loop.simps [simp del]

definition pointer_degree_and_ultimate_pointee_type ::
  "'w liballocs \<Rightarrow> uniqtype \<Rightarrow> (int \<times> uniqtype) outcome" where
  "pointer_degree_and_ultimate_pointee_type la t = degree_loop la (pointer_rank la t) 0 t"

definition is_generic_ultimate_pointee :: "'w liballocs \<Rightarrow> uniqtype \<Rightarrow> bool" where
  "is_generic_ultimate_pointee la t \<longleftrightarrow>
     t = uniqtype_void la \<or> t = uniqtype_signed_char la \<or> t = uniqtype_unsigned_char la"

definition holds_pointer_of_degree :: "'w liballocs \<Rightarrow> uniqtype \<Rightarrow> int \<Rightarrow> u32 \<Rightarrow> bool outcome" where
  "holds_pointer_of_degree la t d off =
     obind (descend_fully la (subobject_rank la t) off t) (\<lambda>(off', t').
       if off' = 0 \<and> is_pointer_type la t' then pointer_has_degree la t' d else Inr False)"

definition pointer_degree :: "'w liballocs \<Rightarrow> uniqtype \<Rightarrow> int outcome" where
  "pointer_degree la t = omap fst (pointer_degree_and_ultimate_pointee_type la t)"

definition is_generic_pointer_type_of_degree_at_least ::
  "'w liballocs \<Rightarrow> uniqtype \<Rightarrow> int \<Rightarrow> int outcome" where
  "is_generic_pointer_type_of_degree_at_least la t must_have_d =
     omap (\<lambda>(d, ultimate). if d \<ge> must_have_d \<and> is_generic_ultimate_pointee la ultimate then d else 0)
       (pointer_degree_and_ultimate_pointee_type la t)"

definition is_generic_pointer_type :: "'w liballocs \<Rightarrow> uniqtype \<Rightarrow> bool outcome" where
  "is_generic_pointer_type la t =
     omap (\<lambda>d. d \<noteq> 0) (is_generic_pointer_type_of_degree_at_least la t 1)"

definition is_abstract_pointer_type :: "'w liballocs \<Rightarrow> uniqtype \<Rightarrow> bool" where
  "is_abstract_pointer_type la t \<longleftrightarrow> is_pointer_type la t \<and> make_precise la t \<noteq> 0"


subsection \<open>Comparing structure types member by member\<close>

text \<open>The test for a member of the checked type that is an array of characters.\<close>

definition is_char_array_member :: "'w liballocs \<Rightarrow> rel_info \<Rightarrow> bool" where
  "is_char_array_member la r \<longleftrightarrow> is_array_type la (rel_ptr r)
     \<and> (array_element_type la (rel_ptr r) = uniqtype_signed_char la
        \<or> array_element_type la (rel_ptr r) = uniqtype_unsigned_char la)"

text \<open>The offset up to which members of the object are skipped.\<close>

definition skip_target :: "'w liballocs \<Rightarrow> uniqtype \<Rightarrow> nat \<Rightarrow> u32" where
  "skip_target la test i =
     (if member_count la test > i + 1 then rel_off (related la test (i + 1))
      else rel_off (related la test i) + pos_maxoff la (rel_ptr (related la test i)))"

function skip_members :: "'w liballocs \<Rightarrow> uniqtype \<Rightarrow> u32 \<Rightarrow> nat \<Rightarrow> nat" where
  "skip_members la t target_off i =
     (if i + 1 < member_count la t \<and> rel_off (related la t (i + 1)) < target_off
      then skip_members la t target_off (i + 1) else i)"
  by pat_completeness auto

termination
  by (relation "measure (\<lambda>(la, t, target_off, i). member_count la t - i)") auto

declare skip_members.simps [simp del]

text \<open>
  The \<^verbatim>\<open>for\<close> loop that \<^verbatim>\<open>__like_a_internal\<close> and \<^verbatim>\<open>__loosely_like_a_internal\<close> share, with the test
  of two members as a parameter.  It gives whether the check goes on to succeed.
\<close>

function members_like ::
  "'w liballocs \<Rightarrow> (rel_info \<Rightarrow> rel_info \<Rightarrow> bool outcome) \<Rightarrow> uniqtype \<Rightarrow> uniqtype \<Rightarrow> nat \<Rightarrow> nat \<Rightarrow>
     bool outcome" where
  "members_like la member_ok test t i_test i_obj =
     (if i_obj < member_count la t \<and> i_test < member_count la test then
        (if is_char_array_member la (related la test i_test) then
           (let i_obj' = skip_members la t (skip_target la test i_test) i_obj
            in if i_obj' + 1 \<ge> member_count la t \<and> member_count la test > i_test + 1
               then Inr False
               else members_like la member_ok test t (i_test + 1) (i_obj' + 1))
         else obind (member_ok (related la test i_test) (related la t i_obj)) (\<lambda>ok.
                if ok then members_like la member_ok test t (i_test + 1) (i_obj + 1)
                else Inr False))
      else Inr (\<not> i_test < member_count la test))"
  by pat_completeness auto

termination
  by (relation "measure (\<lambda>(la, ok, test, t, i_test, i_obj). member_count la test - i_test)") auto

declare members_like.simps [simp del]

definition like_member :: "rel_info \<Rightarrow> rel_info \<Rightarrow> bool outcome" where
  "like_member rt ro = Inr (rel_off rt = rel_off ro \<and> rel_ptr rt = rel_ptr ro)"

definition array_of_one :: "'w liballocs \<Rightarrow> uniqtype \<Rightarrow> uniqtype \<Rightarrow> bool" where
  "array_of_one la arr t \<longleftrightarrow>
     is_array_type la arr \<and> array_length la arr = 1 \<and> array_element_type la arr = t"

text \<open>The condition on base types is negated twice in the source.\<close>

definition like_type :: "'w liballocs \<Rightarrow> uniqtype \<Rightarrow> uniqtype \<Rightarrow> bool outcome" where
  "like_type la test t =
     (if test = t then Inr True
      else if is_array_type la t \<or> is_array_type la test
      then Inr (test = t \<or> array_of_one la test t \<or> array_of_one la t test)
      else if \<not> is_base_type la t \<and> \<not> is_base_type la test
              \<and> (signedness_complement la t = test \<or> signedness_complement la test = t)
      then Inr True
      else members_like la like_member test t 0 0)"

definition loosely_like_member :: "'w liballocs \<Rightarrow> rel_info \<Rightarrow> rel_info \<Rightarrow> bool outcome" where
  "loosely_like_member la rt ro =
     (if rel_off rt \<noteq> rel_off ro then Inr False
      else if rel_ptr rt = rel_ptr ro then Inr True
      else obind (is_generic_pointer_type_of_degree_at_least la (rel_ptr rt) 1) (\<lambda>degree.
             obind (if degree \<noteq> 0 then pointer_has_degree la (rel_ptr ro) degree else Inr False)
               (\<lambda>loose. Inr (loose \<or> is_base_type la (rel_ptr rt) \<and> is_base_type la (rel_ptr ro)
                              \<and> signedness_complement la (rel_ptr rt) = rel_ptr ro))))"

text \<open>One round of the \<^verbatim>\<open>do\<close> loop of \<^verbatim>\<open>__loosely_like_a_internal\<close>.\<close>

definition loosely_like_type :: "'w liballocs \<Rightarrow> uniqtype \<Rightarrow> uniqtype \<Rightarrow> bool outcome" where
  "loosely_like_type la test t =
     (if test = t then Inr True
      else obind (if is_pointer_type la test
                  then is_generic_pointer_type_of_degree_at_least la test 1 else Inr 0)
        (\<lambda>real_degree.
          if real_degree \<noteq> 0 then holds_pointer_of_degree la t real_degree 0
          else if is_array_type la t \<or> is_array_type la test
          then Inr (test = t \<or> array_of_one la test t \<or> array_of_one la t test)
          else if (\<not> is_base_type la t \<or> is_base_type la test)
                  \<and> (signedness_complement la t = test \<or> signedness_complement la test = t)
          then Inr True
          else members_like la (loosely_like_member la) test t 0 0))"

fun loosely_like_loop ::
  "'w liballocs \<Rightarrow> nat \<Rightarrow> uniqtype \<Rightarrow> u32 \<Rightarrow> uniqtype \<Rightarrow> (bool \<times> uniqtype) outcome" where
  "loosely_like_loop la fuel test off t =
     obind (loosely_like_type la test t) (\<lambda>ok.
       if ok then Inr (True, t)
       else case first_subobject_spanning la off t of
         None \<Rightarrow> Inr (False, t)
       | Some (off', t') \<Rightarrow>
           (if fuel = 0 then Inl NonTermination
            else loosely_like_loop la (fuel - 1) test off' t'))"

declare loosely_like_loop.simps [simp del]


subsection \<open>Function types\<close>

definition would_always_succeed :: "'w liballocs \<Rightarrow> uniqtype \<Rightarrow> uniqtype \<Rightarrow> bool" where
  "would_always_succeed la from to \<longleftrightarrow>
     \<not> is_pointer_type la to
     \<or> pointee_type la to = uniqtype_void la
     \<or> pointee_type la to = uniqtype_signed_char la
     \<or> (is_pointer_type la from
        \<and> mr_success (find_matching_subobject la 0 (pointee_type la from) (pointee_type la to)))"

text \<open>The loop over the arguments; it stops at the first one that is not compatible.\<close>

fun args_refine :: "'w liballocs \<Rightarrow> uniqtype \<Rightarrow> uniqtype \<Rightarrow> nat list \<Rightarrow> bool" where
  "args_refine la t test [] = True"
| "args_refine la t test (i # is) =
     (if would_always_succeed la (rel_ptr (related la test i)) (rel_ptr (related la t i))
      then args_refine la t test is else False)"

definition function_refines :: "'w liballocs \<Rightarrow> uniqtype \<Rightarrow> uniqtype \<Rightarrow> bool" where
  "function_refines la t test \<longleftrightarrow>
     t = test
     \<or> (is_subprogram_type la t \<and> subprogram_narg la t = subprogram_narg la test
        \<and> would_always_succeed la (rel_ptr (related la t 0)) (rel_ptr (related la test 0))
        \<and> args_refine la t test
            [min 1 (subprogram_nret la t)..<min 1 (subprogram_nret la t) + subprogram_narg la t])"


subsection \<open>The descents end\<close>

text \<open>What the loops rely on: the ranks decrease, and a pointer type has a pointee.\<close>

definition type_graph_sound :: "'w liballocs \<Rightarrow> bool" where
  "type_graph_sound la \<longleftrightarrow>
     (\<forall>off t off' t'. first_subobject_spanning la off t = Some (off', t') \<longrightarrow>
        subobject_rank la t' < subobject_rank la t)
     \<and> (\<forall>t. is_array_type la t \<longrightarrow> subobject_rank la (array_element_type la t) < subobject_rank la t)
     \<and> (\<forall>t. is_pointer_type la t \<longrightarrow>
          pointee_type la t \<noteq> 0 \<and> pointer_rank la (pointee_type la t) < pointer_rank la t)"

lemma type_graph_soundD:
  assumes "type_graph_sound la"
  shows "first_subobject_spanning la off t = Some (off', t') \<Longrightarrow>
           subobject_rank la t' < subobject_rank la t"
    and "is_array_type la t \<Longrightarrow> subobject_rank la (array_element_type la t) < subobject_rank la t"
    and "is_pointer_type la t \<Longrightarrow> pointee_type la t \<noteq> 0"
    and "is_pointer_type la t \<Longrightarrow> pointer_rank la (pointee_type la t) < pointer_rank la t"
  using assms unfolding type_graph_sound_def by blast+

text \<open>Iterated \<^verbatim>\<open>__liballocs_first_subobject_spanning\<close>.\<close>

inductive spans_at :: "'w liballocs \<Rightarrow> u32 \<Rightarrow> uniqtype \<Rightarrow> u32 \<Rightarrow> uniqtype \<Rightarrow> bool" for la where
  here: "spans_at la off t off t"
| below: "first_subobject_spanning la off t = Some (off1, t1) \<Longrightarrow> spans_at la off1 t1 off' t' \<Longrightarrow>
     spans_at la off t off' t'"

lemma descend_to_start_spec:
  assumes "type_graph_sound la" "subobject_rank la t \<le> fuel"
  shows "\<exists>found off' t'. descend_to_start la fuel off t = Inr (found, off', t')
     \<and> spans_at la off t off' t' \<and> (found \<longleftrightarrow> off' = 0)
     \<and> (\<not> found \<longrightarrow> first_subobject_spanning la off' t' = None)"
  using assms(2)
proof (induction fuel arbitrary: off t)
  case 0
  then have "first_subobject_spanning la off t = None"
    using type_graph_soundD(1)[OF assms(1), of off t] by (cases "first_subobject_spanning la off t") auto
  then show ?case by (subst descend_to_start.simps) (auto intro: spans_at.here)
next
  case (Suc n)
  show ?case
  proof (cases "first_subobject_spanning la off t")
    case None
    then show ?thesis by (subst descend_to_start.simps) (auto intro: spans_at.here)
  next
    case (Some r)
    obtain off1 t1 where r: "first_subobject_spanning la off t = Some (off1, t1)"
      using Some by (cases r) auto
    have "subobject_rank la t1 \<le> n"
      using type_graph_soundD(1)[OF assms(1) r] Suc.prems by linarith
    from Suc.IH[OF this, of off1] r show ?thesis
      by (subst descend_to_start.simps) (auto intro: spans_at.intros)
  qed
qed

lemma descend_fully_spec:
  assumes "type_graph_sound la" "subobject_rank la t \<le> fuel"
  shows "\<exists>off' t'. descend_fully la fuel off t = Inr (off', t') \<and> spans_at la off t off' t'
     \<and> first_subobject_spanning la off' t' = None"
  using assms(2)
proof (induction fuel arbitrary: off t)
  case 0
  then have "first_subobject_spanning la off t = None"
    using type_graph_soundD(1)[OF assms(1), of off t] by (cases "first_subobject_spanning la off t") auto
  then show ?case by (subst descend_fully.simps) (auto intro: spans_at.here)
next
  case (Suc n)
  show ?case
  proof (cases "first_subobject_spanning la off t")
    case None
    then show ?thesis by (subst descend_fully.simps) (auto intro: spans_at.here)
  next
    case (Some r)
    obtain off1 t1 where r: "first_subobject_spanning la off t = Some (off1, t1)"
      using Some by (cases r) auto
    have "subobject_rank la t1 \<le> n"
      using type_graph_soundD(1)[OF assms(1) r] Suc.prems by linarith
    from Suc.IH[OF this, of off1] r show ?thesis
      by (subst descend_fully.simps) (auto intro: spans_at.intros)
  qed
qed

lemma spans_at_rank:
  "spans_at la off t off' t' \<Longrightarrow> type_graph_sound la \<Longrightarrow> subobject_rank la t' \<le> subobject_rank la t"
  by (induction rule: spans_at.induct) (auto dest: type_graph_soundD(1))

lemma strip_arrays_spec:
  assumes "type_graph_sound la" "subobject_rank la t \<le> fuel"
  shows "\<exists>t'. strip_arrays la fuel t = Inr t' \<and> \<not> is_array_type la t'"
  using assms(2)
proof (induction fuel arbitrary: t)
  case 0
  then show ?case using type_graph_soundD(2)[OF assms(1), of t]
    by (subst strip_arrays.simps) auto
next
  case (Suc n)
  show ?case
  proof (cases "is_array_type la t")
    case True
    then have "subobject_rank la (array_element_type la t) \<le> n"
      using type_graph_soundD(2)[OF assms(1), of t] Suc.prems by linarith
    from Suc.IH[OF this] True show ?thesis by (subst strip_arrays.simps) simp
  qed (subst strip_arrays.simps, simp)
qed


subsection \<open>Pointer degrees\<close>

text \<open>\<open>pointer_chain la t n u\<close>: \<open>t\<close> is an \<open>n\<close>-fold pointer to \<open>u\<close>, which is not a pointer.\<close>

inductive pointer_chain :: "'w liballocs \<Rightarrow> uniqtype \<Rightarrow> nat \<Rightarrow> uniqtype \<Rightarrow> bool" for la where
  base: "\<not> is_pointer_type la t \<Longrightarrow> pointer_chain la t 0 t"
| ptr: "is_pointer_type la t \<Longrightarrow> pointer_chain la (pointee_type la t) n u \<Longrightarrow>
     pointer_chain la t (Suc n) u"

inductive_simps pointer_chain_zero: "pointer_chain la t 0 u"
inductive_cases pointer_chainE: "pointer_chain la t n u"

lemma pointer_chain_exists:
  assumes "type_graph_sound la"
  shows "\<exists>n u. pointer_chain la t n u"
proof (induction t rule: measure_induct_rule[where f = "pointer_rank la"])
  case (less t)
  then show ?case
    using type_graph_soundD(4)[OF assms, of t] by (cases "is_pointer_type la t") (blast intro: pointer_chain.intros)+
qed

lemma degree_loop_chain:
  assumes "pointer_chain la t n u" "type_graph_sound la" "pointer_rank la t \<le> fuel"
  shows "degree_loop la fuel d t = Inr (d + int n, u)"
  using assms
proof (induction arbitrary: fuel d rule: pointer_chain.induct)
  case (base t)
  then show ?case by (subst degree_loop.simps) simp
next
  case (ptr t n u)
  have lt: "pointer_rank la (pointee_type la t) < pointer_rank la t"
    using type_graph_soundD(4)[OF ptr.prems(1) ptr.hyps(1)] .
  then have "fuel \<noteq> 0" "pointer_rank la (pointee_type la t) \<le> fuel - 1"
    using ptr.prems(2) by linarith+
  with ptr.IH[OF ptr.prems(1), of "fuel - 1"] ptr.hyps(1) show ?case
    by (subst degree_loop.simps) simp
qed

lemma pointer_degree_and_ultimate_chain:
  "type_graph_sound la \<Longrightarrow> pointer_chain la t n u \<Longrightarrow>
     pointer_degree_and_ultimate_pointee_type la t = Inr (int n, u)"
  by (simp add: pointer_degree_and_ultimate_pointee_type_def degree_loop_chain)

lemma has_degree_loop_chain:
  assumes "pointer_chain la t n u" "type_graph_sound la"
  shows "has_degree_loop la k t = Inr (k \<le> n)"
  using assms
proof (induction arbitrary: k rule: pointer_chain.induct)
  case (base t)
  then show ?case by (cases k) simp_all
next
  case (ptr t n u)
  then show ?case using type_graph_soundD(3)[OF ptr.prems ptr.hyps(1)] by (cases k) simp_all
qed

lemma pointer_has_degree_chain:
  "type_graph_sound la \<Longrightarrow> pointer_chain la t n u \<Longrightarrow> pointer_has_degree la t d = Inr (d \<le> int n)"
  by (simp add: pointer_has_degree_def has_degree_loop_chain nat_le_iff)

lemma generic_degree_chain:
  "type_graph_sound la \<Longrightarrow> pointer_chain la t n u \<Longrightarrow>
     is_generic_pointer_type_of_degree_at_least la t d =
       Inr (if d \<le> int n \<and> is_generic_ultimate_pointee la u then int n else 0)"
  by (simp add: is_generic_pointer_type_of_degree_at_least_def pointer_degree_and_ultimate_chain)

lemma holds_pointer_of_degree_returns:
  assumes "type_graph_sound la"
  shows "\<exists>b. holds_pointer_of_degree la t d off = Inr b"
proof -
  obtain off' t' where d: "descend_fully la (subobject_rank la t) off t = Inr (off', t')"
    using descend_fully_spec[OF assms order_refl] by blast
  obtain n u where "pointer_chain la t' n u" using pointer_chain_exists[OF assms] by blast
  then show ?thesis
    using d assms by (auto simp: holds_pointer_of_degree_def pointer_has_degree_chain)
qed


subsection \<open>Members\<close>

text \<open>
  The specification of the loop, on the lists of members.  A member of the checked type that is an
  array of characters stands for everything in the object up to the offset of the checked type's next
  member, or to the end of the array if it is the last: the object's member at that place and the
  further ones that start before that offset.  Every other member has to be met by an equal one.
\<close>

definition members :: "'w liballocs \<Rightarrow> uniqtype \<Rightarrow> rel_info list" where
  "members la t = map (related la t) [0..<member_count la t]"

fun like_members :: "'w liballocs \<Rightarrow> rel_info list \<Rightarrow> rel_info list \<Rightarrow> bool" where
  "like_members la [] os \<longleftrightarrow> True"
| "like_members la (m # ms) [] \<longleftrightarrow> False"
| "like_members la (m # ms) (x # os) \<longleftrightarrow>
     (if is_char_array_member la m then
        (let target = (case ms of [] \<Rightarrow> rel_off m + pos_maxoff la (rel_ptr m) | n # _ \<Rightarrow> rel_off n)
         in like_members la ms (dropWhile (\<lambda>y. rel_off y < target) os))
      else m = x \<and> like_members la ms os)"

lemma members_drop:
  "i < member_count la t \<Longrightarrow> drop i (members la t) = related la t i # drop (Suc i) (members la t)"
  "\<not> i < member_count la t \<Longrightarrow> drop i (members la t) = []"
  by (simp_all add: members_def Cons_nth_drop_Suc[symmetric])

lemma skip_members_drop:
  "i < member_count la t \<Longrightarrow>
   drop (Suc (skip_members la t target i)) (members la t) = dropWhile (\<lambda>y. rel_off y < target) (drop (Suc i) (members la t))"
proof (induction la t target i rule: skip_members.induct)
  case (1 la t target i)
  show ?case
  proof (cases "i + 1 < member_count la t \<and> rel_off (related la t (i + 1)) < target")
    case True
    then show ?thesis using 1 by (simp add: skip_members.simps[of la t target i] members_drop(1)[of "Suc i"])
  next
    case False
    then show ?thesis
      using 1(2) by (cases "i + 1 < member_count la t")
       (auto simp: skip_members.simps[of la t target i] members_drop[of "Suc i"])
  qed
qed

lemma members_like_spec:
  "members_like la like_member test t i j =
     Inr (like_members la (drop i (members la test)) (drop j (members la t)))"
proof (induction "member_count la test - i" arbitrary: i j)
  case 0
  then show ?case by (simp add: members_drop(2)[of i] members_like.simps[of la like_member test t i j])
next
  case (Suc n)
  have i: "i < member_count la test" using Suc.hyps(2) by linarith
  have IH: "members_like la like_member test t (Suc i) j' =
      Inr (like_members la (drop (Suc i) (members la test)) (drop j' (members la t)))" for j'
    by (rule Suc.hyps(1)) (use Suc.hyps(2) in linarith)
  note unf = members_like.simps[of la like_member test t i j]
  let ?m = "related la test i" and ?k = "skip_members la t (skip_target la test i) j"
  show ?case
  proof (cases "j < member_count la t")
    case False
    then show ?thesis using i by (simp add: unf members_drop(1)[OF i] members_drop(2)[of j])
  next
    case j: True
    have target: "(case drop (Suc i) (members la test) of [] \<Rightarrow> rel_off ?m + pos_maxoff la (rel_ptr ?m)
        | n # _ \<Rightarrow> rel_off n) = skip_target la test i"
      using members_drop[of "Suc i" la test]
      by (cases "Suc i < member_count la test") (simp_all add: skip_target_def)
    have "\<not> like_members la (drop (Suc i) (members la test)) (drop (Suc ?k) (members la t))"
      if "member_count la t \<le> Suc ?k" "Suc i < member_count la test"
      using that by (simp add: members_drop(1)[of "Suc i"] members_drop(2)[of "Suc ?k"])
    moreover have "rel_off x = rel_off y \<and> rel_ptr x = rel_ptr y \<longleftrightarrow> x = y" for x y :: rel_info
      by (auto intro: rel_info.equality)
    ultimately show ?thesis
      using i j IH
      by (simp add: unf Let_def members_drop(1)[OF i] members_drop(1)[OF j] target skip_members_drop[OF j, symmetric]
          like_member_def)
  qed
qed

text \<open>Without arrays of characters, the members of the checked type are the object's first ones.\<close>

lemma like_members_prefix:
  "\<forall>m \<in> set ms. \<not> is_char_array_member la m \<Longrightarrow> like_members la ms os \<longleftrightarrow> take (length ms) os = ms"
  by (induction la ms os rule: like_members.induct) auto

text \<open>The member loops return whenever the comparison of two members does.\<close>

lemma members_like_returns:
  assumes "\<And>rt ro. \<exists>b. ok rt ro = Inr b"
  shows "\<exists>b. members_like la ok test t i_test i_obj = Inr b"
proof (induction "member_count la test - i_test" arbitrary: i_test i_obj)
  case 0
  then show ?case by (subst members_like.simps) (simp, blast)
next
  case (Suc n)
  obtain b where b: "ok (related la test i_test) (related la t i_obj) = Inr b"
    using assms by blast
  have IH: "\<And>k. \<exists>b. members_like la ok test t (i_test + 1) k = Inr b"
    using Suc.hyps by (intro Suc.hyps(1)) linarith
  show ?case
    using IH[of "i_obj + 1"] IH[of "skip_members la t (skip_target la test i_test) i_obj + 1"] b
    by (subst members_like.simps) (auto simp: Let_def)
qed

lemma like_type_returns: "\<exists>b. like_type la test t = Inr b"
  using members_like_returns[of like_member la test t 0 0]
  by (auto simp: like_type_def like_member_def)

lemma loosely_like_member_returns:
  assumes "type_graph_sound la"
  shows "\<exists>b. loosely_like_member la rt ro = Inr b"
proof -
  obtain n u where "pointer_chain la (rel_ptr rt) n u" using pointer_chain_exists[OF assms] by blast
  moreover obtain k v where "pointer_chain la (rel_ptr ro) k v"
    using pointer_chain_exists[OF assms] by blast
  ultimately show ?thesis
    using assms by (auto simp: loosely_like_member_def generic_degree_chain pointer_has_degree_chain)
qed

lemma loosely_like_type_returns:
  assumes "type_graph_sound la"
  shows "\<exists>b. loosely_like_type la test t = Inr b"
proof -
  obtain n u where "pointer_chain la test n u" using pointer_chain_exists[OF assms] by blast
  then show ?thesis
    using assms holds_pointer_of_degree_returns[OF assms, of t "int n" 0]
      members_like_returns[of "loosely_like_member la" la test t 0 0]
      loosely_like_member_returns[OF assms]
    by (auto simp: loosely_like_type_def generic_degree_chain)
qed

lemma loosely_like_loop_returns:
  assumes "type_graph_sound la" "subobject_rank la t \<le> fuel"
  shows "\<exists>r. loosely_like_loop la fuel test off t = Inr r"
  using assms(2)
proof (induction fuel arbitrary: off t)
  case 0
  then have "first_subobject_spanning la off t = None"
    using type_graph_soundD(1)[OF assms(1), of off t] by (cases "first_subobject_spanning la off t") auto
  moreover obtain b where "loosely_like_type la test t = Inr b"
    using loosely_like_type_returns[OF assms(1)] by blast
  ultimately show ?case by (subst loosely_like_loop.simps) (cases b; force)
next
  case (Suc n)
  obtain b where b: "loosely_like_type la test t = Inr b"
    using loosely_like_type_returns[OF assms(1)] by blast
  show ?case
  proof (cases "first_subobject_spanning la off t")
    case None
    then show ?thesis using b by (subst loosely_like_loop.simps) (cases b; force)
  next
    case (Some r)
    obtain off1 t1 where r: "first_subobject_spanning la off t = Some (off1, t1)"
      using Some by (cases r) auto
    have "subobject_rank la t1 \<le> n"
      using type_graph_soundD(1)[OF assms(1) r] Suc.prems by linarith
    from Suc.IH[OF this, of off1] r b show ?thesis
      by (subst loosely_like_loop.simps) (cases b; force)
  qed
qed

lemma args_refine_all:
  "args_refine la t test is \<longleftrightarrow>
     (\<forall>i \<in> set is. would_always_succeed la (rel_ptr (related la test i)) (rel_ptr (related la t i)))"
  by (induction "is") auto

text \<open>The example liballocs has finite type hierarchies.\<close>

lemma ex_la_type_graph_sound: "type_graph_sound ex_la"
  unfolding type_graph_sound_def by (auto simp: ex_la_def ex_sub_def split: if_split_asm)



end
