(* ===== verification/Pointer_Store.thy ===== *)
theory Pointer_Store
  imports Runtime Type_Relations Bounds_Stack
begin

text \<open>
  Storing pointers to memory: \<^verbatim>\<open>__store_pointer_nonlocal\<close> of \<^verbatim>\<open>include/libcrunch_cil_inlines.h\<close>
  records the bounds of a stored pointer in the shadow space, fetching them first if the program
  does not have them; \<^verbatim>\<open>__store_pointer_nonlocal_via_voidptrptr\<close> of \<^verbatim>\<open>src/libcrunch.c\<close> does the
  same for a store through a \<^verbatim>\<open>void **\<close>, where the type of the target is not known statically and the
  cache is asked.  The lemmas show that a load finds the bounds that were stored, and that a store
  never leaves the bounds of an earlier pointer behind.
\<close>

definition count_ptr_store :: "config \<Rightarrow> 'w crunch \<Rightarrow> 'w crunch" where
  "count_ptr_store c st =
     (if keep_expensive_counts c then st\<lparr> cnt_ptr_stores := cnt_ptr_stores st + 1 \<rparr> else st)"

text \<open>The bounds to store: fetched out of line where the given ones are invalid.\<close>

definition bounds_for_store ::
  "config \<Rightarrow> 'w runtime \<Rightarrow> addr \<Rightarrow> bounds \<Rightarrow> uniqtype \<Rightarrow> 'w crunch \<Rightarrow> (bounds \<times> 'w crunch) outcome" where
  "bounds_for_store c rt val val_bounds val_pointee_type st =
     (if libcrunch_bounds_invalid c val_bounds val \<and> \<not> no_pointer_type_info c
      then obind (if val \<noteq> 0 then rt_fetch_bounds_ool rt val val val_pointee_type st
                  else Inr (make_bounds c 0 1, st)) (\<lambda>(b, st).
             if libcrunch_bounds_invalid c b val then Inl Unreachable else Inr (b, st))
      else Inr (val_bounds, st))"

definition store_pointer_nonlocal ::
  "config \<Rightarrow> 'w runtime \<Rightarrow> addr \<Rightarrow> addr \<Rightarrow> bounds \<Rightarrow> uniqtype \<Rightarrow> 'w crunch \<Rightarrow> 'w crunch outcome" where
  "store_pointer_nonlocal c rt dest val val_bounds val_pointee_type st0 =
     (let st = count_ptr_store c st0
      in if no_shadow_space c then Inr st
         else (let existing_shadow_bounds_valid =
                     load32 (memory st) (libcrunch_size_stored_loc dest) \<noteq> 0
               in omap (\<lambda>(b, st).
                    if \<not> libcrunch_bounds_invalid c b val \<or> existing_shadow_bounds_valid
                    then st\<lparr> memory := shadow_store_bounds_for c (memory st) dest b val_pointee_type \<rparr>
                    else st)
                  (bounds_for_store c rt val val_bounds val_pointee_type st)))"

text \<open>
  The pointer type at the target according to the cache, 0 if it is not known to be one.
\<close>

definition cached_target_pointer_type :: "'w liballocs \<Rightarrow> addr \<Rightarrow> 'w crunch \<Rightarrow> uniqtype outcome" where
  "cached_target_pointer_type la dest st =
     (let t = get_cached_object_type la (world st) dest
      in if t = 0 then Inr 0
         else omap (\<lambda>(_, t'). if is_pointer_type la t' then t' else 0)
                (descend_fully la (subobject_rank la t) 0 t))"

text \<open>
  The out-of-line store.  The source also peeks at the bounds of \<^verbatim>\<open>dest\<close> on the bounds stack, and
  does not use them.
\<close>

definition store_pointer_nonlocal_via_voidptrptr ::
  "config \<Rightarrow> 'w liballocs \<Rightarrow> addr \<Rightarrow> addr \<Rightarrow> bounds \<Rightarrow> uniqtype \<Rightarrow> 'w crunch \<Rightarrow> 'w crunch outcome" where
  "store_pointer_nonlocal_via_voidptrptr c la dest srcval val_bounds static_guess st0 =
     (let st = count_ptr_store c st0
      in if no_shadow_space c then Inr st
         else obind (cached_target_pointer_type la dest st) (\<lambda>target_t.
           if target_t \<noteq> 0 then
             (let guess = (if static_guess = 0 then get_cached_object_type la (world st) srcval
                           else static_guess);
                  pointee = pointee_type la target_t
              in if guess = 0 \<or> pointee = uniqtype_void la \<or> pointee = uniqtype_signed_char la
                    \<or> pointee = uniqtype_unsigned_char la \<or> pointee = guess
                 then store_pointer_nonlocal c (real_runtime c la) dest srcval val_bounds pointee st
                 else Inl Aborted)
           else Inr (st\<lparr> memory := shadow_store_bounds_for c (memory st) dest
                              (libcrunch_make_invalid_bounds c srcval) 0 \<rparr>)))"


subsection \<open>What a store leaves in the shadow space\<close>

text \<open>
  \<open>records c dest val b st\<close>: a load of \<open>val\<close> from \<open>dest\<close> finds the bounds \<open>b\<close>, if they can be
  represented.
\<close>

definition records :: "config \<Rightarrow> addr \<Rightarrow> addr \<Rightarrow> uniqtype \<Rightarrow> bounds \<Rightarrow> 'w crunch \<Rightarrow> bool" where
  "records c dest val t b st \<longleftrightarrow>
     (representable c b \<longrightarrow> fetch_bounds_inl c (memory st) val dest t = b)"

lemma records_store:
  assumes "has_shadow_space c" "val \<noteq> 0" "t \<noteq> 0" "shadow_slot dest"
  shows "records c dest val u b (st\<lparr> memory := shadow_store_bounds_for c m dest b t \<rparr>)"
  using assms by (simp add: records_def fetch_bounds_inl_def fetch_store_same)

lemma count_ptr_store_simps [simp]:
  "memory (count_ptr_store c st) = memory st" "world (count_ptr_store c st) = world st"
  "is_initialized (count_ptr_store c st) = is_initialized st"
  by (simp_all add: count_ptr_store_def)

context bounds_supplier
begin

lemma bounds_for_store_returns:
  assumes "\<not> no_pointer_type_info c" "val \<noteq> 0" "answerable val t st"
  shows "\<exists>b st'. bounds_for_store c rt val vb t st = Inr (b, st') \<and> \<not> libcrunch_bounds_invalid c b val
    \<and> (\<not> libcrunch_bounds_invalid c vb val \<longrightarrow> b = vb \<and> st' = st)"
  using supplies[OF assms(3), of val] assms(1,2)
  by (auto simp: bounds_for_store_def fetch_bounds_ool_to_use_def)

lemma store_records:
  assumes "has_shadow_space c" "\<not> no_pointer_type_info c" "val \<noteq> 0" "t \<noteq> 0" "shadow_slot dest"
    and "answerable val t (count_ptr_store c st)"
  shows "\<exists>b st'. store_pointer_nonlocal c rt dest val vb t st = Inr st'
    \<and> \<not> libcrunch_bounds_invalid c b val \<and> (\<not> libcrunch_bounds_invalid c vb val \<longrightarrow> b = vb)
    \<and> records c dest val u b st'"
proof -
  obtain b st1 where b: "bounds_for_store c rt val vb t (count_ptr_store c st) = Inr (b, st1)"
      "\<not> libcrunch_bounds_invalid c b val" "\<not> libcrunch_bounds_invalid c vb val \<longrightarrow> b = vb"
    using bounds_for_store_returns[OF assms(2,3,6), of vb] by auto
  have "\<not> no_shadow_space c" using assms(1) by (simp add: has_shadow_space_def)
  then have "store_pointer_nonlocal c rt dest val vb t st =
      Inr (st1\<lparr> memory := shadow_store_bounds_for c (memory st1) dest b t \<rparr>)"
    using b(1,2) by (simp add: store_pointer_nonlocal_def)
  with b(2,3) records_store[OF assms(1,3,4,5)] show ?thesis by blast
qed

end

text \<open>
  A stored pointer keeps its bounds.  After a non-null pointer is stored to a slot whose shadow is
  mapped, with either library linked, a load of it from there finds valid bounds: the ones the
  program had, if those were valid, and otherwise the ones that the out-of-line query gave, in each
  case provided that they fit the shadow space.
\<close>

theorem stored_pointer_keeps_bounds:
  assumes "has_shadow_space c" "\<not> no_pointer_type_info c" "val \<noteq> 0" "t \<noteq> 0" "shadow_slot dest"
    and "rt = real_runtime c la \<and> real_answerable c la val t st \<or> rt = stub_runtime c \<and> long_config c"
  shows "\<exists>b st'. store_pointer_nonlocal c rt dest val vb t st = Inr st'
    \<and> \<not> libcrunch_bounds_invalid c b val \<and> (\<not> libcrunch_bounds_invalid c vb val \<longrightarrow> b = vb)
    \<and> (representable c b \<longrightarrow> fetch_bounds_inl c (memory st') val dest u = b)"
  using assms(6)
proof (elim disjE conjE)
  assume "rt = real_runtime c la" "real_answerable c la val t st"
  then show ?thesis
    using real.store_records[OF assms(1-5), where la = la and st = st and vb = vb and u = u] by (simp add: real_answerable_def records_def)
next
  assume "rt = stub_runtime c" "long_config c"
  then show ?thesis
    using stub.store_records[OF assms(1-5), where st = st and vb = vb and u = u] by (simp add: records_def)
qed

theorem stored_pointer_keeps_bounds_witness:
  "\<exists>b st'. store_pointer_nonlocal config_m (stub_runtime config_m) 0x1000 0x2004
       \<lparr> bnd_base = 0x2000, bnd_size = 16 \<rparr> ex_int ex_st = Inr st'
    \<and> fetch_bounds_inl config_m (memory st') 0x2004 0x1000 ex_int = \<lparr> bnd_base = 0x2000, bnd_size = 16 \<rparr>"
proof -
  let ?b = "\<lparr> bnd_base = 0x2000, bnd_size = 16 \<rparr>"
  have "representable config_m ?b" "\<not> libcrunch_bounds_invalid config_m ?b 0x2004"
    by (simp_all add: representable_def size_survives_def config_defs bounds_defs)
  moreover have "has_shadow_space config_m" "\<not> no_pointer_type_info config_m" "long_config config_m"
    by (simp_all add: config_defs has_shadow_space_def long_config_def)
  moreover have "shadow_slot 0x1000"
    by (simp add: shadow_slot_def in_regions_def user_ranges_def unshadowed_gaps_def)
  ultimately show ?thesis
    using stored_pointer_keeps_bounds[of config_m "0x2004" ex_int "0x1000" "stub_runtime config_m" ex_la ex_st
        ?b ex_int] by auto
qed

text \<open>The two ways of a store through \<^verbatim>\<open>void **\<close>: the type of the target is not in the cache, or it is.\<close>

lemma cached_target_returns:
  assumes "type_graph_sound la"
  shows "\<exists>target. cached_target_pointer_type la dest st = Inr target \<and> (target \<noteq> 0 \<longrightarrow> is_pointer_type la target)"
  using descend_fully_spec[OF assms order_refl, of "get_cached_object_type la (world st) dest" 0]
  by (cases "get_cached_object_type la (world st) dest = 0") (fastforce simp: cached_target_pointer_type_def)+

lemma void_store_unknown_target:
  assumes "has_shadow_space c" "srcval \<noteq> 0" "shadow_slot dest" "long_config c"
    and "cached_target_pointer_type la dest (count_ptr_store c st) = Inr 0"
  shows "\<exists>b st'. store_pointer_nonlocal_via_voidptrptr c la dest srcval vb guess st = Inr st'
    \<and> records c dest srcval u b st' \<and> libcrunch_bounds_invalid c b srcval"
proof -
  let ?st = "count_ptr_store c st" and ?b = "libcrunch_make_invalid_bounds c (load64 (memory st) dest)"
  have ns: "\<not> no_shadow_space c" using assms(1) by (simp add: has_shadow_space_def)
  have rep: "representable c ?b"
    using assms(4) by (simp add: representable_def size_survives_def long_config_def bounds_defs member_base_def)
  have "shadow_store_bounds_for c (memory st) dest (libcrunch_make_invalid_bounds c srcval) 0
      = shadow_store_bounds_for c (memory st) dest ?b 1"
    by (simp add: shadow_store_bounds_for_def)
  then have "store_pointer_nonlocal_via_voidptrptr c la dest srcval vb guess st =
      Inr (?st\<lparr> memory := shadow_store_bounds_for c (memory st) dest ?b 1 \<rparr>)"
    using ns assms(5) by (simp add: store_pointer_nonlocal_via_voidptrptr_def)
  moreover have "libcrunch_bounds_invalid c ?b srcval"
    by (simp add: libcrunch_bounds_invalid_def libcrunch_make_invalid_bounds_def)
  moreover have "records c dest srcval u ?b (?st\<lparr> memory := shadow_store_bounds_for c (memory st) dest ?b 1 \<rparr>)"
    by (rule records_store[OF assms(1,2) one_neq_zero assms(3)])
  ultimately show ?thesis by blast
qed

lemma void_store_known_target:
  assumes "has_shadow_space c" "\<not> no_pointer_type_info c" "srcval \<noteq> 0" "shadow_slot dest" "pt \<noteq> 0"
    and "real_answerable c la srcval pt (count_ptr_store c (count_ptr_store c st))"
    and "cached_target_pointer_type la dest (count_ptr_store c st) = Inr target" "target \<noteq> 0"
    and "pt = pointee_type la target"
  shows "store_pointer_nonlocal_via_voidptrptr c la dest srcval vb guess st = Inl Aborted
    \<or> (\<exists>b st' st1. store_pointer_nonlocal_via_voidptrptr c la dest srcval vb guess st = Inr st'
        \<and> records c dest srcval u b st'
        \<and> (b = vb \<or> fetch_bounds_ool c la srcval srcval pt (count_ptr_store c (count_ptr_store c st)) = Inr (b, st1)))"
proof -
  let ?st = "count_ptr_store c st" and ?rt = "real_runtime c la"
  have ns: "\<not> no_shadow_space c" using assms(1) by (simp add: has_shadow_space_def)
  obtain b st1 where b: "bounds_for_store c ?rt srcval vb pt (count_ptr_store c ?st) = Inr (b, st1)"
      "\<not> libcrunch_bounds_invalid c b srcval"
    using real.bounds_for_store_returns[OF assms(2,3,6)] by blast
  then have store: "store_pointer_nonlocal c ?rt dest srcval vb pt ?st =
      Inr (st1\<lparr> memory := shadow_store_bounds_for c (memory st1) dest b pt \<rparr>)"
    using ns by (simp add: store_pointer_nonlocal_def)
  have "b = vb \<or> fetch_bounds_ool c la srcval srcval pt (count_ptr_store c ?st) = Inr (b, st1)"
    using b(1) assms(3) by (auto simp: bounds_for_store_def real_runtime_def split: if_split_asm)
  moreover have "store_pointer_nonlocal_via_voidptrptr c la dest srcval vb guess st
      \<in> {Inl Aborted, store_pointer_nonlocal c ?rt dest srcval vb pt ?st}"
    using ns assms(7-9) by (simp add: store_pointer_nonlocal_via_voidptrptr_def Let_def)
  moreover have "records c dest srcval u b (st1\<lparr> memory := shadow_store_bounds_for c (memory st1) dest b pt \<rparr>)"
    using records_store[OF assms(1,3,5,4)] .
  ultimately show ?thesis using store by auto
qed



end
