(* ===== verification/Fault_Handler.thy ===== *)
theory Fault_Handler
  imports Derive_Check
begin

text \<open>
  The fault handler of \<^verbatim>\<open>src/libcrunch.c\<close>.  A dereference of a trap pointer faults; the handler has
  the faulting instruction decoded, removes the tag from the registers that its memory operands were
  computed from, and resumes.  The registers are a function; the decoder of libsystrap
  (\<^verbatim>\<open>enumerate_operands\<close>) is a parameter that gives the operands of the instruction at an address, in
  order.  The messages on the standard error stream are the subject of \<open>Fault_Messages\<close>.
\<close>

datatype greg = RAX | RDX | RCX | RBX | RSI | RDI | RBP | RSP | R8 | R9 | R10 | R11 | R12 | R13
  | R14 | R15 | RIP

type_synonym gregs = "greg \<Rightarrow> u64"

text \<open>The enumeration of DWARF register numbers.\<close>

primrec dwarf_x86_64 :: "greg \<Rightarrow> int" where
  "dwarf_x86_64 RAX = 0"
| "dwarf_x86_64 RDX = 1"
| "dwarf_x86_64 RCX = 2"
| "dwarf_x86_64 RBX = 3"
| "dwarf_x86_64 RSI = 4"
| "dwarf_x86_64 RDI = 5"
| "dwarf_x86_64 RBP = 6"
| "dwarf_x86_64 RSP = 7"
| "dwarf_x86_64 R8 = 8"
| "dwarf_x86_64 R9 = 9"
| "dwarf_x86_64 R10 = 10"
| "dwarf_x86_64 R11 = 11"
| "dwarf_x86_64 R12 = 12"
| "dwarf_x86_64 R13 = 13"
| "dwarf_x86_64 R14 = 14"
| "dwarf_x86_64 R15 = 15"
| "dwarf_x86_64 RIP = 16"

text \<open>The registers that the switch of \<^verbatim>\<open>try_register_fixup\<close> has a case for.\<close>

definition fixup_regs :: "greg list" where
  "fixup_regs = [R15, R14, R13, R12, RBP, RBX, R11, R10, R9, R8, RAX, RCX, RDX, RSI, RDI, RIP]"

definition saved_register :: "int \<Rightarrow> greg option" where
  "saved_register regnum = find (\<lambda>r. dwarf_x86_64 r = regnum) fixup_regs"

text \<open>The shifts are on \<^verbatim>\<open>uintptr_t\<close>, so no sign is extended.\<close>

definition try_register_fixup :: "int \<Rightarrow> gregs \<times> 'w crunch \<Rightarrow> gregs \<times> 'w crunch" where
  "try_register_fixup regnum = (\<lambda>(regs, st).
     case saved_register regnum of None \<Rightarrow> (regs, st)
     | Some r \<Rightarrow>
         (let v = regs r; tag = drop_bit TRAP_TAG_SHIFT v
          in if tag = 1 \<or> tag = 2 \<or> tag = 3
             then (regs(r := drop_bit (64 - TRAP_TAG_SHIFT) (push_bit (64 - TRAP_TAG_SHIFT) v)),
                   st\<lparr> did_fixup := True \<rparr>)
             else (regs, st)))"

text \<open>An operand as the decoder reports it; type 1 is a memory operand, register -1 is unknown.\<close>

record operand =
  op_type :: int
  op_fromreg1 :: "int option"
  op_fromreg2 :: "int option"

definition fixup_from :: "int option \<Rightarrow> gregs \<times> 'w crunch \<Rightarrow> gregs \<times> 'w crunch" where
  "fixup_from p_fromreg s = (case p_fromreg of None \<Rightarrow> s
     | Some r \<Rightarrow> if r \<noteq> -1 then try_register_fixup r s else s)"

definition saw_operand_cb :: "operand \<Rightarrow> gregs \<times> 'w crunch \<Rightarrow> gregs \<times> 'w crunch" where
  "saw_operand_cb op s =
     (if op_type op \<noteq> 1 then s
      else if op_fromreg1 op = None \<and> op_fromreg2 op = None then s
      else fixup_from (op_fromreg2 op) (fixup_from (op_fromreg1 op) s))"

definition handle_sigbus :: "'w crunch \<Rightarrow> 'w crunch outcome" where
  "handle_sigbus st = Inl Exited"

definition handle_sigsegv ::
  "(addr \<Rightarrow> operand list) \<Rightarrow> gregs \<Rightarrow> 'w crunch \<Rightarrow> (gregs \<times> 'w crunch) outcome" where
  "handle_sigsegv operands_at regs st =
     (case fold saw_operand_cb (operands_at (regs RIP)) (regs, st\<lparr> did_fixup := False \<rparr>) of
        (regs', st') \<Rightarrow>
          if did_fixup st'
          then Inr (regs', st'\<lparr> cnt_fault_handler_fixups := cnt_fault_handler_fixups st' + 1,
                                did_fixup := False \<rparr>)
          else Inl Exited)"


subsection \<open>What the handler repairs\<close>

text \<open>
  The abstract view: the registers that memory operands name, the values that are taken for trap
  pointers, and the registers with the tags removed.
\<close>

definition named_regs :: "operand list \<Rightarrow> greg set" where
  "named_regs ops = {r \<in> set fixup_regs. \<exists>op \<in> set ops. op_type op = 1
     \<and> (op_fromreg1 op = Some (dwarf_x86_64 r) \<or> op_fromreg2 op = Some (dwarf_x86_64 r))}"

definition tagged :: "u64 \<Rightarrow> bool" where
  "tagged v \<longleftrightarrow> drop_bit TRAP_TAG_SHIFT v \<in> {1, 2, 3}"

definition untag_regs :: "greg set \<Rightarrow> gregs \<Rightarrow> gregs" where
  "untag_regs rs regs = (\<lambda>r. if r \<in> rs \<and> tagged (regs r) then take_bit TRAP_TAG_SHIFT (regs r) else regs r)"

lemma dwarf_inj: "dwarf_x86_64 r = dwarf_x86_64 s \<Longrightarrow> r = s"
  by (cases r; cases s) simp_all

lemma dwarf_not_unknown: "dwarf_x86_64 r \<noteq> -1"
  by (cases r) simp_all

lemma saved_register_eq:
  "saved_register n = Some r \<longleftrightarrow> r \<in> set fixup_regs \<and> dwarf_x86_64 r = n"
proof
  assume "saved_register n = Some r"
  then show "r \<in> set fixup_regs \<and> dwarf_x86_64 r = n"
    by (auto simp: saved_register_def find_Some_iff)
next
  assume a: "r \<in> set fixup_regs \<and> dwarf_x86_64 r = n"
  then obtain s where "saved_register n = Some s"
    by (cases "saved_register n") (auto simp: saved_register_def find_None_iff)
  moreover from this have "dwarf_x86_64 s = n"
    by (auto simp: saved_register_def find_Some_iff)
  ultimately show "saved_register n = Some r" using a dwarf_inj by blast
qed

lemma shl_shr_take_bit: "drop_bit (64 - 49) (push_bit (64 - 49) (v :: u64)) = take_bit 49 v"
  by (rule bit_word_eqI) (auto simp: bit_simps)

lemma not_tagged_take_bit [simp]: "\<not> tagged (take_bit 49 v)"
proof -
  have "drop_bit 49 (take_bit 49 v) = (0 :: u64)"
    by (rule bit_word_eqI) (auto simp: bit_simps)
  then show ?thesis by (simp add: tagged_def)
qed

lemma untag_regs_twice: "untag_regs rs (untag_regs qs regs) = untag_regs (qs \<union> rs) regs"
  by (auto simp: untag_regs_def)

definition fixed_up :: "greg set \<Rightarrow> gregs \<times> 'w crunch \<Rightarrow> gregs \<times> 'w crunch" where
  "fixed_up rs = (\<lambda>(regs, st). (untag_regs rs regs,
     st\<lparr> did_fixup := (did_fixup st \<or> (\<exists>r \<in> rs. tagged (regs r))) \<rparr>))"

lemma fixed_up_none [simp]: "fixed_up {} s = s"
  by (cases s) (simp add: fixed_up_def untag_regs_def)

lemma fixed_up_twice: "fixed_up rs (fixed_up qs s) = fixed_up (qs \<union> rs) s"
proof -
  obtain regs st where s: "s = (regs, st)" by (cases s)
  have "(\<exists>r \<in> qs. tagged (regs r)) \<or> (\<exists>r \<in> rs. tagged (untag_regs qs regs r))
      \<longleftrightarrow> (\<exists>r \<in> qs \<union> rs. tagged (regs r))"
    by (auto simp: untag_regs_def)
  then show ?thesis by (simp add: s fixed_up_def untag_regs_twice disj_assoc)
qed

definition regs_numbered :: "int option \<Rightarrow> greg set" where
  "regs_numbered n = {r \<in> set fixup_regs. n = Some (dwarf_x86_64 r)}"

lemma try_register_fixup_fixed_up: "try_register_fixup n s = fixed_up (regs_numbered (Some n)) s"
proof -
  obtain regs st where s: "s = (regs, st)" by (cases s)
  show ?thesis
  proof (cases "saved_register n")
    case None
    then have "regs_numbered (Some n) = {}"
      by (auto simp: regs_numbered_def dest!: saved_register_eq[THEN iffD2, OF conjI[OF _ refl]])
    then show ?thesis using None s by (simp add: try_register_fixup_def)
  next
    case (Some r)
    then have "regs_numbered (Some n) = {r}"
      using saved_register_eq[of n] by (auto simp: regs_numbered_def dest: dwarf_inj)
    then show ?thesis
      using Some s
      by (auto simp: try_register_fixup_def fixed_up_def untag_regs_def tagged_def Let_def
          shl_shr_take_bit[simplified] fun_eq_iff)
  qed
qed

lemma fixup_from_fixed_up: "fixup_from n s = fixed_up (regs_numbered n) s"
proof (cases n)
  case (Some k)
  moreover have "regs_numbered (Some (-1)) = {}"
    using dwarf_not_unknown by (auto simp: regs_numbered_def simp flip: dwarf_not_unknown) metis
  ultimately show ?thesis by (simp add: fixup_from_def try_register_fixup_fixed_up)
qed (simp add: fixup_from_def regs_numbered_def)

lemma saw_operand_cb_fixed_up: "saw_operand_cb op s = fixed_up (named_regs [op]) s"
proof -
  have "named_regs [op] =
      (if op_type op = 1 then regs_numbered (op_fromreg1 op) \<union> regs_numbered (op_fromreg2 op) else {})"
    by (auto simp: named_regs_def regs_numbered_def)
  moreover have "regs_numbered None = {}" by (simp add: regs_numbered_def)
  ultimately show ?thesis
    by (auto simp: saw_operand_cb_def fixup_from_fixed_up fixed_up_twice)
qed

lemma operands_fixed_up: "fold saw_operand_cb ops s = fixed_up (named_regs ops) s"
proof (induction ops arbitrary: s)
  case Nil
  then show ?case by (simp add: named_regs_def)
next
  case (Cons op ops)
  have "named_regs [op] \<union> named_regs ops = named_regs (op # ops)" by (auto simp: named_regs_def)
  then show ?case
    using Cons.IH[of "saw_operand_cb op s"] by (simp only: fold_simps saw_operand_cb_fixed_up fixed_up_twice)
qed

text \<open>
  (C14) The fault handler removes exactly the tags that caused the fault.  If some memory operand of the
  faulting instruction was computed from a register, other than the stack pointer, that holds a
  tagged value, the program resumes with the tags removed from all such registers, every other
  register as it was, and one more recovery counted; otherwise the program is terminated.
\<close>

theorem fault_handler_untags:
  fixes st :: "'w crunch"
  shows "handle_sigsegv operands_at regs st =
     (if \<exists>r \<in> named_regs (operands_at (regs RIP)). tagged (regs r)
      then Inr (untag_regs (named_regs (operands_at (regs RIP))) regs,
                st\<lparr> cnt_fault_handler_fixups := cnt_fault_handler_fixups st + 1, did_fixup := False \<rparr>)
      else Inl Exited)"
  by (simp add: handle_sigsegv_def operands_fixed_up fixed_up_def)

lemma tagged_trap:
  assumes "traps_on c" "user_ptr p" "tag = TRAP_ONE_PAST \<or> tag = TRAP_ONE_BEFORE \<or> tag = TRAP_INVALID"
  shows "tagged (libcrunch_trap c p tag)" "take_bit 49 (libcrunch_trap c p tag) = p"
proof -
  have p: "\<And>k. 48 \<le> k \<Longrightarrow> \<not> bit p k"
    using assms(2) bit_small_u64[of p 48] by (simp add: user_ptr_def)
  have t: "libcrunch_trap c p tag = p XOR push_bit 49 (ucast tag)"
    using assms(1) by (simp add: libcrunch_trap_def traps_on_def)
  have "drop_bit 49 p = 0" by (rule bit_word_eqI) (auto simp: bit_simps p)
  then have "drop_bit 49 (libcrunch_trap c p tag) = drop_bit 49 (push_bit 49 (ucast tag) :: u64)"
    by (simp add: t drop_bit_xor)
  then show "tagged (libcrunch_trap c p tag)"
    using assms(3) by (auto simp: tagged_def)
  show "take_bit 49 (libcrunch_trap c p tag) = p"
  proof (unfold t, rule bit_word_eqI)
    fix k assume "k < LENGTH(64)"
    show "bit (take_bit 49 (p XOR push_bit 49 (ucast tag))) k = bit p k"
      using p[of k] by (cases "k < 49") (auto simp: bit_simps)
  qed
qed

text \<open>
  A dereference of a trap pointer is repaired.  If the faulting instruction addresses memory
  through a register (not the stack pointer) that holds a user address with any of the three tags,
  the program resumes with the plain address in that register.
\<close>

theorem trapped_dereference_resumes:
  assumes "traps_on c" "user_ptr p" "tag = TRAP_ONE_PAST \<or> tag = TRAP_ONE_BEFORE \<or> tag = TRAP_INVALID"
    and "r \<in> named_regs (operands_at (regs RIP))" "regs r = libcrunch_trap c p tag"
  shows "\<exists>regs' st'. handle_sigsegv operands_at regs st = Inr (regs', st') \<and> regs' r = p
     \<and> cnt_fault_handler_fixups st' = cnt_fault_handler_fixups st + 1"
proof -
  have "tagged (regs r)" "take_bit 49 (regs r) = p" using tagged_trap[OF assms(1-3)] assms(5) by simp_all
  with assms(4) show ?thesis
    by (auto simp: handle_sigsegv_def operands_fixed_up fixed_up_def untag_regs_def)
qed

theorem trapped_dereference_resumes_witness:
  "\<exists>regs' st'. handle_sigsegv (\<lambda>a. [\<lparr> op_type = 1, op_fromreg1 = Some 0, op_fromreg2 = None \<rparr>])
       (\<lambda>r. if r = RAX then libcrunch_trap config_m 0x1028 TRAP_ONE_PAST else 0x401000) ex_st
     = Inr (regs', st') \<and> regs' RAX = 0x1028 \<and> cnt_fault_handler_fixups st' = 1"
proof -
  have "RAX \<in> named_regs [\<lparr> op_type = 1, op_fromreg1 = Some 0, op_fromreg2 = None \<rparr>]"
    by (simp add: named_regs_def fixup_regs_def)
  moreover have "traps_on config_m" "user_ptr 0x1028" "cnt_fault_handler_fixups ex_st = 0"
    by (simp_all add: traps_on_def user_ptr_def config_defs ex_st_def initial_crunch_def)
  ultimately show ?thesis
    using trapped_dereference_resumes[of config_m "0x1028" TRAP_ONE_PAST RAX
        "\<lambda>a. [\<lparr> op_type = 1, op_fromreg1 = Some 0, op_fromreg2 = None \<rparr>]"
        "\<lambda>r. if r = RAX then libcrunch_trap config_m 0x1028 TRAP_ONE_PAST else 0x401000" ex_st]
    by simp
qed

end
