(* ===== verification/Shadow_Init.thy ===== *)
theory Shadow_Init
  imports Bounds_Stack
begin

text \<open>
  Setting up the shadow space (\<^verbatim>\<open>src/shadow.c\<close>): the constructor that checks the existing mappings,
  maps the shadow regions and fills in the bounds of the program's arguments, its environment and
  the C library's pointers; and the hook that steers later \<^verbatim>\<open>mmap\<close> calls to addresses that have a
  shadow.  The kernel, the dynamic linker and the C library's variables are the fields of the record
  \<open>environ\<close>.  The state is the library's, with the constructor's own globals.
\<close>

datatype region_id = Bases00 | Bases2a | Bases55 | Bases7a | Sizes00 | Sizes2a | Sizes55 | Sizes7a

text \<open>What a region is filled with: anonymous memory, or the \<^verbatim>\<open>/dev/ones\<close> device.\<close>

datatype backing = Zeros | Ones

record 'w shadow_state =
  lib :: "'w crunch"
  first_2a_free :: addr
  first_30_free :: addr
  bounds_region :: "region_id \<Rightarrow> addr"
  mapped :: "(addr \<times> addr) list"

text \<open>The limits of the argument and environment vectors (\<^verbatim>\<open>struct auxv_limits\<close>).\<close>

record auxv_limits =
  argv_vector_start :: addr
  argv_vector_terminator :: addr
  env_vector_start :: addr
  env_vector_terminator :: addr

text \<open>
  \<open>mmap_fixed\<close> gives what \<^verbatim>\<open>mmap\<close> with \<^verbatim>\<open>MAP_FIXED\<close> returns for a base and a size; \<open>mmap_stack\<close> what
  the allocation of the bounds stack returns; \<open>maps_entries\<close> the lines of \<^verbatim>\<open>/proc/self/maps\<close>, \<open>None\<close>
  if it cannot be opened; \<open>cb_result\<close> what is left as the result of \<^verbatim>\<open>check_maps_cb\<close>, which has none of
  its own, after an entry; \<open>really_loaded\<close> whether the preloaded library is there; \<open>dev_ones_opens\<close>
  whether \<^verbatim>\<open>/dev/ones\<close> can be opened; \<open>string_limit\<close> bounds the lengths of the strings that the kernel
  passes to a program.
\<close>

record environ =
  mmap_stack :: addr
  mmap_fixed :: "addr \<Rightarrow> u64 \<Rightarrow> addr"
  maps_entries :: "(addr \<times> addr) list option"
  cb_result :: "addr \<times> addr \<Rightarrow> int"
  really_loaded :: bool
  dev_ones_opens :: bool
  auxv :: "auxv_limits option"
  string_limit :: nat
  main_addr :: addr
  environ_loc :: addr
  stdio_locs :: "addr list"
  sizeof_FILE :: u32
  ctype_b_loc :: addr
  ctype_toupper_loc :: addr
  ctype_tolower_loc :: addr

definition is_in_range :: "addr \<Rightarrow> addr \<Rightarrow> addr \<Rightarrow> addr \<Rightarrow> bool" where
  "is_in_range range_start range_lastbyte mapping_start mapping_lastbyte \<longleftrightarrow>
     mapping_start \<ge> range_start \<and> mapping_lastbyte \<le> range_lastbyte"

definition in_2a_range :: "addr \<Rightarrow> addr \<Rightarrow> bool" where
  "in_2a_range first_byte last_byte \<longleftrightarrow>
     is_in_range 0x2aaaaaaab000 0x2fffffffffff first_byte last_byte"

definition acceptable_mapping :: "addr \<Rightarrow> addr \<Rightarrow> bool" where
  "acceptable_mapping fst_byte lst_byte \<longleftrightarrow>
     is_in_range 0x000000000000 0x055555555554 fst_byte lst_byte
     \<or> is_in_range 0x2aaaaaaab000 0x2fffffffffff fst_byte lst_byte
     \<or> is_in_range 0x555555556000 0x565555556000 fst_byte lst_byte
     \<or> is_in_range 0x7aaaaaaab000 0x7fffffffffff fst_byte lst_byte
     \<or> is_in_range 0xffffffff80000000 0xffffffffffffffff fst_byte lst_byte
     \<or> is_in_range 0x300000000000 0x4fffffffffff fst_byte lst_byte"

text \<open>Raising \<^verbatim>\<open>first_2a_free\<close> to the end of a mapping.\<close>

definition note_2a_mapping :: "addr \<Rightarrow> 'w shadow_state \<Rightarrow> 'w shadow_state" where
  "note_2a_mapping limit s =
     (if first_2a_free s = 0 \<or> limit > first_2a_free s then s\<lparr> first_2a_free := limit \<rparr> else s)"

text \<open>
  The callback is declared to return an \<^verbatim>\<open>int\<close> but ends without a \<^verbatim>\<open>return\<close> statement; its caller goes on
  with the next entry only if the result is zero.
\<close>

definition check_maps_cb ::
  "environ \<Rightarrow> addr \<times> addr \<Rightarrow> 'w shadow_state \<Rightarrow> (int \<times> 'w shadow_state) outcome" where
  "check_maps_cb env ent s =
     (case ent of (first_byte, second) \<Rightarrow>
        let s1 = (if in_2a_range first_byte (second - 1) then note_2a_mapping second s else s)
        in if acceptable_mapping first_byte (second - 1) then Inr (cb_result env ent, s1)
           else Inl Aborted)"

fun check_maps :: "environ \<Rightarrow> (addr \<times> addr) list \<Rightarrow> 'w shadow_state \<Rightarrow> 'w shadow_state outcome" where
  "check_maps env [] s = Inr s"
| "check_maps env (ent # ents) s =
     obind (check_maps_cb env ent s) (\<lambda>(ret, s). if ret \<noteq> 0 then Inr s else check_maps env ents s)"

text \<open>
  One \<^verbatim>\<open>mmap\<close> of the constructor with the test that follows it.  The pages of the new mapping read as
  its backing.
\<close>

definition fill_memory :: "mem \<Rightarrow> addr \<Rightarrow> addr \<Rightarrow> backing \<Rightarrow> mem" where
  "fill_memory m base limit b =
     (\<lambda>a. if base \<le> a \<and> a < limit then (case b of Zeros \<Rightarrow> 0 | Ones \<Rightarrow> -1) else m a)"

definition map_region ::
  "environ \<Rightarrow> region_id \<Rightarrow> addr \<times> addr \<Rightarrow> backing \<Rightarrow> 'w shadow_state \<Rightarrow> 'w shadow_state outcome" where
  "map_region env rid r b s =
     (case r of (base, limit) \<Rightarrow>
        let res = mmap_fixed env base (limit - base);
            s1 = s\<lparr> bounds_region := (bounds_region s)(rid := res) \<rparr>
        in if res \<noteq> base then Inl Aborted
           else Inr (s1\<lparr> mapped := mapped s1 @ [(base, limit)],
                        lib := (lib s1)\<lparr> memory := fill_memory (memory (lib s1)) base limit b \<rparr> \<rparr>))"

fun map_regions ::
  "environ \<Rightarrow> (region_id \<times> (addr \<times> addr)) list \<Rightarrow> backing \<Rightarrow> 'w shadow_state \<Rightarrow> 'w shadow_state outcome" where
  "map_regions env [] b s = Inr s"
| "map_regions env ((rid, r) # rs) b s = obind (map_region env rid r b s) (map_regions env rs b)"

definition set_stored :: "addr \<Rightarrow> addr \<Rightarrow> u32 \<Rightarrow> mem \<Rightarrow> mem" where
  "set_stored p base sz m =
     store32 (store64 m (libcrunch_base_stored_loc p) base) (libcrunch_size_stored_loc p) sz"

text \<open>\<^verbatim>\<open>strlen\<close>, for strings of at most the given length.\<close>

fun strlen :: "nat \<Rightarrow> mem \<Rightarrow> addr \<Rightarrow> nat outcome" where
  "strlen limit m a =
     (if m a = 0 then Inr 0
      else if limit = 0 then Inl NonTermination else omap Suc (strlen (limit - 1) m (a + 1)))"

declare strlen.simps [simp del]

text \<open>The loop over a vector of strings; \<open>n\<close> is the number of its elements.\<close>

fun init_vector :: "nat \<Rightarrow> nat \<Rightarrow> addr \<Rightarrow> addr \<Rightarrow> mem \<Rightarrow> mem outcome" where
  "init_vector limit n p terminator m =
     (if p = terminator then Inr m
      else if n = 0 then Inl NonTermination
      else obind (strlen limit m (load64 m p)) (\<lambda>len.
        init_vector limit (n - 1) (p + 8) terminator
          (set_stored p (load64 m p) (of_nat len + 1) m)))"

declare init_vector.simps [simp del]

definition vector_length :: "addr \<Rightarrow> addr \<Rightarrow> nat" where
  "vector_length start terminator = unat (terminator - start) div 8"

definition init_shadow_entries :: "config \<Rightarrow> environ \<Rightarrow> 'w crunch \<Rightarrow> 'w crunch outcome" where
  "init_shadow_entries c env st =
     (case auxv env of None \<Rightarrow> Inr st
      | Some lims \<Rightarrow>
        obind (init_vector (string_limit env)
                 (vector_length (argv_vector_start lims) (argv_vector_terminator lims))
                 (argv_vector_start lims) (argv_vector_terminator lims) (memory st)) (\<lambda>m1.
        obind (init_vector (string_limit env)
                 (vector_length (env_vector_start lims) (env_vector_terminator lims))
                 (env_vector_start lims) (env_vector_terminator lims) m1) (\<lambda>m2.
          let st1 = push_argument_bounds_base_limit c (argv_vector_start lims)
                      (argv_vector_start lims) (argv_vector_terminator lims + 8)
                      (st\<lparr> memory := m2 \<rparr>);
              st2 = push_argument_bounds_cookie c (main_addr env) st1;
              m3 = set_stored (environ_loc env) (env_vector_start lims)
                     (ucast ((env_vector_terminator lims + 8 - env_vector_start lims) div 8 * 8))
                     (memory st2);
              m4 = fold (\<lambda>p m. set_stored p (load64 m p) (sizeof_FILE env) m) (stdio_locs env) m3;
              m5 = set_stored (ctype_b_loc env) (load64 m4 (ctype_b_loc env)) 768 m4;
              m6 = set_stored (ctype_toupper_loc env) (load64 m5 (ctype_toupper_loc env)) (384 * 4) m5;
              m7 = set_stored (ctype_tolower_loc env) (load64 m6 (ctype_tolower_loc env)) (384 * 4) m6
          in Inr (st2\<lparr> memory := m7 \<rparr>))))"

text \<open>The names of the regions in the order of \<^verbatim>\<open>base_regions\<close> and \<^verbatim>\<open>size_regions\<close>.\<close>

definition named_base_regions :: "(region_id \<times> (addr \<times> addr)) list" where
  "named_base_regions = zip [Bases00, Bases2a, Bases55, Bases7a] base_regions"

definition named_size_regions :: "(region_id \<times> (addr \<times> addr)) list" where
  "named_size_regions = zip [Sizes00, Sizes2a, Sizes55, Sizes7a] size_regions"

text \<open>
  The constructor, first up to the point where all regions are mapped.  The bounds stack's \<^verbatim>\<open>mmap\<close> is
  not tested for failure.  Without the preloaded library the size regions are backed by
  \<^verbatim>\<open>/dev/ones\<close> where it exists.
\<close>

definition map_shadow_space :: "environ \<Rightarrow> 'w shadow_state \<Rightarrow> 'w shadow_state outcome" where
  "map_shadow_space env s0 =
     (let s1 = s0\<lparr> lib := (lib s0)\<lparr> bounds_sp := mmap_stack env + 65536 - 8 \<rparr> \<rparr>
      in case maps_entries env of None \<Rightarrow> Inl Aborted
         | Some ents \<Rightarrow>
           obind (check_maps env ents s1) (\<lambda>s2.
             let s3 = (if first_2a_free s2 = 0 then s2\<lparr> first_2a_free := 0x2aaaaaaab000 \<rparr> else s2);
                 s4 = (if first_30_free s3 = 0 then s3\<lparr> first_30_free := 0x332aaaaab000 \<rparr> else s3)
             in obind (map_regions env named_base_regions Zeros s4) (\<lambda>s5.
               let ones = (\<not> really_loaded env \<and> dev_ones_opens env);
                   b = (if ones then Ones else Zeros)
               in obind (map_regions env (take 1 named_size_regions) b s5) (\<lambda>s6.
                 if ones \<and> load32 (memory (lib s6)) (bounds_region s6 Sizes00) \<noteq> 0xffffffff
                 then Inl Aborted
                 else map_regions env (drop 1 named_size_regions) b s6))))"

definition init_shadow_space :: "config \<Rightarrow> environ \<Rightarrow> 'w shadow_state \<Rightarrow> 'w shadow_state outcome" where
  "init_shadow_space c env s =
     obind (map_shadow_space env s) (\<lambda>s.
       omap (\<lambda>st. s\<lparr> lib := st \<rparr>) (init_shadow_entries c env (lib s)))"

text \<open>
  The \<^verbatim>\<open>mmap\<close> hook.  \<open>real_nudge\<close> is liballocs' own hook, which runs first; \<open>page_used\<close> its page
  index, by address, \<open>None\<close> if it does not exist.  Whether the caller is the library itself is computed but not
  used by the source.
\<close>

definition wrap_liballocs_nudge_mmap ::
  "(addr \<times> u64 \<times> bool \<Rightarrow> addr \<times> u64 \<times> bool) \<Rightarrow> (addr \<Rightarrow> bool) option \<Rightarrow> u64 \<Rightarrow> addr \<times> u64 \<times> bool \<Rightarrow>
     'w shadow_state \<Rightarrow> (addr \<times> 'w shadow_state) outcome" where
  "wrap_liballocs_nudge_mmap real_nudge page_used biggest_sane_user_alloc req s =
     (case real_nudge req of (p_addr, p_length, map_fixed) \<Rightarrow>
        if bounds_region s Bases00 = 0 then Inr (p_addr, s)
        else obind
          (if p_addr \<noteq> 0 \<and> map_fixed then
             Inr (p_addr, if in_2a_range p_addr (p_addr + p_length - 1)
                          then note_2a_mapping (p_addr + p_length) s else s)
           else if p_length > biggest_sane_user_alloc then
             Inr (first_30_free s, s\<lparr> first_30_free := first_30_free s + p_length \<rparr>)
           else if first_2a_free s = 0 then Inl Aborted
           else if p_addr = 0 then
             Inr (first_2a_free s, s\<lparr> first_2a_free := first_2a_free s + p_length \<rparr>)
           else Inr (p_addr, s))
          (\<lambda>(a, s). case page_used of None \<Rightarrow> Inr (a, s)
             | Some used \<Rightarrow> if used a then Inl AssertFailed else Inr (a, s)))"



subsection \<open>The regions\<close>

lemma map_regions_ok:
  assumes "\<forall>(rid, base, limit) \<in> set rs. mmap_fixed env base (limit - base) = base"
  shows "\<exists>s'. map_regions env rs b s = Inr s' \<and> mapped s' = mapped s @ map snd rs
    \<and> first_2a_free s' = first_2a_free s \<and> bounds_sp (lib s') = bounds_sp (lib s)
    \<and> (\<forall>rid. bounds_region s' rid =
         (case map_of (rev rs) rid of None \<Rightarrow> bounds_region s rid | Some (base, _) \<Rightarrow> base))
    \<and> memory (lib s') = fold (\<lambda>(rid, base, limit) m. fill_memory m base limit b) rs (memory (lib s))"
  using assms
proof (induction rs arbitrary: s)
  case (Cons r rs)
  obtain rid base limit where r: "r = (rid, base, limit)" by (cases r)
  let ?s = "s\<lparr> bounds_region := (bounds_region s)(rid := base), mapped := mapped s @ [(base, limit)],
     lib := (lib s)\<lparr> memory := fill_memory (memory (lib s)) base limit b \<rparr> \<rparr>"
  have "map_region env rid (base, limit) b s = Inr ?s"
    using Cons.prems by (simp add: map_region_def r)
  moreover obtain s' where "map_regions env rs b ?s = Inr s'" "mapped s' = mapped ?s @ map snd rs"
      "first_2a_free s' = first_2a_free ?s" "bounds_sp (lib s') = bounds_sp (lib ?s)"
      "\<forall>rid. bounds_region s' rid =
         (case map_of (rev rs) rid of None \<Rightarrow> bounds_region ?s rid | Some (base, _) \<Rightarrow> base)"
      "memory (lib s') = fold (\<lambda>(rid, base, limit) m. fill_memory m base limit b) rs (memory (lib ?s))"
    using Cons.IH[of ?s] Cons.prems by auto
  ultimately show ?case by (auto simp: r map_add_def split: option.split)
qed simp

text \<open>The entries that are looked at: up to the first after which the result happens not to be zero.\<close>

fun visited :: "environ \<Rightarrow> (addr \<times> addr) list \<Rightarrow> (addr \<times> addr) list" where
  "visited env [] = []"
| "visited env (ent # ents) = ent # (if cb_result env ent \<noteq> 0 then [] else visited env ents)"

lemma check_maps_ok:
  assumes "\<forall>(f, l) \<in> set (visited env ents). acceptable_mapping f (l - 1)"
  shows "\<exists>s'. check_maps env ents s = Inr s' \<and> mapped s' = mapped s \<and> lib s' = lib s
    \<and> first_2a_free s \<le> first_2a_free s'
    \<and> (\<forall>(f, l) \<in> set (visited env ents). in_2a_range f (l - 1) \<longrightarrow> l \<le> first_2a_free s')"
  using assms
proof (induction ents arbitrary: s)
  case (Cons e ents)
  obtain f l where e: "e = (f, l)" by (cases e)
  let ?s = "if in_2a_range f (l - 1) then note_2a_mapping l s else s"
  have cb: "check_maps_cb env e s = Inr (cb_result env e, ?s)" using Cons.prems by (simp add: check_maps_cb_def e)
  have s: "mapped ?s = mapped s" "lib ?s = lib s" "first_2a_free s \<le> first_2a_free ?s"
      "in_2a_range f (l - 1) \<longrightarrow> l \<le> first_2a_free ?s"
    by (auto simp: note_2a_mapping_def)
  show ?case
  proof (cases "cb_result env e = 0")
    case False
    then show ?thesis using cb s by (auto simp: e)
  next
    case True
    obtain s' where "check_maps env ents ?s = Inr s'" "mapped s' = mapped ?s" "lib s' = lib ?s"
        "first_2a_free ?s \<le> first_2a_free s'"
        "\<forall>(f, l) \<in> set (visited env ents). in_2a_range f (l - 1) \<longrightarrow> l \<le> first_2a_free s'"
      using Cons.IH[of ?s] Cons.prems True by auto
    then show ?thesis using cb s True by (auto simp: e)
  qed
qed simp

lemma load32_ones:
  assumes "\<And>i. i < 4 \<Longrightarrow> m (a + of_nat i) = -1"
  shows "load32 m a = 0xffffffff"
proof -
  have "load_bytes m a 4 = replicate 4 (-1)"
    by (rule nth_equalityI) (simp_all add: load_bytes_def assms)
  then have "load32 m a = word_of_bytes (replicate 4 (-1))" by (simp only: load32_def)
  also have "\<dots> = (-1 :: u32)"
    by (rule bit_word_eqI) (auto simp: bit_word_of_bytes)
  finally show ?thesis by simp
qed

lemma load32_ones_region:
  "load32 (fill_memory m 0x080000000000 0x0aaaaaaab000 Ones) 0x080000000000 = 0xffffffff"
proof (rule load32_ones)
  fix i :: nat assume "i < 4"
  then have "i = 0 \<or> i = 1 \<or> i = 2 \<or> i = 3" by auto
  then show "fill_memory m 0x080000000000 0x0aaaaaaab000 Ones (0x080000000000 + of_nat i) = -1"
    by (auto simp: fill_memory_def)
qed

text \<open>All regions are mapped in order, with ones or zeros in the size regions, and nothing else changes.\<close>

lemma map_all_regions:
  fixes s4 :: "'w shadow_state"
  assumes "\<forall>(base, limit) \<in> set (base_regions @ size_regions). mmap_fixed env base (limit - base) = base"
  shows "\<exists>s5 s6 s7. map_regions env named_base_regions Zeros s4 = Inr s5
    \<and> map_regions env (take 1 named_size_regions) b s5 = Inr s6
    \<and> map_regions env (drop 1 named_size_regions) b s6 = Inr s7
    \<and> (b = Ones \<longrightarrow> load32 (memory (lib s6)) (bounds_region s6 Sizes00) = 0xffffffff)
    \<and> mapped s7 = mapped s4 @ base_regions @ size_regions
    \<and> bounds_region s7 Bases00 = 0x700000000000 \<and> bounds_region s7 Sizes7a = 0x455555556000
    \<and> first_2a_free s7 = first_2a_free s4 \<and> bounds_sp (lib s7) = bounds_sp (lib s4)"
proof -
  have "\<forall>(rid, base, limit) \<in> set named_base_regions. mmap_fixed env base (limit - base) = base"
      "\<forall>(rid, base, limit) \<in> set (take 1 named_size_regions). mmap_fixed env base (limit - base) = base"
      "\<forall>(rid, base, limit) \<in> set (drop 1 named_size_regions). mmap_fixed env base (limit - base) = base"
    using assms by (auto simp: named_base_regions_def named_size_regions_def base_regions_def size_regions_def)
  note ok = map_regions_ok[OF this(1)] map_regions_ok[OF this(2)] map_regions_ok[OF this(3)]
  obtain s5 where s5: "map_regions env named_base_regions Zeros s4 = Inr s5"
      "mapped s5 = mapped s4 @ base_regions" "first_2a_free s5 = first_2a_free s4"
      "bounds_sp (lib s5) = bounds_sp (lib s4)" "bounds_region s5 Bases00 = 0x700000000000"
    using ok(1)[of Zeros s4] by (auto simp: named_base_regions_def base_regions_def)
  obtain s6 where s6: "map_regions env (take 1 named_size_regions) b s5 = Inr s6"
      "mapped s6 = mapped s5 @ take 1 size_regions" "first_2a_free s6 = first_2a_free s5"
      "bounds_sp (lib s6) = bounds_sp (lib s5)" "bounds_region s6 Bases00 = bounds_region s5 Bases00"
      "bounds_region s6 Sizes00 = 0x080000000000"
      "memory (lib s6) = fill_memory (memory (lib s5)) 0x080000000000 0x0aaaaaaab000 b"
    using ok(2)[of b s5] by (auto simp: named_size_regions_def size_regions_def)
  have ones: "b = Ones \<longrightarrow> load32 (memory (lib s6)) (bounds_region s6 Sizes00) = 0xffffffff"
    unfolding s6(6,7) by (simp add: load32_ones_region)
  obtain s7 where s7: "map_regions env (drop 1 named_size_regions) b s6 = Inr s7"
      "mapped s7 = mapped s6 @ drop 1 size_regions" "first_2a_free s7 = first_2a_free s6"
      "bounds_sp (lib s7) = bounds_sp (lib s6)" "bounds_region s7 Bases00 = bounds_region s6 Bases00"
      "bounds_region s7 Sizes7a = 0x455555556000"
    using ok(3)[of b s6] by (auto simp: named_size_regions_def size_regions_def)
  have "mapped s7 = mapped s4 @ base_regions @ size_regions"
    using s7(2) s6(2) s5(2) by (simp add: size_regions_def)
  then show ?thesis using s5 s6 s7 ones by metis
qed

text \<open>
  (C22) The constructor sets the shadow space up.  Suppose \<^verbatim>\<open>/proc\<close> is readable, the kernel honours fixed
  addresses, nothing was mapped by the constructor before, and the entries of the memory map that are
  looked at are acceptable.  These are the entries up to the first after which the callback, which has no
  return statement, happens to leave a non-zero result.  The mapping phase then ends with eight regions
  mapped that overlap neither each other nor the user ranges, and that hold the shadow of every
  address in the user ranges, but for the sizes of the two lowest pages and both shadows of
  \<open>0x565555556000\<close>; the global that says so is set; the bounds stack pointer is at the last word of
  the stack; and the allocation pointer of the 2a range is not null and above every mapping inside the 2a
  range that was looked at.
\<close>

theorem shadow_space_set_up:
  fixes s :: "'w shadow_state"
  assumes "maps_entries env = Some ents" "\<forall>(f, l) \<in> set (visited env ents). acceptable_mapping f (l - 1)"
    and "\<forall>base n. mmap_fixed env base n = base" "mapped s = []"
  shows "\<exists>s'. map_shadow_space env s = Inr s'
    \<and> length (mapped s') = 8 \<and> regions_disjoint (user_ranges @ mapped s')
    \<and> (\<forall>p. in_regions user_ranges p \<longrightarrow>
         (in_regions (mapped s') (libcrunch_base_stored_loc p) \<longleftrightarrow> p \<noteq> 0x565555556000)
         \<and> (in_regions (mapped s') (libcrunch_size_stored_loc p) \<longleftrightarrow>
             \<not> in_regions [(0x2aaaaaaab000, 0x2aaaaaaac000), (0x565555556000, 0x565555556001),
                  (0x7aaaaaaab000, 0x7aaaaaaac000)] p))
    \<and> bounds_region s' Bases00 \<noteq> 0
    \<and> bounds_sp (lib s') = mmap_stack env + 65528 \<and> first_2a_free s' \<noteq> 0
    \<and> (\<forall>(f, l) \<in> set (visited env ents). in_2a_range f (l - 1) \<longrightarrow> l \<le> first_2a_free s')"
proof -
  let ?s1 = "s\<lparr> lib := (lib s)\<lparr> bounds_sp := mmap_stack env + 65536 - 8 \<rparr> \<rparr>"
  obtain s2 where s2: "check_maps env ents ?s1 = Inr s2" "mapped s2 = mapped s"
      "lib s2 = lib ?s1"
      "\<forall>(f, l) \<in> set (visited env ents). in_2a_range f (l - 1) \<longrightarrow> l \<le> first_2a_free s2"
    using check_maps_ok[OF assms(2), of ?s1] by auto
  define s3 where "s3 = (if first_2a_free s2 = 0 then s2\<lparr> first_2a_free := 0x2aaaaaaab000 \<rparr> else s2)"
  define s4 where "s4 = (if first_30_free s3 = 0 then s3\<lparr> first_30_free := 0x332aaaaab000 \<rparr> else s3)"
  have s4: "mapped s4 = mapped s" "lib s4 = lib ?s1" "first_2a_free s4 \<noteq> 0"
      "\<forall>(f, l) \<in> set (visited env ents). in_2a_range f (l - 1) \<longrightarrow> l \<le> first_2a_free s4"
    using s2 by (auto simp: s3_def s4_def)
  let ?ones = "\<not> really_loaded env \<and> dev_ones_opens env"
  let ?b = "if ?ones then Ones else Zeros"
  have fixed: "\<forall>(base, limit) \<in> set (base_regions @ size_regions). mmap_fixed env base (limit - base) = base"
    using assms(3) by auto
  obtain s5 s6 s7 where m: "map_regions env named_base_regions Zeros s4 = Inr s5"
      "map_regions env (take 1 named_size_regions) ?b s5 = Inr s6"
      "map_regions env (drop 1 named_size_regions) ?b s6 = Inr s7"
      "?b = Ones \<longrightarrow> load32 (memory (lib s6)) (bounds_region s6 Sizes00) = 0xffffffff"
    and s7: "mapped s7 = mapped s4 @ base_regions @ size_regions"
      "bounds_region s7 Bases00 = 0x700000000000"
      "first_2a_free s7 = first_2a_free s4" "bounds_sp (lib s7) = bounds_sp (lib s4)"
    using map_all_regions[OF fixed, of s4 ?b] by blast
  have "map_shadow_space env s = Inr s7"
    unfolding map_shadow_space_def Let_def assms(1) option.case s2(1) obind_simps
      s3_def[symmetric] s4_def[symmetric] m(1,2)
    using m(3,4) by (auto split: if_splits)
  moreover have mp: "mapped s7 = base_regions @ size_regions" using s7(1) s4(1) assms(4) by simp
  moreover have "length (mapped s7) = 8" "regions_disjoint (user_ranges @ mapped s7)"
    unfolding mp by (simp_all add: base_regions_def size_regions_def user_ranges_def)
  moreover note shadow_mapped_iff[folded mp, unfolded unshadowed_gaps_def]
  ultimately show ?thesis using s4 s7 by (intro exI[of _ s7]) simp
qed

definition ex_env :: environ where
  "ex_env = \<lparr> mmap_stack = 0x7ffff7000000, mmap_fixed = (\<lambda>base n. base),
     maps_entries = Some [(0x400000, 0x401000), (0x2aaaaaaab000, 0x2aaaaaacb000), (0x7ffffffde000, 0x7ffffffff000)],
     cb_result = (\<lambda>ent. 0), really_loaded = True, dev_ones_opens = False, auxv = None, string_limit = 131072, main_addr = 0x401000,
     environ_loc = 0x601000, stdio_locs = [], sizeof_FILE = 216, ctype_b_loc = 0x601008,
     ctype_toupper_loc = 0x601010, ctype_tolower_loc = 0x601018 \<rparr>"

definition ex_shadow_state :: "ex_world shadow_state" where
  "ex_shadow_state = \<lparr> lib = ex_st, first_2a_free = 0, first_30_free = 0x332aaaaab000,
     bounds_region = (\<lambda>_. 0), mapped = [] \<rparr>"

theorem shadow_space_set_up_witness:
  "\<exists>s'. map_shadow_space ex_env ex_shadow_state = Inr s'
     \<and> in_regions (mapped s') (libcrunch_size_stored_loc 0x7fff12345678)
     \<and> \<not> in_regions (mapped s') (libcrunch_size_stored_loc 0x2aaaaaaab000)
     \<and> 0x2aaaaaacb000 \<le> first_2a_free s'"
proof -
  let ?ents = "[(0x400000, 0x401000), (0x2aaaaaaab000, 0x2aaaaaacb000), (0x7ffffffde000, 0x7ffffffff000)]"
  have v: "visited ex_env ?ents = ?ents" by (simp add: ex_env_def)
  have "maps_entries ex_env = Some ?ents" "\<forall>base n. mmap_fixed ex_env base n = base" "mapped ex_shadow_state = []"
    by (simp_all add: ex_env_def ex_shadow_state_def)
  moreover have "\<forall>(f, l) \<in> set (visited ex_env ?ents). acceptable_mapping f (l - 1)"
    unfolding v by (simp add: acceptable_mapping_def is_in_range_def)
  moreover have "in_2a_range 0x2aaaaaaab000 (0x2aaaaaacb000 - 1)" by (simp add: in_2a_range_def is_in_range_def)
  moreover have "in_regions user_ranges 0x7fff12345678" "in_regions user_ranges 0x2aaaaaaab000"
    by (simp_all add: user_ranges_def)
  ultimately show ?thesis
    using shadow_space_set_up[of ex_env ?ents ex_shadow_state] unfolding v by fastforce
qed


subsection \<open>The program's arguments\<close>

lemma set_stored_is_store:
  assumes "t \<noteq> 0"
  shows "set_stored p base sz m = shadow_store_bounds_for c m p \<lparr> bnd_base = base, bnd_size = ucast sz \<rparr> t"
proof -
  have "ucast (ucast sz :: u64) = sz" by (rule bit_word_eqI) (simp add: bit_simps)
  then show ?thesis using assms by (simp add: set_stored_def shadow_store_bounds_for_def)
qed

text \<open>A string: non-null bytes in user memory up to a null byte.\<close>

definition cstring :: "mem \<Rightarrow> addr \<Rightarrow> nat \<Rightarrow> bool" where
  "cstring m a n \<longleftrightarrow> (\<forall>j < n. m (a + of_nat j) \<noteq> 0) \<and> m (a + of_nat n) = 0
     \<and> (\<forall>j \<le> n. in_regions user_slots (a + of_nat j))"

lemma strlen_cstring:
  "(\<forall>j < n. m (a + of_nat j) \<noteq> 0) \<Longrightarrow> m (a + of_nat n) = 0 \<Longrightarrow> n \<le> limit \<Longrightarrow> strlen limit m a = Inr n"
proof (induction n arbitrary: a limit)
  case 0
  then show ?case by (subst strlen.simps) simp
next
  case (Suc n)
  have "\<forall>j < n. m (a + 1 + of_nat j) \<noteq> 0" "m (a + 1 + of_nat n) = 0"
  proof (intro allI impI)
    fix j assume "j < n"
    then show "m (a + 1 + of_nat j) \<noteq> 0"
      using Suc.prems(1)[rule_format, of "Suc j"] by (simp add: add.assoc)
  next
    show "m (a + 1 + of_nat n) = 0" using Suc.prems(2) by (simp add: add.assoc)
  qed
  from Suc.IH[OF this, of "limit - 1"] Suc.prems show ?case
    by (subst strlen.simps) auto
qed

lemma user_byte_unchanged:
  assumes "shadow_slot p" "in_regions user_slots a"
  shows "set_stored p base sz m a = m a"
proof -
  have w: "within_region user_slots a 1"
    using assms(2) by (intro within_regionI) (simp_all add: list_all_iff)
  have "ranges_disjoint a 1 (libcrunch_base_stored_loc p) 8"
    using within_disjoint_regions[OF shadow_regions_disjoint(2) w slot_base_within[OF assms(1)]] .
  moreover have "ranges_disjoint a 1 (libcrunch_size_stored_loc p) 4"
    using within_disjoint_regions[OF shadow_regions_disjoint(3) w slot_size_within[OF assms(1)]] .
  ultimately show ?thesis
    using store_bytes_outside[of a 1 _ _ 0] by (simp add: set_stored_def store32_def store64_def)
qed

lemma slot_data_unchanged:
  assumes "shadow_slot p" "shadow_slot q"
  shows "load64 (set_stored q base sz m) p = load64 m p"
  using data_unchanged[OF assms, of config_none m _ 1] by (simp add: set_stored_is_store[of 1 _ _ _ _ config_none])

lemma cstring_unchanged: "shadow_slot p \<Longrightarrow> cstring m a n \<Longrightarrow> cstring (set_stored p base sz m) a n"
  by (auto simp: cstring_def user_byte_unchanged)

definition vector_slots :: "addr \<Rightarrow> nat \<Rightarrow> addr set" where
  "vector_slots p n = (\<lambda>i. p + 8 * of_nat i) ` {..<n}"

lemma vector_slots_Suc: "vector_slots p (Suc n) = insert p (vector_slots (p + 8) n)"
proof -
  have "{..<Suc n} = insert 0 (Suc ` {..<n})" by (auto simp: image_iff less_Suc_eq_0_disj)
  then show ?thesis by (simp add: vector_slots_def image_image algebra_simps)
qed

text \<open>What one round of the loop stores for the slot \<open>p\<close>, and that it leaves the other slots alone.\<close>

lemma string_bounds_stored:
  assumes "has_shadow_space c" "long_config c" "v \<noteq> 0" "shadow_slot p" "n < 0xfffffffe"
  shows "fetch_bounds_from_shadow_space c (set_stored p a (of_nat n + 1) m) v p
      = \<lparr> bnd_base = a, bnd_size = of_nat n + 1 \<rparr>"
    "shadow_slot q \<Longrightarrow> q \<noteq> p \<Longrightarrow> fetch_bounds_from_shadow_space c (set_stored p a (of_nat n + 1) m) v q
      = fetch_bounds_from_shadow_space c m v q"
proof -
  let ?b = "\<lparr> bnd_base = a, bnd_size = ucast (of_nat n + 1 :: u32) \<rparr> :: bounds"
  have size: "ucast (of_nat n + 1 :: u32) = (of_nat n + 1 :: u64)"
    using assms(5) by (simp add: word_unat_eq_iff unsigned_ucast_eq unat_word_ariths unat_of_nat
        take_bit_nat_eq_self)
  have "unat (of_nat n + 1 :: u64) = n + 1"
    using assms(5) by (simp add: unat_word_ariths unat_of_nat take_bit_nat_eq_self)
  then have rep: "representable c ?b"
    using assms(2,5)
    by (simp add: representable_def size_survives_def long_config_def size member_base_def word_less_nat_alt)
  note st = set_stored_is_store[of 1 p a "of_nat n + 1" m c, simplified]
  show "fetch_bounds_from_shadow_space c (set_stored p a (of_nat n + 1) m) v p
      = \<lparr> bnd_base = a, bnd_size = of_nat n + 1 \<rparr>"
    using fetch_store_same[OF assms(1,3) _ assms(4) rep, of 1 m] by (simp add: st size)
  show "fetch_bounds_from_shadow_space c (set_stored p a (of_nat n + 1) m) v q
      = fetch_bounds_from_shadow_space c m v q" if "shadow_slot q" "q \<noteq> p"
    using fetch_store_other[OF assms(1,3,4) that(1)] that(2) by (simp add: st)
qed

lemma vector_slots_distinct:
  assumes "8 * Suc n < 2 ^ 64"
  shows "p \<notin> vector_slots (p + 8) n" "p \<noteq> p + 8 * of_nat (Suc n)"
proof
  assume "p \<in> vector_slots (p + 8) n"
  then obtain i where i: "i < n" "p = p + 8 + 8 * of_nat i" by (auto simp: vector_slots_def)
  have "(of_nat (8 * Suc i) :: u64) = 0" using i(2) by (simp add: algebra_simps)
  moreover have "8 * Suc i < 2 ^ 64" using i(1) assms by simp
  ultimately show False using of_nat_u64_eq_iff[of "8 * Suc i" 0] by simp
next
  show "p \<noteq> p + 8 * of_nat (Suc n)"
    using of_nat_u64_eq_iff[of "8 * Suc n" 0] assms by (auto simp: algebra_simps)
qed

text \<open>A vector of proper strings in slots with a shadow.\<close>

definition string_vector :: "nat \<Rightarrow> mem \<Rightarrow> (addr \<Rightarrow> nat) \<Rightarrow> addr set \<Rightarrow> bool" where
  "string_vector limit m len slots \<longleftrightarrow> (\<forall>q \<in> slots. shadow_slot q \<and> cstring m (load64 m q) (len q)
     \<and> len q \<le> limit \<and> len q < 0xfffffffe)"

text \<open>The program's own memory is the same in both.\<close>

definition same_user_memory :: "mem \<Rightarrow> mem \<Rightarrow> bool" where
  "same_user_memory m m' \<longleftrightarrow> (\<forall>a. in_regions user_slots a \<longrightarrow> m' a = m a)
     \<and> (\<forall>q. shadow_slot q \<longrightarrow> load64 m' q = load64 m q)"

lemma same_user_memory_trans: "same_user_memory m m1 \<Longrightarrow> same_user_memory m1 m2 \<Longrightarrow> same_user_memory m m2"
  by (simp add: same_user_memory_def)

lemma set_stored_same_user_memory: "shadow_slot p \<Longrightarrow> same_user_memory m (set_stored p base sz m)"
  by (simp add: same_user_memory_def user_byte_unchanged slot_data_unchanged)

lemma string_vector_cong:
  "same_user_memory m m' \<Longrightarrow> string_vector limit m len slots \<Longrightarrow> string_vector limit m' len slots"
  by (auto simp: same_user_memory_def string_vector_def cstring_def)

lemma init_vector_spec:
  assumes "has_shadow_space c" "long_config c" "v \<noteq> 0"
    and "string_vector limit m len (vector_slots p n)" "8 * n < 2 ^ 64"
  shows "\<exists>m'. init_vector limit n p (p + 8 * of_nat n) m = Inr m' \<and> same_user_memory m m'
    \<and> (\<forall>q \<in> vector_slots p n. fetch_bounds_from_shadow_space c m' v q =
         \<lparr> bnd_base = load64 m q, bnd_size = of_nat (len q) + 1 \<rparr>)
    \<and> (\<forall>q. shadow_slot q \<and> q \<notin> vector_slots p n \<longrightarrow>
         fetch_bounds_from_shadow_space c m' v q = fetch_bounds_from_shadow_space c m v q)"
  using assms(4,5)
proof (induction n arbitrary: p m)
  case 0
  then show ?case by (subst init_vector.simps) (simp add: vector_slots_def same_user_memory_def)
next
  case (Suc n)
  let ?m = "set_stored p (load64 m p) (of_nat (len p) + 1) m"
  have p: "shadow_slot p" "cstring m (load64 m p) (len p)" "len p \<le> limit" "len p < 0xfffffffe"
    using Suc.prems(1) by (auto simp: vector_slots_Suc string_vector_def)
  note new = string_bounds_stored[OF assms(1-3) p(1,4)] and d = vector_slots_distinct[OF Suc.prems(2), of p]
  note same = set_stored_same_user_memory[OF p(1), of m "load64 m p" "of_nat (len p) + 1"]
  have tl: "string_vector limit m len (vector_slots (p + 8) n)"
    using Suc.prems(1) by (simp add: vector_slots_Suc string_vector_def)
  obtain m' where m': "init_vector limit n (p + 8) (p + 8 + 8 * of_nat n) ?m = Inr m'" "same_user_memory ?m m'"
      "\<forall>q \<in> vector_slots (p + 8) n. fetch_bounds_from_shadow_space c m' v q =
         \<lparr> bnd_base = load64 ?m q, bnd_size = of_nat (len q) + 1 \<rparr>"
      "\<forall>q. shadow_slot q \<and> q \<notin> vector_slots (p + 8) n \<longrightarrow>
         fetch_bounds_from_shadow_space c m' v q = fetch_bounds_from_shadow_space c ?m v q"
    using Suc.IH[OF string_vector_cong[OF same tl]] Suc.prems(2) by auto
  have "init_vector limit (Suc n) p (p + 8 * of_nat (Suc n)) m = Inr m'"
    using d(2) m'(1) strlen_cstring[of "len p" m "load64 m p" limit] p(2,3)
    by (subst init_vector.simps) (simp add: cstring_def algebra_simps)
  moreover have "fetch_bounds_from_shadow_space c m' v p = \<lparr> bnd_base = load64 m p, bnd_size = of_nat (len p) + 1 \<rparr>"
    using m'(4) p(1) d(1) new(1) by simp
  moreover have "\<forall>q \<in> vector_slots (p + 8) n. load64 ?m q = load64 m q"
    using tl same by (simp add: string_vector_def same_user_memory_def)
  moreover note same_user_memory_trans[OF same m'(2)]
  ultimately show ?case using m'(3,4) new(2) by (auto simp: vector_slots_Suc)
qed

lemma vector_length_slots: "8 * n < 2 ^ 64 \<Longrightarrow> vector_length p (p + 8 * of_nat n) = n"
  using unat_of_nat_u64[of "8 * n"] by (simp add: vector_length_def)

text \<open>Stores outside the shadow regions and for other slots leave the bounds of a slot alone.\<close>

lemma fetch_user_write:
  assumes "has_shadow_space c" "v \<noteq> 0" "shadow_slot q" "same_outside r n m m'" "within_region user_slots r n"
  shows "fetch_bounds_from_shadow_space c m' v q = fetch_bounds_from_shadow_space c m v q"
proof -
  have "ranges_disjoint (libcrunch_base_stored_loc q) 8 r n" "ranges_disjoint (libcrunch_size_stored_loc q) 4 r n"
    using within_disjoint_regions[OF shadow_regions_disjoint(2) assms(5) slot_base_within[OF assms(3)]]
      within_disjoint_regions[OF shadow_regions_disjoint(3) assms(5) slot_size_within[OF assms(3)]]
      ranges_disjoint_sym by blast+
  moreover have "q \<noteq> 0" using assms(3) by (simp add: shadow_slot_def)
  ultimately show ?thesis
    using same_outside_load[OF assms(4)] assms(1,2) by (simp add: fetch_unfold load64_def load32_def)
qed

lemma fetch_set_stored_other:
  assumes "has_shadow_space c" "v \<noteq> 0" "shadow_slot p" "shadow_slot q" "p \<noteq> q"
  shows "fetch_bounds_from_shadow_space c (set_stored p base sz m) v q = fetch_bounds_from_shadow_space c m v q"
  using fetch_store_other[OF assms, of m _ 1] by (simp add: set_stored_is_store[of 1 _ _ _ _ c])

lemma fetch_set_stored_all:
  assumes "has_shadow_space c" "v \<noteq> 0" "shadow_slot q" "\<forall>p \<in> set ps. shadow_slot p \<and> p \<noteq> q"
  shows "fetch_bounds_from_shadow_space c (fold (\<lambda>p m. set_stored p (base p m) (sz p) m) ps m) v q
    = fetch_bounds_from_shadow_space c m v q"
  using assms(4)
  by (induction ps arbitrary: m) (simp_all add: fetch_set_stored_other[OF assms(1,2) _ assms(3)])

text \<open>The C library's variables that the constructor fills in after \<^verbatim>\<open>environ\<close>.\<close>

definition libc_slots :: "environ \<Rightarrow> addr list" where
  "libc_slots env = stdio_locs env @ [ctype_b_loc env, ctype_toupper_loc env, ctype_tolower_loc env]"

text \<open>The stack gets the bounds of the argument vector and the cookie of \<^verbatim>\<open>main\<close>.\<close>

lemma argv_push_outside:
  assumes "stack_config c"
  shows "same_outside (bounds_sp st - 24) 24 (memory st)
    (memory (push_argument_bounds_cookie c callee (push_argument_bounds_base_limit c p base limit st)))"
proof -
  let ?m = "memcpy_bounds_to c (memory st) (bounds_sp st - 16) (make_bounds c base limit)"
  have "same_outside (bounds_sp st - 16) 16 (memory st) ?m" by (rule same_outside_memcpy[OF assms])
  moreover have "same_outside (bounds_sp st - 16 - of_nat 8) 8 ?m (store64 ?m (bounds_sp st - 16 - of_nat 8) callee)"
    by (rule same_outside_store64)
  ultimately have "same_outside (bounds_sp st - 16 - of_nat 8) (16 + 8) (memory st)
      (store64 ?m (bounds_sp st - 16 - of_nat 8) callee)"
    by (rule same_outside_trans) simp
  moreover have "\<not> bounds_stack_off c" using assms by (simp add: stack_config_def)
  ultimately show ?thesis
    by (simp add: push_argument_bounds_base_limit_def push_bounds_unfold[OF assms] push_cookie_unfold[OF assms])
qed

text \<open>
  (C23) The program starts with bounds for its arguments and its environment.  Suppose the auxiliary vector
  is found; the elements of the argument and environment vectors are in slots with a shadow and point to
  strings in user memory, none longer than the kernel's limit or \<open>2^32 - 3\<close> bytes; the slots of \<^verbatim>\<open>environ\<close>, the
  three standard streams and the three character tables have a shadow too and are distinct, and none of
  them is in the vectors; and the bounds stack has room in user memory.  Then \<^verbatim>\<open>init_shadow_entries\<close> ends, and
  after the whole of it a load of each element of either vector finds bounds that cover exactly the
  string and its terminating null byte, and a load of \<^verbatim>\<open>environ\<close> finds bounds that cover exactly the
  environment vector with its terminator.
\<close>

theorem argument_bounds_initialised:
  fixes st :: "'w crunch"
  assumes "has_shadow_space c" "long_config c" "stack_config c" "v \<noteq> 0"
    and "auxv env = Some \<lparr> argv_vector_start = pa, argv_vector_terminator = pa + 8 * of_nat na,
           env_vector_start = pe, env_vector_terminator = pe + 8 * of_nat ne \<rparr>"
    and "8 * na < 2 ^ 64" "8 * ne < 2 ^ 32 - 16"
    and "string_vector (string_limit env) (memory st) len (vector_slots pa na \<union> vector_slots pe ne)"
    and "list_all (\<lambda>g. shadow_slot g \<and> g \<notin> vector_slots pa na \<union> vector_slots pe ne)
           (environ_loc env # libc_slots env)"
    and "environ_loc env \<notin> set (libc_slots env)" "within_region user_slots (bounds_sp st - 24) 24"
  shows "\<exists>st'. init_shadow_entries c env st = Inr st'
    \<and> (\<forall>q \<in> vector_slots pa na \<union> vector_slots pe ne. fetch_bounds_from_shadow_space c (memory st') v q =
         \<lparr> bnd_base = load64 (memory st) q, bnd_size = of_nat (len q) + 1 \<rparr>)
    \<and> fetch_bounds_from_shadow_space c (memory st') v (environ_loc env) =
         \<lparr> bnd_base = pe, bnd_size = 8 * of_nat (ne + 1) \<rparr>"
proof -
  let ?m = "memory st" and ?fetch = "fetch_bounds_from_shadow_space c" and ?b = "\<lambda>q.
    \<lparr> bnd_base = load64 (memory st) q, bnd_size = of_nat (len q) + 1 \<rparr> :: bounds"
  have vec: "string_vector (string_limit env) ?m len (vector_slots pa na)"
    "string_vector (string_limit env) ?m len (vector_slots pe ne)"
    using assms(8) by (auto simp: string_vector_def)
  obtain m1 where m1: "init_vector (string_limit env) na pa (pa + 8 * of_nat na) ?m = Inr m1" "same_user_memory ?m m1"
      "\<forall>q \<in> vector_slots pa na. ?fetch m1 v q = ?b q"
    using init_vector_spec[OF assms(1,2,4) vec(1) assms(6)] by blast
  have ne: "8 * ne < 2 ^ 64" using assms(7) by simp
  obtain m2 where m2: "init_vector (string_limit env) ne pe (pe + 8 * of_nat ne) m1 = Inr m2"
      "\<forall>q \<in> vector_slots pe ne. ?fetch m2 v q = \<lparr> bnd_base = load64 m1 q, bnd_size = of_nat (len q) + 1 \<rparr>"
      "\<forall>q. shadow_slot q \<and> q \<notin> vector_slots pe ne \<longrightarrow> ?fetch m2 v q = ?fetch m1 v q"
    using init_vector_spec[OF assms(1,2,4) string_vector_cong[OF m1(2) vec(2)] ne] by blast
  define st2 where "st2 = push_argument_bounds_cookie c (main_addr env)
    (push_argument_bounds_base_limit c pa pa (pa + 8 * of_nat na + 8) (st\<lparr> memory := m2 \<rparr>))"
  define sz where "sz = (ucast ((pe + 8 * of_nat ne + 8 - pe) div 8 * 8) :: u32)"
  define m3 where "m3 = set_stored (environ_loc env) pe sz (memory st2)"
  define m4 where "m4 = fold (\<lambda>p m. set_stored p (load64 m p) (sizeof_FILE env) m) (stdio_locs env) m3"
  define m5 where "m5 = set_stored (ctype_b_loc env) (load64 m4 (ctype_b_loc env)) 768 m4"
  define m6 where "m6 = set_stored (ctype_toupper_loc env) (load64 m5 (ctype_toupper_loc env)) (384 * 4) m5"
  define m7 where "m7 = set_stored (ctype_tolower_loc env) (load64 m6 (ctype_tolower_loc env)) (384 * 4) m6"
  have run: "init_shadow_entries c env st = Inr (st2\<lparr> memory := m7 \<rparr>)"
    by (simp add: init_shadow_entries_def assms(5) vector_length_slots[OF assms(6)] vector_length_slots[OF ne]
        m1(1) m2(1) Let_def st2_def sz_def m3_def m4_def m5_def m6_def m7_def)
  have gs: "shadow_slot g" "g \<notin> vector_slots pa na" "g \<notin> vector_slots pe ne"
    if "g \<in> set (environ_loc env # libc_slots env)" for g
    using assms(9) that unfolding list_all_iff by blast+
  have st2: "?fetch (memory st2) v q = ?fetch m2 v q" if "shadow_slot q" for q
    using fetch_user_write[OF assms(1,4) that, of "bounds_sp st - 24" 24 m2 "memory st2"]
      argv_push_outside[OF assms(3), of "st\<lparr> memory := m2 \<rparr>"] assms(11) by (simp add: st2_def)
  have libc: "?fetch m7 v q = ?fetch m3 v q" if q: "shadow_slot q" "q \<notin> set (libc_slots env)" for q
  proof -
    have "?fetch m4 v q = ?fetch m3 v q"
      unfolding m4_def using gs(1) q by (intro fetch_set_stored_all[OF assms(1,4)]) (auto simp: libc_slots_def)
    moreover have "?fetch (set_stored p base n m) v q = ?fetch m v q"
      if "p \<in> {ctype_b_loc env, ctype_toupper_loc env, ctype_tolower_loc env}" for p base n m
      using that gs(1)[of p] q by (intro fetch_set_stored_other[OF assms(1,4)]) (auto simp: libc_slots_def)
    ultimately show ?thesis by (simp add: m5_def m6_def m7_def)
  qed
  have "?fetch m7 v q = ?b q" if q: "q \<in> vector_slots pa na \<union> vector_slots pe ne" for q
  proof -
    have s: "shadow_slot q" using assms(8) q by (auto simp: string_vector_def)
    have n: "q \<notin> set (environ_loc env # libc_slots env)" using gs(2,3) q by blast
    have "?fetch m2 v q = ?b q"
      using m1(2,3) m2(2,3) q s by (cases "q \<in> vector_slots pe ne") (auto simp: same_user_memory_def)
    moreover have "?fetch m3 v q = ?fetch (memory st2) v q"
      unfolding m3_def using gs(1)[of "environ_loc env"] s n by (intro fetch_set_stored_other[OF assms(1,4)]) auto
    ultimately show ?thesis using libc[OF s] st2[OF s] n by simp
  qed
  moreover have "?fetch m7 v (environ_loc env) = \<lparr> bnd_base = pe, bnd_size = 8 * of_nat (ne + 1) \<rparr>"
  proof -
    let ?x = "of_nat (8 * (ne + 1)) :: u64"
    have x: "unat ?x = 8 * (ne + 1)" using assms(7) by (intro unat_of_nat_u64) simp
    have e: "pe + 8 * of_nat ne + 8 - pe = ?x" by (simp add: algebra_simps)
    have "unat (?x div 8 * 8) = 8 * (ne + 1)"
      using x assms(7) by (simp add: unat_word_ariths unat_div)
    then have "?x div 8 * 8 = ?x" using x by (simp add: word_unat_eq_iff)
    then have "sz = ucast ?x" by (simp add: sz_def e)
    then have "unat sz = 8 * (ne + 1)" using x assms(7) by (simp add: unsigned_ucast_eq take_bit_nat_eq_self)
    moreover have "unat (of_nat (8 * ne + 7) + 1 :: u32) = 8 * (ne + 1)"
      using assms(7) by (simp add: unat_word_ariths unat_of_nat take_bit_nat_eq_self)
    ultimately have sz: "sz = of_nat (8 * ne + 7) + 1" by (simp only: word_unat_eq_iff)
    have g: "shadow_slot (environ_loc env)" using gs(1) by simp
    have "?fetch m3 v (environ_loc env) = \<lparr> bnd_base = pe, bnd_size = of_nat (8 * ne + 7) + 1 \<rparr>"
      unfolding m3_def sz using assms(7) by (intro string_bounds_stored[OF assms(1,2,4) g]) simp
    then show ?thesis using libc[OF g assms(10)] by (simp add: algebra_simps)
  qed
  ultimately show ?thesis using run by (intro exI[of _ "st2\<lparr> memory := m7 \<rparr>"]) simp
qed

theorem argument_bounds_initialised_witness:
  "\<exists>st'. init_shadow_entries config_m
       (ex_env\<lparr> auxv := Some \<lparr> argv_vector_start = 0x603000, argv_vector_terminator = 0x603008,
          env_vector_start = 0x603010, env_vector_terminator = 0x603010 \<rparr> \<rparr>)
       (ex_st\<lparr> memory := store64 ((\<lambda>_. 0)(0x602000 := 97)) 0x603000 0x602000, bounds_sp := 0x7ffff700fff8 \<rparr>)
       = Inr st'
     \<and> fetch_bounds_from_shadow_space config_m (memory st') 0x602000 0x603000
       = \<lparr> bnd_base = 0x602000, bnd_size = 2 \<rparr>"
proof -
  let ?env = "ex_env\<lparr> auxv := Some \<lparr> argv_vector_start = 0x603000, argv_vector_terminator = 0x603008,
          env_vector_start = 0x603010, env_vector_terminator = 0x603010 \<rparr> \<rparr>"
  let ?m = "store64 ((\<lambda>_. 0)(0x602000 := 97)) 0x603000 0x602000"
  let ?st = "ex_st\<lparr> memory := ?m, bounds_sp := 0x7ffff700fff8 \<rparr>"
  have slots: "vector_slots 0x603000 (Suc 0) = {0x603000}" "vector_slots 0x603010 0 = {}"
    by (auto simp: vector_slots_def)
  have slot: "shadow_slot p" if "p \<in> {0x603000, 0x601000, 0x601008, 0x601010, 0x601018}" for p
    using that by (auto simp: shadow_slot_def in_regions_def user_ranges_def unshadowed_gaps_def)
  have l: "load64 ?m 0x603000 = 0x602000" by (rule load_store64)
  have "?m 0x602000 = 97" "?m 0x602001 = 0" by (simp_all add: store64_def store_bytes_def)
  then have "cstring ?m 0x602000 1" by (auto simp: cstring_def user_slots_def le_Suc_eq)
  then have vec: "string_vector (string_limit ?env) (memory ?st) (\<lambda>_. 1) (vector_slots 0x603000 1 \<union> vector_slots 0x603010 0)"
    using slot l by (simp add: string_vector_def slots ex_env_def)
  have c: "has_shadow_space config_m" "long_config config_m" "stack_config config_m" "(0x602000 :: u64) \<noteq> 0"
    by (simp_all add: config_defs has_shadow_space_def long_config_def stack_config_def bounds_stack_off_def)
  have a: "auxv ?env = Some \<lparr> argv_vector_start = 0x603000, argv_vector_terminator = 0x603000 + 8 * of_nat 1,
      env_vector_start = 0x603010, env_vector_terminator = 0x603010 + 8 * of_nat 0 \<rparr>" by simp
  have g: "list_all (\<lambda>g. shadow_slot g \<and> g \<notin> vector_slots 0x603000 1 \<union> vector_slots 0x603010 0)
      (environ_loc ?env # libc_slots ?env)" "environ_loc ?env \<notin> set (libc_slots ?env)"
      "within_region user_slots (bounds_sp ?st - 24) 24"
    using slot by (simp_all add: slots libc_slots_def ex_env_def within_region_def user_slots_def)
  from argument_bounds_initialised[OF c a _ _ vec g]
  show ?thesis using l by (auto simp: slots)
qed


subsection \<open>Steering later mappings\<close>

type_synonym mmap_request = "addr \<times> u64 \<times> bool"

text \<open>
  The kinds of request that the hook tells apart, once liballocs' own hook has seen it: a fixed
  address; a length above the limit; neither, and no address; neither, and an address as a hint.
\<close>

fun fixed_request :: "mmap_request \<Rightarrow> bool" where
  "fixed_request (a, n, fx) \<longleftrightarrow> a \<noteq> 0 \<and> fx"

fun oversized_request :: "u64 \<Rightarrow> mmap_request \<Rightarrow> bool" where
  "oversized_request big (a, n, fx) \<longleftrightarrow> \<not> fixed_request (a, n, fx) \<and> n > big"

fun open_request :: "u64 \<Rightarrow> mmap_request \<Rightarrow> bool" where
  "open_request big (a, n, fx) \<longleftrightarrow> a = 0 \<and> n \<le> big"

text \<open>
  A sequence of requests, each with the state of the page index at that time; the result is where
  each was put.
\<close>

fun nudge_all ::
  "(mmap_request \<Rightarrow> mmap_request) \<Rightarrow> u64 \<Rightarrow> (mmap_request \<times> (addr \<Rightarrow> bool) option) list \<Rightarrow> 'w shadow_state \<Rightarrow>
     (addr list \<times> 'w shadow_state) outcome" where
  "nudge_all real_nudge big [] s = Inr ([], s)"
| "nudge_all real_nudge big ((r, pages) # rs) s =
     obind (wrap_liballocs_nudge_mmap real_nudge pages big r s) (\<lambda>(a, s).
       omap (\<lambda>(as, s). (a # as, s)) (nudge_all real_nudge big rs s))"

text \<open>The end of what a request takes up, and the requests that take up part of the 2a range.\<close>

definition request_end :: "mmap_request \<Rightarrow> addr \<Rightarrow> nat" where
  "request_end r a = unat a + unat (fst (snd r))"

fun takes_2a :: "u64 \<Rightarrow> mmap_request \<Rightarrow> bool" where
  "takes_2a big (a, n, fx) \<longleftrightarrow> open_request big (a, n, fx)
     \<or> fixed_request (a, n, fx) \<and> unat a + unat n < 2 ^ 64 \<and> in_2a_range a (a + n - 1)"

text \<open>Later requests are put after earlier ones: open ones in the 2a range, oversized ones above it.\<close>

definition put_after :: "u64 \<Rightarrow> mmap_request \<times> addr \<Rightarrow> mmap_request \<times> addr \<Rightarrow> bool" where
  "put_after big x y \<longleftrightarrow>
     (takes_2a big (fst x) \<and> open_request big (fst y) \<longrightarrow> request_end (fst x) (snd x) \<le> unat (snd y))
     \<and> (oversized_request big (fst x) \<and> oversized_request big (fst y) \<longrightarrow>
          request_end (fst x) (snd x) \<le> unat (snd y))"

text \<open>An open request that ends below \<open>0x300000000000\<close> has its shadow mapped, but for the lowest page.\<close>

definition placed :: "u64 \<Rightarrow> mmap_request \<times> addr \<Rightarrow> bool" where
  "placed big = (\<lambda>(r, a).
     (\<not> open_request big r \<and> \<not> oversized_request big r \<longrightarrow> a = fst r)
     \<and> (open_request big r \<and> request_end r a \<le> 0x300000000000 \<longrightarrow>
          (\<forall>p. a \<le> p \<and> unat p < request_end r a \<and> 0x2aaaaaaac000 \<le> p \<longrightarrow>
             in_regions (base_regions @ size_regions) (libcrunch_base_stored_loc p)
             \<and> in_regions (base_regions @ size_regions) (libcrunch_size_stored_loc p))))"

lemma shadow_2a_mapped:
  assumes "0x2aaaaaaac000 \<le> p" "unat p < 0x300000000000"
  shows "in_regions (base_regions @ size_regions) (libcrunch_base_stored_loc p)"
    "in_regions (base_regions @ size_regions) (libcrunch_size_stored_loc p)"
proof -
  have u: "0x2aaaaaaac000 \<le> unat p" using assms(1) by (simp add: word_le_nat_alt)
  then have "in_regions user_ranges p"
    using assms(2) by (simp add: user_ranges_def word_le_nat_alt word_less_nat_alt)
  moreover have "\<not> in_regions unshadowed_gaps p" "p \<noteq> 0x565555556000"
    using u assms(2) by (auto simp: unshadowed_gaps_def word_le_nat_alt word_less_nat_alt)
  ultimately show "in_regions (base_regions @ size_regions) (libcrunch_base_stored_loc p)"
    "in_regions (base_regions @ size_regions) (libcrunch_size_stored_loc p)"
    using shadow_mapped_iff by blast+
qed

lemma open_placed: "open_request big r \<Longrightarrow> placed big (r, a)"
  unfolding placed_def request_end_def using shadow_2a_mapped by (cases r) fastforce

text \<open>One request, up to the look at the page index.\<close>

definition steer :: "u64 \<Rightarrow> mmap_request \<Rightarrow> 'w shadow_state \<Rightarrow> addr \<times> 'w shadow_state" where
  "steer big r s =
     (if fixed_request r then (fst r, if in_2a_range (fst r) (fst r + fst (snd r) - 1)
                                      then note_2a_mapping (fst r + fst (snd r)) s else s)
      else if oversized_request big r
      then (first_30_free s, s\<lparr> first_30_free := first_30_free s + fst (snd r) \<rparr>)
      else if open_request big r
      then (first_2a_free s, s\<lparr> first_2a_free := first_2a_free s + fst (snd r) \<rparr>)
      else (fst r, s))"

lemma nudge_steer:
  assumes "bounds_region s Bases00 \<noteq> 0" "first_2a_free s \<noteq> 0"
  shows "wrap_liballocs_nudge_mmap real_nudge pages big r s =
    (let (a, s') = steer big (real_nudge r) s
     in case pages of None \<Rightarrow> Inr (a, s') | Some used \<Rightarrow> if used a then Inl AssertFailed else Inr (a, s'))"
  using assms
  by (cases "real_nudge r") (auto simp: wrap_liballocs_nudge_mmap_def steer_def split: option.split)

text \<open>
  The allocation pointers never wrap around as long as they are at most \<open>k\<close> and the lengths of the
  remaining requests are small enough.
\<close>

definition pointers_below :: "nat \<Rightarrow> 'w shadow_state \<Rightarrow> bool" where
  "pointers_below k s \<longleftrightarrow> bounds_region s Bases00 \<noteq> 0 \<and> first_2a_free s \<noteq> 0
     \<and> unat (first_2a_free s) \<le> k \<and> unat (first_30_free s) \<le> k"

lemma end_2a:
  assumes "in_2a_range x (x + n - 1)"
  shows "unat (x + n) \<le> 0x300000000000"
proof -
  have y: "unat (x + n - 1) \<le> 0x2fffffffffff"
    using assms by (simp add: in_2a_range_def is_in_range_def word_le_nat_alt)
  then have "unat (x + n - 1 + 1) = unat (x + n - 1) + 1" by (subst unat_add_nowrap) simp_all
  with y show ?thesis by simp
qed

lemma note_2a_simps [simp]:
  "first_2a_free s \<noteq> 0 \<Longrightarrow> first_2a_free (note_2a_mapping l s) = max l (first_2a_free s)"
  "first_30_free (note_2a_mapping l s) = first_30_free s"
  "bounds_region (note_2a_mapping l s) = bounds_region s"
  by (auto simp: note_2a_mapping_def max_def)

lemma steer_spec:
  assumes "pointers_below k s" "0x300000000000 \<le> k" "k + unat (fst (snd r)) < 2 ^ 63" "steer big r s = (a, s')"
  shows "pointers_below (k + unat (fst (snd r))) s'" "placed big (r, a)"
    "first_2a_free s \<le> first_2a_free s'" "first_30_free s \<le> first_30_free s'"
    "takes_2a big r \<longrightarrow> request_end r a \<le> unat (first_2a_free s')"
    "oversized_request big r \<longrightarrow> request_end r a \<le> unat (first_30_free s') \<and> first_30_free s \<le> a"
    "open_request big r \<longrightarrow> first_2a_free s \<le> a"
proof -
  obtain x n fx where r: "r = (x, n, fx)" by (cases r)
  have fr: "fst r = x" "fst (snd r) = n" by (simp_all add: r)
  note pb = assms(1)[unfolded pointers_below_def] and st = assms(4)[unfolded steer_def]
  have nw: "unat (f + n) = unat f + unat n" if "unat f \<le> k" for f :: addr
    using that assms(3) r by (intro unat_add_nowrap) simp
  have le: "f \<le> f + n" "f + n = 0 \<Longrightarrow> f = 0" if "unat f \<le> k" for f :: addr
    using nw[OF that] by (simp_all add: word_le_nat_alt flip: unat_eq_0)
  consider (fixed) "fixed_request r" | (over) "oversized_request big r" "\<not> fixed_request r"
    | (free) "open_request big r" "\<not> fixed_request r" "\<not> oversized_request big r"
    | (hint) "\<not> fixed_request r" "\<not> oversized_request big r" "\<not> open_request big r" by blast
  then have "pointers_below (k + unat n) s' \<and> placed big (r, a)
    \<and> first_2a_free s \<le> first_2a_free s' \<and> first_30_free s \<le> first_30_free s'
    \<and> (takes_2a big r \<longrightarrow> request_end r a \<le> unat (first_2a_free s'))
    \<and> (oversized_request big r \<longrightarrow> request_end r a \<le> unat (first_30_free s') \<and> first_30_free s \<le> a)
    \<and> (open_request big r \<longrightarrow> first_2a_free s \<le> a)"
  proof cases
    case fixed
    then have no: "\<not> open_request big r" "\<not> oversized_request big r" by (simp_all add: r)
    then have pl: "placed big (r, a)" using st fixed by (simp add: placed_def split: if_split_asm)
    show ?thesis
    proof (cases "in_2a_range x (x + n - 1)")
      case True
      have s': "a = x" "s' = note_2a_mapping (x + n) s" using st fixed True by (auto simp: r)
      have "unat (max (x + n) (first_2a_free s)) = max (unat (x + n)) (unat (first_2a_free s))"
        by (simp add: max_def word_le_nat_alt)
      moreover have "unat x + unat n < 2 ^ 64 \<Longrightarrow> unat (x + n) = unat x + unat n"
        by (rule unat_add_nowrap)
      moreover have "max (x + n) (first_2a_free s) \<noteq> 0" using pb by (auto simp: max_def)
      ultimately show ?thesis
        using pb pl no end_2a[OF True] assms(2) fixed
        by (simp add: s' pointers_below_def request_end_def r)
    next
      case False
      then show ?thesis using st fixed pb pl no by (simp add: pointers_below_def r)
    qed
  next
    case over
    then have no: "\<not> open_request big r" "\<not> takes_2a big r" by (auto simp: r)
    have s': "a = first_30_free s" "s' = s\<lparr> first_30_free := first_30_free s + n \<rparr>"
      using st over fr by auto
    then show ?thesis
      using over no pb nw[of "first_30_free s"] le[of "first_30_free s"] fr
      by (simp add: pointers_below_def placed_def request_end_def)
  next
    case free
    have s': "a = first_2a_free s" "s' = s\<lparr> first_2a_free := first_2a_free s + n \<rparr>"
      using st free fr by auto
    then show ?thesis
      using free pb nw[of "first_2a_free s"] le[of "first_2a_free s"] open_placed[OF free(1), of a]
      by (auto simp: pointers_below_def request_end_def r)
  next
    case hint
    then have "\<not> takes_2a big r" by (auto simp: r)
    then show ?thesis using st hint pb by (simp add: pointers_below_def placed_def)
  qed
  then show "pointers_below (k + unat (fst (snd r))) s'" "placed big (r, a)"
    "first_2a_free s \<le> first_2a_free s'" "first_30_free s \<le> first_30_free s'"
    "takes_2a big r \<longrightarrow> request_end r a \<le> unat (first_2a_free s')"
    "oversized_request big r \<longrightarrow> request_end r a \<le> unat (first_30_free s') \<and> first_30_free s \<le> a"
    "open_request big r \<longrightarrow> first_2a_free s \<le> a"
    using r by simp_all
qed

text \<open>What holds of a run: where the requests are put relative to the pointers at its start, and to each other.\<close>

definition steered :: "u64 \<Rightarrow> 'w shadow_state \<Rightarrow> (mmap_request \<times> addr) list \<Rightarrow> bool" where
  "steered big s xs \<longleftrightarrow> list_all (placed big) xs \<and> sorted_wrt (put_after big) xs
     \<and> list_all (\<lambda>(r, a). (open_request big r \<longrightarrow> first_2a_free s \<le> a)
         \<and> (oversized_request big r \<longrightarrow> first_30_free s \<le> a)) xs"

lemma steered_Cons:
  assumes "pointers_below k s" "0x300000000000 \<le> k" "k + unat (fst (snd r)) < 2 ^ 63" "steer big r s = (a, s')"
    and "steered big s' xs"
  shows "steered big s ((r, a) # xs)"
proof -
  note sp = steer_spec[OF assms(1-4)]
  have later: "(open_request big r' \<longrightarrow> first_2a_free s' \<le> a') \<and> (oversized_request big r' \<longrightarrow> first_30_free s' \<le> a')"
    if "(r', a') \<in> set xs" for r' a'
    using assms(5) that by (auto simp: steered_def list_all_iff)
  have "put_after big (r, a) y" if "y \<in> set xs" for y
    using later[of "fst y" "snd y"] that sp(5,6) by (auto simp: put_after_def word_le_nat_alt)
  moreover have "(open_request big r' \<longrightarrow> first_2a_free s \<le> a') \<and> (oversized_request big r' \<longrightarrow> first_30_free s \<le> a')"
    if "(r', a') \<in> set xs" for r' a'
    using later[OF that] sp(3,4) by auto
  ultimately show ?thesis
    using assms(5) sp(2,6,7) by (auto simp: steered_def list_all_iff)
qed

lemma nudge_all_steered:
  assumes "pointers_below k s" "0x300000000000 \<le> k"
    and "k + sum_list (map (\<lambda>(r, pages). unat (fst (snd (real_nudge r)))) rs) < 2 ^ 63"
  shows "(\<exists>r used a. (r, Some used) \<in> set rs \<and> used a \<and> nudge_all real_nudge big rs s = Inl AssertFailed)
    \<or> (\<exists>as s'. nudge_all real_nudge big rs s = Inr (as, s') \<and> length as = length rs
         \<and> steered big s (zip (map (real_nudge \<circ> fst) rs) as))"
  using assms
proof (induction rs arbitrary: k s)
  case Nil
  then show ?case by (simp add: steered_def)
next
  case (Cons x rs)
  obtain r pages where x: "x = (r, pages)" by (cases x)
  obtain a s1 where st: "steer big (real_nudge r) s = (a, s1)" by (cases "steer big (real_nudge r) s")
  let ?n = "unat (fst (snd (real_nudge r)))"
  have n: "k + ?n < 2 ^ 63" using Cons.prems(3) by (simp add: x)
  note sp = steer_spec[OF Cons.prems(1,2) n st]
  note ns = nudge_steer[of s real_nudge pages big r, unfolded st]
  show ?case
  proof (cases "\<exists>used. pages = Some used \<and> used a")
    case True
    then obtain used where u: "pages = Some used" "used a" by blast
    then have "nudge_all real_nudge big (x # rs) s = Inl AssertFailed"
      using ns Cons.prems(1) by (simp add: x pointers_below_def)
    then show ?thesis
      using u by (intro disjI1 exI[of _ r] exI[of _ used] exI[of _ a]) (simp del: nudge_all.simps add: x)
  next
    case False
    then have w: "wrap_liballocs_nudge_mmap real_nudge pages big r s = Inr (a, s1)"
      using ns Cons.prems(1) by (auto simp: pointers_below_def split: option.split)
    have "(\<exists>r used a. (r, Some used) \<in> set rs \<and> used a \<and> nudge_all real_nudge big rs s1 = Inl AssertFailed)
      \<or> (\<exists>as s'. nudge_all real_nudge big rs s1 = Inr (as, s') \<and> length as = length rs
           \<and> steered big s1 (zip (map (real_nudge \<circ> fst) rs) as))"
      by (rule Cons.IH[OF sp(1)]) (use Cons.prems(2,3) in \<open>simp_all add: x add.assoc\<close>)
    then show ?thesis
    proof (elim disjE exE conjE)
      fix r' used a' assume "(r', Some used) \<in> set rs" "used a'" "nudge_all real_nudge big rs s1 = Inl AssertFailed"
      then show ?thesis using w by (intro disjI1 exI[of _ r'] exI[of _ used] exI[of _ a']) (simp add: x)
    next
      fix as s' assume "nudge_all real_nudge big rs s1 = Inr (as, s')" "length as = length rs"
        "steered big s1 (zip (map (real_nudge \<circ> fst) rs) as)"
      then show ?thesis
        using w steered_Cons[OF Cons.prems(1,2) n st]
        by (intro disjI2 exI[of _ "a # as"] exI[of _ s']) (simp add: x comp_def)
    qed
  qed
qed



end
