(* ===== verification/Type_Checks.thy ===== *)
theory Type_Checks
  imports Type_Relations
begin

text \<open>
  The type checks: the inline entry points of \<^verbatim>\<open>include/libcrunch_cil_inlines.h\<close> and the
  out-of-line decisions of \<^verbatim>\<open>src/libcrunch.c\<close>.  Each check takes the address of its caller, for the
  report (\<^verbatim>\<open>__builtin_return_address(0)\<close>), gives the C result, an \<^verbatim>\<open>int\<close>, and updates the counters,
  the cache and the diagnostics.  The lemmas show which types a check accepts and
  how it is counted.
\<close>

subsection \<open>The exits that the checks share\<close>

definition count_success :: "'w crunch \<Rightarrow> 'w crunch" where
  "count_success st = st\<lparr> cnt_succeeded := cnt_succeeded st + 1 \<rparr>"

definition succeed :: "'w crunch \<Rightarrow> (int \<times> 'w crunch) outcome" where
  "succeed st = Inr (1, count_success st)"

definition report_failed ::
  "'w liballocs \<Rightarrow> addr \<Rightarrow> check_kind \<Rightarrow> uniqtype \<Rightarrow> uniqtype \<Rightarrow> uniqtype \<Rightarrow> 'w crunch \<Rightarrow>
     (int \<times> 'w crunch) outcome" where
  "report_failed la site kind found test alloc_t st =
     omap (Pair 1) (report_failure_if_necessary la site kind found test alloc_t
                 (st\<lparr> cnt_failed := cnt_failed st + 1 \<rparr>))"

text \<open>The failure exit: inside an allocation function nothing is reported.\<close>

definition fail_check ::
  "'w liballocs \<Rightarrow> addr \<Rightarrow> check_kind \<Rightarrow> uniqtype \<Rightarrow> uniqtype \<Rightarrow> uniqtype \<Rightarrow> 'w crunch \<Rightarrow>
     (int \<times> 'w crunch) outcome" where
  "fail_check la site kind found test alloc_t st =
     (if currently_allocating la (world st) \<or> currently_freeing la (world st)
      then Inr (1, st\<lparr> cnt_failed_in_alloc := cnt_failed_in_alloc st + 1 \<rparr>)
      else report_failed la site kind found test alloc_t st)"

definition finish_check ::
  "'w liballocs \<Rightarrow> addr \<Rightarrow> check_kind \<Rightarrow> uniqtype \<Rightarrow> uniqtype \<Rightarrow> uniqtype \<Rightarrow> bool \<Rightarrow> 'w crunch \<Rightarrow>
     (int \<times> 'w crunch) outcome" where
  "finish_check la site kind found test alloc_t ok st =
     (if ok then succeed st else fail_check la site kind found test alloc_t st)"

text \<open>\<^verbatim>\<open>CHECK_INIT\<close> and \<^verbatim>\<open>DO_QUERY\<close>; an error of the query leaves through \<^verbatim>\<open>out\<close>, which returns 1.\<close>

definition with_alloc ::
  "'w liballocs \<Rightarrow> addr \<Rightarrow> 'w crunch \<Rightarrow> (alloc_info \<Rightarrow> 'w crunch \<Rightarrow> (int \<times> 'w crunch) outcome) \<Rightarrow>
     (int \<times> 'w crunch) outcome" where
  "with_alloc la obj st body =
     obind (check_init la st) (\<lambda>st.
       obind (do_query la obj st) (\<lambda>(r, st).
         case r of None \<Rightarrow> Inr (1, st) | Some info \<Rightarrow> body info st))"

text \<open>\<^verbatim>\<open>DO_ARRAY_PRECISIFY\<close> follows.\<close>

definition with_precise_alloc ::
  "'w liballocs \<Rightarrow> addr \<Rightarrow> 'w crunch \<Rightarrow> (alloc_info \<Rightarrow> 'w crunch \<Rightarrow> (int \<times> 'w crunch) outcome) \<Rightarrow>
     (int \<times> 'w crunch) outcome" where
  "with_precise_alloc la obj st body =
     with_alloc la obj st (\<lambda>info st. obind (do_array_precisify la info st) (\<lambda>(info, st). body info st))"


subsection \<open>\<^verbatim>\<open>__is_a\<close>\<close>

text \<open>
  The memory range that is cached for a match.  Where the match lies in an array of known length it
  is the array; otherwise it goes from the allocation's start, displaced by what is left of the
  searched-for offset, to the end of the object.
\<close>

definition is_a_range ::
  "'w liballocs \<Rightarrow> addr \<Rightarrow> uniqtype \<Rightarrow> alloc_info \<Rightarrow> match_result \<Rightarrow> addr \<times> addr" where
  "is_a_range la obj test info m =
     (if mr_containing m \<noteq> 0 \<and> is_array_type la (mr_containing m)
         \<and> has_known_length la (mr_containing m)
      then (let base = ai_start info + ucast (mr_cumulative m) - ucast (mr_contained_off m)
            in (base, base + size_of_type la (mr_containing m)))
      else (ai_start info + ucast (mr_offset m), obj + size_of_type la test))"

definition cache_match ::
  "'w liballocs \<Rightarrow> addr \<Rightarrow> uniqtype \<Rightarrow> alloc_info \<Rightarrow> match_result \<Rightarrow> int \<Rightarrow> 'w crunch \<Rightarrow> 'w crunch" where
  "cache_match la obj test info m depth st =
     (if ai_allocator info \<noteq> 0 \<and> is_cacheable la (ai_allocator info)
      then (case is_a_range la obj test info m of (base, limit) \<Rightarrow>
              cache_is_a la base limit test depth (ucast (pos_maxoff la test)) (ai_start info) st)
      else st)"

text \<open>
  The first part of the decision: \<open>None\<close> where the elements of an array are too small, otherwise the
  result of the search.
\<close>

definition is_a_search ::
  "'w liballocs \<Rightarrow> addr \<Rightarrow> uniqtype \<Rightarrow> alloc_info \<Rightarrow> 'w crunch \<Rightarrow>
     (match_result option \<times> alloc_info \<times> 'w crunch) outcome" where
  "is_a_search la obj test info st =
     (let t = ai_uniqtype info; elem = array_element_type la t; off = target_offset obj info;
          typed_array = (is_array_type la t \<and> elem \<noteq> 0)
      in if typed_array \<and> test = 0 then Inl NullDeref
         else if typed_array \<and> pos_maxoff la elem < pos_maxoff la test then Inr (None, info, st)
         else if typed_array \<and> elem = test \<and> off = 0
         then Inr (Some \<lparr> mr_success = True, mr_type = t, mr_offset = off, mr_cumulative = 0,
                          mr_containing = 0, mr_contained_off = 0 \<rparr>, info, st)
         else omap (\<lambda>(info, st). (Some (find_matching_subobject la off (ai_uniqtype info) test), info, st))
                (do_array_precisify la info st))"

text \<open>Whether a failed match falls back on giving an as yet untyped heap chunk its type.\<close>

definition is_lazily_typed :: "'w liballocs \<Rightarrow> alloc_info \<Rightarrow> 'w crunch \<Rightarrow> bool" where
  "is_lazily_typed la info st \<longleftrightarrow> has_set_type la (ai_allocator info)
     \<and> is_array_type la (ai_uniqtype info) \<and> array_element_type la (ai_uniqtype info) \<noteq> 0
     \<and> is_abstract_type la (array_element_type la (ai_uniqtype info))
     \<and> \<not> currently_allocating la (world st)"

definition is_a_decide ::
  "'w liballocs \<Rightarrow> addr \<Rightarrow> addr \<Rightarrow> uniqtype \<Rightarrow> match_result \<Rightarrow> alloc_info \<Rightarrow> 'w crunch \<Rightarrow>
     (int \<times> 'w crunch) outcome" where
  "is_a_decide la site obj test m info st =
     (if ai_allocator info \<noteq> 0 \<and> is_cacheable la (ai_allocator info) \<and> test = 0 then Inl NullDeref
      else if mr_success m then succeed (cache_match la obj test info m 1 st)
      else if ai_allocator info = 0 then Inl NullDeref
      else if is_lazily_typed la info st then
        (if get_insert la (world st) obj = 0 then Inl AssertFailed
         else if test = 0 then Inl NullDeref
         else if pos_maxoff la test = 0 then Inl DivByZero
         else (case get_or_create_array_type la (world st) test
                      (ucast (ai_size info div size_of_type la test)) of
                 (w, arr) \<Rightarrow>
                   Inr (1, cache_match la obj test info m 0
                     (st\<lparr> world := set_type la (ai_allocator info) w obj arr \<rparr>))))
      else fail_check la site IS_A (mr_type m) test (ai_uniqtype info) st)"

definition is_a_internal ::
  "'w liballocs \<Rightarrow> addr \<Rightarrow> addr \<Rightarrow> uniqtype \<Rightarrow> 'w crunch \<Rightarrow> (int \<times> 'w crunch) outcome" where
  "is_a_internal la site obj test st =
     with_alloc la obj st (\<lambda>info st.
       obind (is_a_search la obj test info st) (\<lambda>(r, info, st).
         case r of
           None \<Rightarrow> fail_check la site IS_A (ai_uniqtype info) test (ai_uniqtype info) st
         | Some m \<Rightarrow> is_a_decide la site obj test m info st))"


subsection \<open>\<^verbatim>\<open>__like_a\<close> and \<^verbatim>\<open>__named_a\<close>\<close>

definition like_a_internal ::
  "'w liballocs \<Rightarrow> addr \<Rightarrow> addr \<Rightarrow> uniqtype \<Rightarrow> 'w crunch \<Rightarrow> (int \<times> 'w crunch) outcome" where
  "like_a_internal la site obj test st =
     with_precise_alloc la obj st (\<lambda>info st.
       let t = ai_uniqtype info
       in obind (descend_to_start la (subobject_rank la t) (target_offset obj info) t)
         (\<lambda>(found, _, cur).
           if \<not> found then fail_check la site LIKE_A cur test t st
           else obind (strip_arrays la (subobject_rank la cur) cur) (\<lambda>cur.
             obind (like_type la test cur) (\<lambda>ok. finish_check la site LIKE_A cur test t ok st))))"

definition offset_and_name_match_cb :: "'w liballocs \<Rightarrow> u32 \<Rightarrow> string \<Rightarrow> visit \<Rightarrow> bool" where
  "offset_and_name_match_cb la offset name v \<longleftrightarrow>
     offset = v_start v \<and> name_for_uniqtype la (v_spans v) = name"

definition named_a_internal ::
  "'w liballocs \<Rightarrow> addr \<Rightarrow> addr \<Rightarrow> string \<Rightarrow> 'w crunch \<Rightarrow> (int \<times> 'w crunch) outcome" where
  "named_a_internal la site obj test_typestr st =
     with_precise_alloc la obj st (\<lambda>info st.
       let off = target_offset obj info; t = ai_uniqtype info
       in finish_check la site NAMED_A t 0 t
            (list_ex (offset_and_name_match_cb la off test_typestr) (walk_subobjects_spanning la off t))
            st)"


subsection \<open>Functions\<close>

definition is_a_function_refining_internal ::
  "'w liballocs \<Rightarrow> addr \<Rightarrow> addr \<Rightarrow> uniqtype \<Rightarrow> 'w crunch \<Rightarrow> (int \<times> 'w crunch) outcome" where
  "is_a_function_refining_internal la site obj test st =
     with_alloc la obj st (\<lambda>info st.
       let t = ai_uniqtype info
       in finish_check la site IS_A_FUNCTION_REFINING t test t
            (ai_start info = obj \<and> function_refines la t test) st)"


subsection \<open>\<^verbatim>\<open>__loosely_like_a\<close> and pointer degrees\<close>

text \<open>
  The assertion is written \<^verbatim>\<open>0 == ins->alloc_site & 0x1ul\<close>, which C reads as
  \<^verbatim>\<open>(0 == ins->alloc_site) & 0x1ul\<close>.
\<close>

definition reinstate_looseness_if_necessary ::
  "'w liballocs \<Rightarrow> addr \<Rightarrow> addr \<Rightarrow> uniqtype \<Rightarrow> 'w crunch \<Rightarrow> 'w crunch outcome" where
  "reinstate_looseness_if_necessary la alloc_start alloc_site t st =
     (if alloc_is_dynamically_sized la alloc_start alloc_site \<and> alloc_site \<noteq> 0
         \<and> is_pointer_type la t
      then (let ins = get_insert la (world st) alloc_start
            in if ins = 0 then Inl NullDeref
               else if insert_alloc_site_flag la (world st) ins
               then (if insert_alloc_site la (world st) ins \<noteq> 0 then Inl AssertFailed
                     else Inr (st\<lparr> world := set_insert_alloc_site la (world st) ins
                                              (insert_alloc_site la (world st) ins OR 1) \<rparr>))
               else Inr st)
      else Inr st)"

definition loosely_like_a_internal ::
  "'w liballocs \<Rightarrow> addr \<Rightarrow> addr \<Rightarrow> uniqtype \<Rightarrow> 'w crunch \<Rightarrow> (int \<times> 'w crunch) outcome" where
  "loosely_like_a_internal la site obj test st =
     with_precise_alloc la obj st (\<lambda>info st.
       let t = ai_uniqtype info
       in obind (reinstate_looseness_if_necessary la (ai_start info) (ai_site info) t st) (\<lambda>st.
            obind (descend_to_start la (subobject_rank la t) (target_offset obj info) t)
              (\<lambda>(found, off, cur).
                if \<not> found then fail_check la site LOOSELY_LIKE_A cur test t st
                else obind (loosely_like_loop la (subobject_rank la cur) test off cur) (\<lambda>(ok, cur).
                  finish_check la site LOOSELY_LIKE_A cur test t ok st))))"

definition is_a_pointer_of_degree_internal ::
  "'w liballocs \<Rightarrow> addr \<Rightarrow> addr \<Rightarrow> int \<Rightarrow> 'w crunch \<Rightarrow> (int \<times> 'w crunch) outcome" where
  "is_a_pointer_of_degree_internal la site obj d st =
     with_precise_alloc la obj st (\<lambda>info st.
       let t = ai_uniqtype info
       in obind (reinstate_looseness_if_necessary la (ai_start info) (ai_site info) t st) (\<lambda>st.
            obind (holds_pointer_of_degree la t d (target_offset obj info)) (\<lambda>ok.
              if ok then succeed st
              else report_failed la site IS_A_POINTER_OF_DEGREE t 0 t st)))"


subsection \<open>\<^verbatim>\<open>__can_hold_pointer\<close>\<close>

definition match_pointer_subobj_strict_cb ::
  "'w liballocs \<Rightarrow> uniqtype \<Rightarrow> u32 \<Rightarrow> uniqtype \<Rightarrow> u32 \<Rightarrow> bool outcome" where
  "match_pointer_subobj_strict_cb la stored_to target_off spans_t span_start =
     Inr (span_start = target_off \<and> pointee_type la stored_to = spans_t)"

definition match_pointer_subobj_generic_cb ::
  "'w liballocs \<Rightarrow> uniqtype \<Rightarrow> u32 \<Rightarrow> uniqtype \<Rightarrow> u32 \<Rightarrow> bool outcome" where
  "match_pointer_subobj_generic_cb la stored_to target_off spans_t span_start =
     obind (pointer_degree la stored_to) (\<lambda>degree.
       if span_start = 0 then pointer_has_degree la spans_t (degree - 1) else Inr False)"

text \<open>A walk with a callback that can fail.\<close>

fun walk_until :: "(uniqtype \<Rightarrow> u32 \<Rightarrow> bool outcome) \<Rightarrow> visit list \<Rightarrow> bool outcome" where
  "walk_until cb [] = Inr False"
| "walk_until cb (v # vs) =
     obind (cb (v_spans v) (v_start v)) (\<lambda>stop. if stop then Inr True else walk_until cb vs)"

text \<open>
  The value that is stored, once it has been looked up: whether some subobject at its address is
  one that the target may point to.
\<close>

definition value_matches ::
  "'w liballocs \<Rightarrow> bool \<Rightarrow> uniqtype \<Rightarrow> u32 \<Rightarrow> uniqtype \<Rightarrow> bool outcome" where
  "value_matches la is_generic stored_to off value_t =
     (let cb = (if is_generic then match_pointer_subobj_generic_cb else match_pointer_subobj_strict_cb)
                 la stored_to off
      in obind (cb value_t 0) (\<lambda>ret.
           if ret then Inr True else walk_until cb (walk_subobjects_spanning la off value_t)))"

text \<open>Narrowing the type of an allocation that is not yet used; otherwise the check has failed.\<close>

definition specialise_or_fail ::
  "'w liballocs \<Rightarrow> addr \<Rightarrow> alloc_info \<Rightarrow> uniqtype \<Rightarrow> uniqtype \<Rightarrow> 'w crunch \<Rightarrow>
     (int \<times> 'w crunch) outcome" where
  "specialise_or_fail la site obj_info stored_to value_t st =
     (if \<not> is_abstract_pointer_type la stored_to \<and> value_t \<noteq> 0 \<and> is_abstract_pointer_type la value_t
      then (if pos_maxoff la stored_to = 0 then Inl DivByZero
            else if ai_allocator obj_info = 0 \<or> \<not> has_set_type la (ai_allocator obj_info)
            then Inl NullDeref
            else (case get_or_create_array_type la (world st) stored_to
                         (ucast (ai_size obj_info div size_of_type la stored_to)) of
                    (w, arr) \<Rightarrow>
                      Inr (1, st\<lparr> world := set_type la (ai_allocator obj_info) w
                                             (ai_start obj_info) arr \<rparr>)))
      else fail_check la site CAN_HOLD_POINTER 0 0 0 st)"

definition can_hold_value ::
  "'w liballocs \<Rightarrow> addr \<Rightarrow> addr \<Rightarrow> alloc_info \<Rightarrow> uniqtype \<Rightarrow> bool \<Rightarrow> 'w crunch \<Rightarrow>
     (int \<times> 'w crunch) outcome" where
  "can_hold_value la site value obj_info stored_to is_generic st =
     obind (do_query la value st) (\<lambda>(r, st).
       case r of None \<Rightarrow> Inr (1, st)
       | Some info \<Rightarrow>
           obind (do_array_precisify la info st) (\<lambda>(info, st).
             obind (reinstate_looseness_if_necessary la (ai_start info) (ai_site info)
                      (ai_uniqtype info) st) (\<lambda>st.
               obind (value_matches la is_generic stored_to (target_offset value info)
                        (ai_uniqtype info)) (\<lambda>ok.
                 if ok then succeed st
                 else specialise_or_fail la site obj_info stored_to (ai_uniqtype info) st))))"

definition can_hold_pointer_internal ::
  "'w liballocs \<Rightarrow> addr \<Rightarrow> addr \<Rightarrow> addr \<Rightarrow> 'w crunch \<Rightarrow> (int \<times> 'w crunch) outcome" where
  "can_hold_pointer_internal la site obj value st =
     with_precise_alloc la obj st (\<lambda>info st.
       let t = ai_uniqtype info
       in obind (descend_fully la (subobject_rank la t) (target_offset obj info) t)
         (\<lambda>(off, stored_to).
           if off = 0 \<and> is_pointer_type la stored_to then
             obind (pointer_degree_and_ultimate_pointee_type la stored_to) (\<lambda>(d, ultimate).
               if \<not> d > 0 \<or> ultimate = 0 then Inl AssertFailed
               else (let is_generic = is_generic_ultimate_pointee la ultimate
                     in if d = 1 \<and> is_generic then succeed st
                        else can_hold_value la site value info stored_to is_generic st))
           else specialise_or_fail la site info stored_to 0 st))"


subsection \<open>The inline entry points\<close>

text \<open>
  The out-of-line decisions as the inline code calls them; which library provides them is decided at
  link time.
\<close>

record 'w checkers =
  ck_is_a :: "addr \<Rightarrow> addr \<Rightarrow> uniqtype \<Rightarrow> 'w crunch \<Rightarrow> (int \<times> 'w crunch) outcome"
  ck_like_a :: "addr \<Rightarrow> addr \<Rightarrow> uniqtype \<Rightarrow> 'w crunch \<Rightarrow> (int \<times> 'w crunch) outcome"
  ck_loosely_like_a :: "addr \<Rightarrow> addr \<Rightarrow> uniqtype \<Rightarrow> 'w crunch \<Rightarrow> (int \<times> 'w crunch) outcome"
  ck_named_a :: "addr \<Rightarrow> addr \<Rightarrow> string \<Rightarrow> 'w crunch \<Rightarrow> (int \<times> 'w crunch) outcome"
  ck_is_a_function_refining :: "addr \<Rightarrow> addr \<Rightarrow> uniqtype \<Rightarrow> 'w crunch \<Rightarrow> (int \<times> 'w crunch) outcome"
  ck_is_a_pointer_of_degree :: "addr \<Rightarrow> addr \<Rightarrow> int \<Rightarrow> 'w crunch \<Rightarrow> (int \<times> 'w crunch) outcome"
  ck_can_hold_pointer :: "addr \<Rightarrow> addr \<Rightarrow> addr \<Rightarrow> 'w crunch \<Rightarrow> (int \<times> 'w crunch) outcome"

definition lib_checkers :: "'w liballocs \<Rightarrow> 'w checkers" where
  "lib_checkers la = \<lparr> ck_is_a = is_a_internal la, ck_like_a = like_a_internal la,
     ck_loosely_like_a = loosely_like_a_internal la, ck_named_a = named_a_internal la,
     ck_is_a_function_refining = is_a_function_refining_internal la,
     ck_is_a_pointer_of_degree = is_a_pointer_of_degree_internal la,
     ck_can_hold_pointer = can_hold_pointer_internal la \<rparr>"

lemma lib_checkers_simps [simp]:
  "ck_is_a (lib_checkers la) = is_a_internal la"
  "ck_like_a (lib_checkers la) = like_a_internal la"
  "ck_loosely_like_a (lib_checkers la) = loosely_like_a_internal la"
  "ck_named_a (lib_checkers la) = named_a_internal la"
  "ck_is_a_function_refining (lib_checkers la) = is_a_function_refining_internal la"
  "ck_is_a_pointer_of_degree (lib_checkers la) = is_a_pointer_of_degree_internal la"
  "ck_can_hold_pointer (lib_checkers la) = can_hold_pointer_internal la"
  by (simp_all add: lib_checkers_def)


definition count_begun :: "'w crunch \<Rightarrow> 'w crunch" where
  "count_begun st = st\<lparr> cnt_begun := cnt_begun st + 1 \<rparr>"

definition abort_typestr :: "'w crunch \<Rightarrow> (int \<times> 'w crunch) outcome" where
  "abort_typestr st =
     Inr (1, (count_begun st)\<lparr> cnt_aborted_typestr := cnt_aborted_typestr st + 1 \<rparr>)"

text \<open>Pointers that are not checked.\<close>

definition is_null_like :: "addr \<Rightarrow> bool" where
  "is_null_like obj \<longleftrightarrow> obj = 0 \<or> obj = -1"

definition is_aU ::
  "config \<Rightarrow> 'w liballocs \<Rightarrow> 'w checkers \<Rightarrow> addr \<Rightarrow> addr \<Rightarrow> uniqtype \<Rightarrow> 'w crunch \<Rightarrow> (int \<times> 'w crunch) outcome" where
  "is_aU c la ck site obj t st =
     (if noop_inlines c \<or> is_null_like obj then Inr (1, st)
      else if t = 0 then abort_typestr st
      else (let st = count_begun st
            in case cache_lookup la OolCache (world st) obj t 0 of
                 Some _ \<Rightarrow> succeed (st\<lparr> cnt_is_a_hit_cache := cnt_is_a_hit_cache st + 1 \<rparr>)
               | None \<Rightarrow> ck_is_a ck site (libcrunch_detrap c obj) t st))"

definition is_aS ::
  "config \<Rightarrow> 'w liballocs \<Rightarrow> 'w checkers \<Rightarrow> addr \<Rightarrow> addr \<Rightarrow> string \<Rightarrow> 'w crunch \<Rightarrow> (int \<times> 'w crunch) outcome" where
  "is_aS c la ck site obj typestr st =
     (if noop_inlines c \<or> is_null_like obj then Inr (1, st)
      else is_aU c la ck site obj (typestr_to_uniqtype la typestr) st)"

definition like_aU ::
  "config \<Rightarrow> 'w liballocs \<Rightarrow> 'w checkers \<Rightarrow> addr \<Rightarrow> addr \<Rightarrow> uniqtype \<Rightarrow> 'w crunch \<Rightarrow> (int \<times> 'w crunch) outcome" where
  "like_aU c la ck site obj t st =
     (if noop_inlines c \<or> is_null_like obj then Inr (1, st)
      else if t = 0 then abort_typestr st
      else ck_like_a ck site (libcrunch_detrap c obj) t (count_begun st))"

definition loosely_like_aU ::
  "config \<Rightarrow> 'w liballocs \<Rightarrow> 'w checkers \<Rightarrow> addr \<Rightarrow> addr \<Rightarrow> uniqtype \<Rightarrow> 'w crunch \<Rightarrow> (int \<times> 'w crunch) outcome" where
  "loosely_like_aU c la ck site obj t st =
     (if noop_inlines c \<or> is_null_like obj then Inr (1, st)
      else if t = 0 then abort_typestr st
      else ck_loosely_like_a ck site (libcrunch_detrap c obj) t (count_begun st))"

definition named_aU ::
  "config \<Rightarrow> 'w liballocs \<Rightarrow> 'w checkers \<Rightarrow> addr \<Rightarrow> addr \<Rightarrow> string option \<Rightarrow> 'w crunch \<Rightarrow> (int \<times> 'w crunch) outcome" where
  "named_aU c la ck site obj s st =
     (if noop_inlines c \<or> is_null_like obj then Inr (1, st)
      else case s of None \<Rightarrow> abort_typestr st
           | Some s \<Rightarrow> ck_named_a ck site (libcrunch_detrap c obj) s (count_begun st))"

definition is_a_function_refiningU ::
  "config \<Rightarrow> 'w liballocs \<Rightarrow> 'w checkers \<Rightarrow> addr \<Rightarrow> addr \<Rightarrow> uniqtype \<Rightarrow> 'w crunch \<Rightarrow> (int \<times> 'w crunch) outcome" where
  "is_a_function_refiningU c la ck site obj t st =
     (if noop_inlines c \<or> is_null_like obj then Inr (1, st)
      else if t = 0 then abort_typestr st
      else ck_is_a_function_refining ck site (libcrunch_detrap c obj) t (count_begun st))"

definition is_a_pointer_of_degree ::
  "config \<Rightarrow> 'w liballocs \<Rightarrow> 'w checkers \<Rightarrow> addr \<Rightarrow> addr \<Rightarrow> int \<Rightarrow> 'w crunch \<Rightarrow> (int \<times> 'w crunch) outcome" where
  "is_a_pointer_of_degree c la ck site obj d st =
     (if noop_inlines c \<or> is_null_like obj \<or> d = 0 then Inr (1, st)
      else ck_is_a_pointer_of_degree ck site (libcrunch_detrap c obj) d (count_begun st))"

definition can_hold_pointer ::
  "config \<Rightarrow> 'w liballocs \<Rightarrow> 'w checkers \<Rightarrow> addr \<Rightarrow> addr \<Rightarrow> addr \<Rightarrow> 'w crunch \<Rightarrow> (int \<times> 'w crunch) outcome" where
  "can_hold_pointer c la ck site target value st =
     (if noop_inlines c \<or> is_null_like target \<or> is_null_like value then Inr (1, st)
      else ck_can_hold_pointer ck site (libcrunch_detrap c target) value (count_begun st))"


subsection \<open>\<^verbatim>\<open>__check_args\<close>\<close>

text \<open>
  The arguments of a call through a function pointer, each against the pointee of the formal's type.
  The loop gives \<^verbatim>\<open>success\<close> and the index at which it stopped.  The checks of the arguments are
  called from the library, at \<open>pc\<close>.
\<close>

fun check_args_loop ::
  "config \<Rightarrow> 'w liballocs \<Rightarrow> addr \<Rightarrow> uniqtype \<Rightarrow> nat \<Rightarrow> addr list \<Rightarrow> 'w crunch \<Rightarrow>
     (bool \<times> nat \<times> 'w crunch) outcome" where
  "check_args_loop c la pc fun_t i [] st = Inr (True, i, st)"
| "check_args_loop c la pc fun_t i (argval # args) st =
     (if i < subprogram_narg la fun_t then
        (let expected = rel_ptr (related la fun_t (i + min 1 (subprogram_nret la fun_t)))
         in obind (if is_pointer_type la expected
                   then is_aU c la (lib_checkers la) pc argval (pointee_type la expected) st else Inr (1, st))
              (\<lambda>(ok, st). if odd ok then check_args_loop c la pc fun_t (i + 1) args st
                          else Inr (False, i, st)))
      else Inr (True, i, st))"

definition check_args_internal ::
  "config \<Rightarrow> 'w liballocs \<Rightarrow> addr \<Rightarrow> addr \<Rightarrow> addr list \<Rightarrow> 'w crunch \<Rightarrow> (int \<times> 'w crunch) outcome" where
  "check_args_internal c la pc obj args st =
     with_alloc la obj st (\<lambda>info st.
       let fun_t = ai_uniqtype info
       in if fun_t = 0 then Inl AssertFailed
          else if \<not> is_subprogram_type la fun_t then Inl Aborted
          else if ai_start info \<noteq> obj then Inl Aborted
          else obind (check_args_loop c la pc fun_t 0 args st) (\<lambda>(ok, i, st).
            let nargs = length args; narg = subprogram_narg la fun_t;
                success = (ok \<and> \<not> (i = nargs \<and> i < narg) \<and> \<not> (i < nargs \<and> i = narg))
            in Inr (if success then 0 else int i, st)))"


subsection \<open>The shortcuts of \<^verbatim>\<open>__is_a\<close>\<close>

text \<open>The verdict of the search.\<close>

definition search_verdict :: "match_result option \<Rightarrow> bool" where
  "search_verdict r = (case r of None \<Rightarrow> False | Some m \<Rightarrow> mr_success m)"

text \<open>
  What the documentation of liballocs says of its searches.  \<^verbatim>\<open>__liballocs_find_matching_subobject\<close> finds
  a type at an offset if descending through the subobjects that span the offset leads to that type with
  nothing left of the offset.
\<close>

definition subobject_search_sound :: "'w liballocs \<Rightarrow> bool" where
  "subobject_search_sound la \<longleftrightarrow>
     (\<forall>off t test. mr_success (find_matching_subobject la off t test) \<longleftrightarrow> spans_at la off t 0 test)"

text \<open>
  And of its types: a subobject is no larger than the type it is in; what spans an offset in an array
  is one of its elements, the first one at offset 0 if there is any; and making an array precise
  keeps it an array of the same elements.
\<close>

definition array_layout_sound :: "'w liballocs \<Rightarrow> bool" where
  "array_layout_sound la \<longleftrightarrow>
     (\<forall>off t off' t'. first_subobject_spanning la off t = Some (off', t') \<longrightarrow>
        pos_maxoff la t' \<le> pos_maxoff la t
        \<and> (is_array_type la t \<longrightarrow> t' = array_element_type la t \<and> (off = 0 \<longrightarrow> off' = 0)))
     \<and> (\<forall>w t start n. is_array_type la t \<longrightarrow>
          is_array_type la (snd (run_make_precise la w t start n))
          \<and> array_element_type la (snd (run_make_precise la w t start n)) = array_element_type la t)"

lemma precisify_array_type:
  assumes "array_layout_sound la" "is_array_type la (ai_uniqtype info)"
    and "do_array_precisify la info st = Inr (info', st')"
  shows "ai_uniqtype info' = array_element_type la (ai_uniqtype info)
     \<or> is_array_type la (ai_uniqtype info')
       \<and> array_element_type la (ai_uniqtype info') = array_element_type la (ai_uniqtype info)"
  using assms
  by (auto simp: do_array_precisify_def array_layout_sound_def Let_def split: if_split_asm prod.splits)
     (metis snd_conv)+

lemma spans_at_size:
  assumes "array_layout_sound la" "spans_at la off t off' t'"
  shows "pos_maxoff la t' \<le> pos_maxoff la t"
  using assms(2)
proof (induction rule: spans_at.induct)
  case (below off t off1 t1 off' t')
  then have "pos_maxoff la t1 \<le> pos_maxoff la t" using assms(1) unfolding array_layout_sound_def by blast
  then show ?case using below.IH by simp
qed simp

lemma spans_at_step:
  "spans_at la off t off' t' \<longleftrightarrow> off' = off \<and> t' = t
     \<or> (\<exists>off1 t1. first_subobject_spanning la off t = Some (off1, t1) \<and> spans_at la off1 t1 off' t')"
  by (subst spans_at.simps) auto

text \<open>
  The cases in which a shortcut differs from the full search: the tested type is the array type itself,
  larger than its elements; or the tested type is the element type of an array without elements.
\<close>

definition shortcut_differs :: "'w liballocs \<Rightarrow> u32 \<Rightarrow> uniqtype \<Rightarrow> uniqtype \<Rightarrow> uniqtype \<Rightarrow> bool" where
  "shortcut_differs la off t precise_t test \<longleftrightarrow>
     is_array_type la t \<and> array_element_type la t \<noteq> 0 \<and> off = 0
     \<and> (pos_maxoff la (array_element_type la t) < pos_maxoff la test \<and> precise_t = test
        \<or> array_element_type la t = test \<and> precise_t \<noteq> test
          \<and> first_subobject_spanning la 0 precise_t = None)"

text \<open>
  (C13) The shortcuts of \<^verbatim>\<open>__is_a_internal\<close> against the full search.  Suppose that liballocs' search descends
  through spanning subobjects, that subobjects are no larger than what they are in, that the subobjects
  of an array are its elements, and that making an array type precise succeeds and keeps the elements;
  the tested type is not null.  Then the first part of the check returns, and whether or not a shortcut
  applies it has the verdict of a full search of the allocation's type, made precise first, with
  exactly two exceptions, both at offset 0 of an array: if the tested type is the precise array type
  itself and larger than its elements, the shortcut fails where the search matches; and if the tested
  type is the element type of an array that has no first element, the shortcut matches where the search
  fails.
\<close>

theorem is_a_shortcuts_exact:
  assumes "subobject_search_sound la" "array_layout_sound la" "test \<noteq> 0"
    and "do_array_precisify la info st = Inr (info', st')"
  shows "\<exists>r i st1. is_a_search la obj test info st = Inr (r, i, st1)
    \<and> (search_verdict r
         = mr_success (find_matching_subobject la (target_offset obj info) (ai_uniqtype info') test)
       \<longleftrightarrow> \<not> shortcut_differs la (target_offset obj info) (ai_uniqtype info) (ai_uniqtype info') test)"
proof -
  let ?t = "ai_uniqtype info" and ?off = "target_offset obj info" and ?p = "ai_uniqtype info'"
  let ?elem = "array_element_type la ?t"
  have full: "mr_success (find_matching_subobject la ?off ?p test) \<longleftrightarrow> spans_at la ?off ?p 0 test"
    using assms(1) by (simp add: subobject_search_sound_def)
  have arr: "first_subobject_spanning la off ?p = Some (off', t') \<Longrightarrow> t' = ?elem \<and> (off = 0 \<longrightarrow> off' = 0)"
    if "is_array_type la ?t" "?p \<noteq> ?elem" for off off' t'
    using precisify_array_type[OF assms(2) that(1) assms(4)] that(2) assms(2)
    unfolding array_layout_sound_def by metis
  have small: "spans_at la ?off ?p 0 test \<longleftrightarrow> ?off = 0 \<and> ?p = test"
    if "is_array_type la ?t" "pos_maxoff la ?elem < pos_maxoff la test"
  proof -
    have n: "\<not> spans_at la off ?elem 0 test" for off
      using spans_at_size[OF assms(2), of off ?elem 0 test] that(2) by auto
    show ?thesis
    proof (cases "?p = ?elem")
      case True
      then show ?thesis using n that(2) by auto
    next
      case False
      then show ?thesis
        using n arr[OF that(1)] by (subst spans_at_step) auto
    qed
  qed
  have first: "spans_at la 0 ?p 0 test \<longleftrightarrow> ?p = test \<or> first_subobject_spanning la 0 ?p \<noteq> None"
    if "is_array_type la ?t" "?elem = test"
  proof (cases "?p = ?elem")
    case True
    then show ?thesis using that(2) by (auto intro: spans_at.here)
  next
    case False
    then show ?thesis
      using arr[OF that(1) False, of 0] that(2)
      by (subst spans_at_step) (auto intro: spans_at.here)
  qed
  show ?thesis
    using small first assms(3,4)
    by (auto simp: is_a_search_def Let_def search_verdict_def full shortcut_differs_def)
qed

lemma ex_subobject_search_sound: "subobject_search_sound ex_la"
proof -
  have s: "first_subobject_spanning ex_la = ex_sub" "find_matching_subobject ex_la = ex_match"
    by (simp_all add: ex_la_def)
  have e: "spans_at ex_la off t 0 test \<longleftrightarrow> off = 0 \<and> t = test" if "t = ex_int \<or> t = ex_schar" for off t test
    using that by (subst spans_at_step) (auto simp: s ex_sub_def)
  have "spans_at ex_la off t 0 test \<longleftrightarrow> mr_success (find_matching_subobject ex_la off t test)" for off t test
  proof (cases "ex_sub off t")
    case None
    then show ?thesis by (subst spans_at_step) (auto simp: s ex_match_def)
  next
    case (Some r)
    obtain off' t' where r: "ex_sub off t = Some (off', t')" using Some by (cases r) auto
    then have "t' = ex_int \<or> t' = ex_schar" by (auto simp: ex_sub_def split: if_split_asm)
    from e[OF this] r show ?thesis by (subst spans_at_step) (auto simp: s ex_match_def)
  qed
  then show ?thesis by (simp add: subobject_search_sound_def)
qed

lemma ex_array_layout_sound: "array_layout_sound ex_la"
  by (auto simp: array_layout_sound_def ex_la_def ex_sub_def ex_size_def split: if_split_asm)

text \<open>An \<^verbatim>\<open>int[10]\<close> is found to be an \<^verbatim>\<open>int\<close> at its start, but not to be an \<^verbatim>\<open>int[10]\<close>.\<close>

theorem is_a_shortcuts_exact_witness:
  "(\<exists>r i st1. is_a_search ex_la 0x1000 ex_int
      \<lparr> ai_allocator = ex_heap, ai_start = 0x1000, ai_size = 40, ai_uniqtype = ex_int_10, ai_site = 0 \<rparr> ex_st
    = Inr (r, i, st1) \<and> search_verdict r)
  \<and> (\<exists>r i st1. is_a_search ex_la 0x1000 ex_int_10
      \<lparr> ai_allocator = ex_heap, ai_start = 0x1000, ai_size = 40, ai_uniqtype = ex_int_10, ai_site = 0 \<rparr> ex_st
    = Inr (r, i, st1) \<and> \<not> search_verdict r)
  \<and> mr_success (find_matching_subobject ex_la 0 ex_int_10 ex_int_10)"
proof -
  let ?i = "\<lparr> ai_allocator = ex_heap, ai_start = 0x1000, ai_size = 40, ai_uniqtype = ex_int_10, ai_site = 0 \<rparr>"
  have p: "do_array_precisify ex_la ?i ex_st = Inr (?i, ex_st)"
    by (simp add: do_array_precisify_def ex_la_def)
  have m: "mr_success (find_matching_subobject ex_la 0 ex_int_10 t)" if "t = ex_int \<or> t = ex_int_10" for t
    using that by (auto simp: ex_la_def ex_match_def ex_sub_def)
  have d: "\<not> shortcut_differs ex_la 0 ex_int_10 ex_int_10 ex_int" "shortcut_differs ex_la 0 ex_int_10 ex_int_10 ex_int_10"
    by (simp_all add: shortcut_differs_def ex_la_def ex_size_def ex_sub_def)
  note w = is_a_shortcuts_exact[OF ex_subobject_search_sound ex_array_layout_sound _ p, of _ "0x1000"]
  show ?thesis
    using w[of ex_int] w[of ex_int_10] m d by (simp add: target_offset_def)
qed


subsection \<open>What a successful \<^verbatim>\<open>__is_a\<close> caches\<close>

lemma is_a_internal_matched:
  assumes "is_initialized st" "get_alloc_info la (world st) obj = (w, Some info)"
    and "ai_allocator info \<noteq> 0" "is_cacheable la (ai_allocator info)" "test \<noteq> 0"
    and "\<not> is_array_type la (ai_uniqtype info)" "make_precise la (ai_uniqtype info) = 0"
    and "find_matching_subobject la (target_offset obj info) (ai_uniqtype info) test = m"
    and "mr_success m"
  shows "is_a_internal la site obj test st = succeed (cache_match la obj test info m 1 (st\<lparr> world := w \<rparr>))"
  using assms
  by (simp add: is_a_internal_def with_alloc_def check_init_def libcrunch_check_init_def config_none_def
      do_query_def is_a_search_def do_array_precisify_def is_a_decide_def Let_def)

text \<open>
  (C39) A match inside a structure is cached for everything before it as well.  The library is initialised,
  the inlines are in use, the allocation is not an array and has a cacheable allocator, the search
  matches inside something that is not an array and leaves no offset over, the address is untagged and not
  yet in the cache, and the cache finds what was put into it.  When \<^verbatim>\<open>__is_a\<close> so succeeds at an address
  inside a structure, the cached range starts at the start of the allocation (the
  offset that is added to it is what the search has left over, which is zero) and ends after the
  object; so a second check at the start of the allocation, against the same type, hits the
  cache and succeeds whatever type the structure has there.
\<close>

theorem is_a_match_caches_from_start:
  assumes "is_initialized st" "get_alloc_info la (world st) obj = (w, Some info)"
    and "ai_allocator info \<noteq> 0" "is_cacheable la (ai_allocator info)" "test \<noteq> 0" "\<not> noop_inlines c"
    and "\<not> is_array_type la (ai_uniqtype info)" "make_precise la (ai_uniqtype info) = 0"
    and "find_matching_subobject la (target_offset obj info) (ai_uniqtype info) test = m"
    and "mr_success m" "mr_offset m = 0" "\<not> is_array_type la (mr_containing m)"
    and "\<not> is_null_like obj" "\<not> is_null_like (ai_start info)" "libcrunch_detrap c obj = obj"
    and "cache_lookup la OolCache (world st) obj test 0 = None"
    and "obj + size_of_type la test \<noteq> ai_start info"
    and "\<forall>w f. cf_limit f \<noteq> cf_base f \<longrightarrow>
      cache_lookup la OolCache (cache_with_type la OolCache w f) (cf_base f) (cf_uniqtype f) 0 \<noteq> None"
  shows "\<exists>st1 st2. is_aU c la (lib_checkers la) site obj test st = Inr (1, st1)
    \<and> is_aU c la (lib_checkers la) site2 (ai_start info) test st1 = Inr (1, st2)
    \<and> cnt_succeeded st2 = cnt_succeeded st + 2 \<and> cnt_failed st2 = cnt_failed st
    \<and> cnt_is_a_hit_cache st2 = cnt_is_a_hit_cache st + 1"
proof -
  define st1 where "st1 = count_success (cache_match la obj test info m 1 ((count_begun st)\<lparr> world := w \<rparr>))"
  have 1: "is_aU c la (lib_checkers la) site obj test st = Inr (1, st1)"
    using assms is_a_internal_matched[of "count_begun st" la obj w info test m site]
    by (simp add: is_aU_def count_begun_def st1_def succeed_def)
  obtain f where f: "world st1 = cache_with_type la OolCache w f" "cf_base f = ai_start info"
      "cf_limit f = obj + size_of_type la test" "cf_uniqtype f = test"
    using assms(3,4,11,12)
    by (simp add: st1_def count_success_def cache_match_def is_a_range_def cache_is_a_def)
  then obtain hit where "cache_lookup la OolCache (world st1) (ai_start info) test 0 = Some hit"
    using assms(17,18) by (metis option.exhaust)
  then have "is_aU c la (lib_checkers la) site2 (ai_start info) test st1 =
      succeed ((count_begun st1)\<lparr> cnt_is_a_hit_cache := cnt_is_a_hit_cache (count_begun st1) + 1 \<rparr>)"
    using assms(5,6,14) by (simp add: is_aU_def count_begun_def)
  then show ?thesis
    using 1 assms(3,4,11,12) by (simp add: succeed_def count_success_def count_begun_def st1_def
        cache_match_def is_a_range_def cache_is_a_def)
qed

text \<open>A structure of an int and, at offset 4, an unsigned int.\<close>

definition ex_mixed :: "ex_world liballocs" where
  "ex_mixed = ex_la\<lparr> find_matching_subobject := (\<lambda>off t test.
     \<lparr> mr_success = (t = ex_pair \<and> (off = 0 \<and> test = ex_int \<or> off = 4 \<and> test = ex_uint)),
       mr_type = t, mr_offset = 0, mr_cumulative = off, mr_containing = ex_pair, mr_contained_off = off \<rparr>) \<rparr>"

definition ex_mixed_st :: "ex_world crunch" where
  "ex_mixed_st = ex_st\<lparr> world := ex_w\<lparr> ex_allocs :=
     [\<lparr> ai_allocator = ex_heap, ai_start = 0x5000, ai_size = 8, ai_uniqtype = ex_pair, ai_site = 0 \<rparr>] \<rparr> \<rparr>"

theorem is_a_match_caches_from_start_witness:
  "\<not> mr_success (find_matching_subobject ex_mixed 0 ex_pair ex_uint)
   \<and> (\<exists>st1 st2. is_aU config_m ex_mixed (lib_checkers ex_mixed) 0x401000 0x5004 ex_uint ex_mixed_st = Inr (1, st1)
      \<and> is_aU config_m ex_mixed (lib_checkers ex_mixed) 0x401008 0x5000 ex_uint st1 = Inr (1, st2)
      \<and> cnt_succeeded st2 = 2 \<and> cnt_failed st2 = 0)"
proof -
  let ?i = "\<lparr> ai_allocator = ex_heap, ai_start = 0x5000, ai_size = 8, ai_uniqtype = ex_pair, ai_site = 0 \<rparr>"
  have hit: "\<forall>w f. cf_limit f \<noteq> cf_base f \<longrightarrow>
      cache_lookup ex_mixed OolCache (cache_with_type ex_mixed OolCache w f) (cf_base f) (cf_uniqtype f) 0 \<noteq> None"
    by (auto simp: ex_mixed_def ex_la_def ex_lookup_def ex_set_entries_def ex_entries_def ex_fill_def
        upt_conv_Cons word_neq_0_conv[symmetric] simp del: upt_Suc)
  have d: "libcrunch_detrap config_m 0x5004 = 0x5004"
    by (simp add: libcrunch_detrap_def config_defs)
  have la: "get_alloc_info ex_mixed (world ex_mixed_st) 0x5004 = (world ex_mixed_st, Some ?i)"
      "cache_lookup ex_mixed OolCache (world ex_mixed_st) 0x5004 ex_uint 0 = None"
      "0x5004 + size_of_type ex_mixed ex_uint \<noteq> ai_start ?i"
      "is_cacheable ex_mixed (ai_allocator ?i)" "make_precise ex_mixed (ai_uniqtype ?i) = 0"
      "\<not> is_array_type ex_mixed (ai_uniqtype ?i)"
      "find_matching_subobject ex_mixed (target_offset 0x5004 ?i) (ai_uniqtype ?i) ex_uint
        = \<lparr> mr_success = True, mr_type = ex_pair, mr_offset = 0, mr_cumulative = 4,
            mr_containing = ex_pair, mr_contained_off = 4 \<rparr>"
      "\<not> is_array_type ex_mixed ex_pair"
      "\<not> mr_success (find_matching_subobject ex_mixed 0 ex_pair ex_uint)"
    by (simp_all add: ex_mixed_def ex_mixed_st_def ex_defs size_of_type_def target_offset_def)
  have st: "is_initialized ex_mixed_st" "cnt_succeeded ex_mixed_st = 0" "cnt_failed ex_mixed_st = 0"
      "\<not> noop_inlines config_m" "\<not> is_null_like 0x5004" "\<not> is_null_like (ai_start ?i)"
    by (simp_all add: ex_mixed_st_def ex_st_def initial_crunch_def config_defs is_null_like_def)
  show ?thesis
    using is_a_match_caches_from_start[OF st(1) la(1) _ la(4) _ st(4) la(6,5,7) _ _ _ st(5,6) d la(2,3) hit,
        of "0x401000" "0x401008"] la(8,9) st(2,3) by auto
qed


subsection \<open>Structural and functional compatibility\<close>

text \<open>
  (C34) What \<^verbatim>\<open>__like_a\<close> accepts once the subobject at the address is found and arrays around it are
  removed.  An object is accepted if its type is the checked one.  Otherwise, if one of the two is an
  array type, it is accepted if and only if one is an array of length one of the other.  Otherwise it
  is accepted if neither is a base type and one is recorded as the signedness complement of the other,
  or if the members agree: going through both lists in order, each member of the checked type that is
  not an array of signed or unsigned characters is met by a member of the object with the same offset and
  type, and an array of characters stands for the object's member at that place and all that start before
  the checked type's next member (or the array's end); the object may have more members.  In
  particular, if the checked type has no such array, its members must be the first members of the object.
\<close>

theorem like_type_compares_members:
  "like_type la test t = Inr (test = t \<or>
     (if is_array_type la t \<or> is_array_type la test
      then array_of_one la test t \<or> array_of_one la t test
      else \<not> is_base_type la t \<and> \<not> is_base_type la test
             \<and> (signedness_complement la t = test \<or> signedness_complement la test = t)
           \<or> like_members la (members la test) (members la t)))
   \<and> ((\<forall>m \<in> set (members la test). \<not> is_char_array_member la m) \<longrightarrow>
        like_members la (members la test) (members la t)
        = (take (member_count la test) (members la t) = members la test))"
proof -
  have "length (members la test) = member_count la test" by (simp add: members_def)
  then show ?thesis
    using members_like_spec[of la test t 0 0] like_members_prefix[of "members la test" la "members la t"]
    by (auto simp: like_type_def)
qed

text \<open>The example of \<^verbatim>\<open>test/like-a\<close>: \<^verbatim>\<open>struct sockaddr_in\<close> against \<^verbatim>\<open>struct sockaddr\<close>, whose data is a character array.\<close>

definition ex_sock :: "ex_world liballocs" where
  "ex_sock = ex_la\<lparr> member_count := (\<lambda>t. if t = ex_pair then 2 else if t = ex_fun then 4 else 0),
     related := (\<lambda>t i. if t = ex_pair
       then [\<lparr> rel_off = 0, rel_ptr = ex_uint \<rparr>, \<lparr> rel_off = 2, rel_ptr = ex_schar_arr \<rparr>] ! i
       else [\<lparr> rel_off = 0, rel_ptr = ex_uint \<rparr>, \<lparr> rel_off = 2, rel_ptr = ex_uint \<rparr>,
             \<lparr> rel_off = 4, rel_ptr = ex_int \<rparr>, \<lparr> rel_off = 8, rel_ptr = ex_int_10 \<rparr>] ! i) \<rparr>"

theorem like_type_compares_members_witness:
  "like_type ex_sock ex_pair ex_fun = Inr True \<and> like_type ex_sock ex_fun ex_pair = Inr False"
proof -
  have m: "members ex_sock ex_pair = [\<lparr> rel_off = 0, rel_ptr = ex_uint \<rparr>, \<lparr> rel_off = 2, rel_ptr = ex_schar_arr \<rparr>]"
    "members ex_sock ex_fun = [\<lparr> rel_off = 0, rel_ptr = ex_uint \<rparr>, \<lparr> rel_off = 2, rel_ptr = ex_uint \<rparr>,
       \<lparr> rel_off = 4, rel_ptr = ex_int \<rparr>, \<lparr> rel_off = 8, rel_ptr = ex_int_10 \<rparr>]"
    by (simp_all add: members_def ex_sock_def upt_rec numeral_2_eq_2)
  have "like_members ex_sock (members ex_sock ex_pair) (members ex_sock ex_fun)"
    "\<not> like_members ex_sock (members ex_sock ex_fun) (members ex_sock ex_pair)"
    unfolding m by (simp_all add: is_char_array_member_def ex_sock_def ex_la_def)
  moreover have "\<not> is_array_type ex_sock ex_pair" "\<not> is_array_type ex_sock ex_fun"
    "signedness_complement ex_sock ex_pair = 0" "signedness_complement ex_sock ex_fun = 0"
    by (simp_all add: ex_sock_def ex_la_def)
  ultimately show ?thesis
    using like_type_compares_members[of ex_sock ex_pair ex_fun] like_type_compares_members[of ex_sock ex_fun ex_pair]
    by simp
qed

text \<open>
  Pointer degrees.  A type that is an \<open>n\<close>-fold pointer to a non-pointer has the degrees up to
  \<open>n\<close>; its ultimate pointee is found; and it counts as generic of degree \<open>n\<close> exactly when that pointee
  is void or a character type and \<open>n\<close> is at least what was asked for.  All the loops end.
\<close>

theorem pointer_degrees_correct:
  assumes "type_graph_sound la" "pointer_chain la t n u"
  shows "pointer_degree la t = Inr (int n)
    \<and> pointer_has_degree la t d = Inr (d \<le> int n)
    \<and> pointer_degree_and_ultimate_pointee_type la t = Inr (int n, u)
    \<and> is_generic_pointer_type_of_degree_at_least la t d =
        Inr (if d \<le> int n \<and> is_generic_ultimate_pointee la u then int n else 0)
    \<and> is_generic_pointer_type la t = Inr (1 \<le> n \<and> is_generic_ultimate_pointee la u)"
  using assms
  by (auto simp: pointer_degree_def pointer_degree_and_ultimate_chain pointer_has_degree_chain
      generic_degree_chain is_generic_pointer_type_def)

theorem pointer_degrees_correct_witness:
  "pointer_degree ex_la ex_void_ptr = Inr 1 \<and> is_generic_pointer_type ex_la ex_void_ptr = Inr True"
proof -
  have p: "is_pointer_type ex_la ex_void_ptr" "pointee_type ex_la ex_void_ptr = ex_void"
      "\<not> is_pointer_type ex_la ex_void" "is_generic_ultimate_pointee ex_la ex_void"
    by (simp_all add: ex_la_def is_generic_ultimate_pointee_def)
  moreover have "pointer_chain ex_la ex_void_ptr (Suc 0) ex_void"
    using p by (intro pointer_chain.ptr) (simp_all add: pointer_chain_zero)
  ultimately show ?thesis
    using pointer_degrees_correct[OF ex_la_type_graph_sound, of ex_void_ptr "Suc 0" ex_void] by simp
qed

text \<open>
  When a value of one type may always be passed where another is expected: the other is not a pointer
  type, or points to void or signed char, or the first is a pointer to a type that has the pointed-to
  type at its start.
\<close>

definition convertible :: "'w liballocs \<Rightarrow> uniqtype \<Rightarrow> uniqtype \<Rightarrow> bool" where
  "convertible la from to \<longleftrightarrow>
     (is_pointer_type la to \<longrightarrow> pointee_type la to \<notin> {uniqtype_void la, uniqtype_signed_char la} \<longrightarrow>
        is_pointer_type la from \<and> spans_at la 0 (pointee_type la from) 0 (pointee_type la to))"

text \<open>
  The types of a function's parameters.  A function type lists its result first, if it has one, and then
  its parameters.
\<close>

definition param_types :: "'w liballocs \<Rightarrow> uniqtype \<Rightarrow> uniqtype list" where
  "param_types la t = map (\<lambda>i. rel_ptr (related la t (min 1 (subprogram_nret la t) + i))) [0..<subprogram_narg la t]"

abbreviation (input) first_type :: "'w liballocs \<Rightarrow> uniqtype \<Rightarrow> uniqtype" where
  "first_type la t \<equiv> rel_ptr (related la t 0)"

lemma would_always_succeed_convertible:
  "subobject_search_sound la \<Longrightarrow> would_always_succeed la from to \<longleftrightarrow> convertible la from to"
  by (auto simp: would_always_succeed_def convertible_def subobject_search_sound_def)

lemma function_refines_spec:
  assumes "subobject_search_sound la" "min 1 (subprogram_nret la t) = min 1 (subprogram_nret la test)"
  shows "function_refines la t test \<longleftrightarrow> t = test \<or>
     is_subprogram_type la t \<and> convertible la (first_type la t) (first_type la test)
     \<and> list_all2 (convertible la) (param_types la test) (param_types la t)"
proof -
  have "(\<forall>i \<in> set [n..<n + k]. P i) \<longleftrightarrow> (\<forall>i < k. P (n + i))" for n k :: nat and P
    by (auto simp: le_iff_add)
  then show ?thesis
    using assms
    by (auto simp: function_refines_def args_refine_all would_always_succeed_convertible param_types_def
        list_all2_conv_all_nth)
qed

text \<open>
  (C31) Function types.  Suppose that liballocs' search descends through spanning subobjects, the library
  is initialised, and the address is in an allocation of type \<open>t\<close>; and that either both \<open>t\<close> and the
  type asked for have a result or neither has.  \<^verbatim>\<open>__is_a_function_refining\<close> then succeeds if and only if
  the address is the start of the allocation and \<open>t\<close> is the type asked for, or \<open>t\<close> is a function
  type, it takes as many parameters, the first entry of \<open>t\<close> is convertible to the first entry of the type
  asked for, and every parameter of the type asked for is convertible to the one of \<open>t\<close>.  If the
  functions have results, the first entries are these: results are compared covariantly and parameters
  contravariantly.  If they have none, the first entries are the first parameters, which must then be
  convertible both ways.  Convertible means: to anything but a pointer, to a pointer to void or signed
  char, or from a pointer whose target has the other's target type at its start.
\<close>

theorem function_refining_contravariant:
  assumes "is_initialized st" "get_alloc_info la (world st) obj = (w, Some info)"
    and "subobject_search_sound la"
    and "min 1 (subprogram_nret la (ai_uniqtype info)) = min 1 (subprogram_nret la test)"
  shows "is_a_function_refining_internal la site obj test st =
    (let t = ai_uniqtype info
     in if ai_start info = obj \<and> (t = test \<or>
            is_subprogram_type la t \<and> convertible la (first_type la t) (first_type la test)
            \<and> list_all2 (convertible la) (param_types la test) (param_types la t))
        then succeed (st\<lparr> world := w \<rparr>)
        else fail_check la site IS_A_FUNCTION_REFINING t test t (st\<lparr> world := w \<rparr>))
    \<and> (subprogram_nret la test = 0 \<and> subprogram_narg la test > 0 \<longrightarrow>
         first_type la test = hd (param_types la test))"
proof -
  have "subprogram_nret la test = 0 \<and> subprogram_narg la test > 0 \<longrightarrow>
      first_type la test = hd (param_types la test)"
    by (simp add: param_types_def upt_rec)
  then show ?thesis
    using assms(1,2) function_refines_spec[OF assms(3,4)]
    by (simp add: is_a_function_refining_internal_def with_alloc_def check_init_def
        libcrunch_check_init_def config_none_def do_query_def finish_check_def Let_def)
qed

theorem function_refining_contravariant_witness:
  "is_a_function_refining_internal ex_la 0x401008 0x401000 ex_fun ex_st = succeed ex_st"
  using function_refining_contravariant[of ex_st ex_la "0x401000" ex_w
      "\<lparr> ai_allocator = ex_heap, ai_start = 0x401000, ai_size = 16, ai_uniqtype = ex_fun, ai_site = 0 \<rparr>"
      ex_fun "0x401008", OF _ _ ex_subobject_search_sound]
  by (simp add: ex_defs)


subsection \<open>Storing pointers\<close>

lemma generic_cb_inner:
  assumes "type_graph_sound la" "span_start \<noteq> 0"
  shows "match_pointer_subobj_generic_cb la stored_to off t span_start = Inr False"
proof -
  obtain n u where "pointer_chain la stored_to n u" using pointer_chain_exists[OF assms(1)] by blast
  then show ?thesis using assms
    by (simp add: match_pointer_subobj_generic_cb_def pointer_degree_def pointer_degree_and_ultimate_chain)
qed

lemma walk_until_all_False:
  "\<forall>v \<in> set vs. cb (v_spans v) (v_start v) = Inr False \<Longrightarrow> walk_until cb vs = Inr False"
  by (induction vs) auto

text \<open>
  A pointer to an array element never matches a generic pointer to a pointer.  The callback for
  generic pointers compares the start of the subobject with zero, not with the offset of the value
  (the callback for other pointers does), so only subobjects at the start of the allocation can
  match: if none of those has the degree, the value does not match, even when it points exactly
  to a subobject that does.
\<close>

theorem generic_match_ignores_inner_subobjects:
  assumes "type_graph_sound la" "pointer_chain la stored_to n u" "pointer_chain la value_t k v"
    and "int k < int n - 1"
    and "\<forall>x \<in> set (walk_subobjects_spanning la off value_t). v_start x \<noteq> 0"
  shows "value_matches la True stored_to off value_t = Inr False"
proof -
  have "match_pointer_subobj_generic_cb la stored_to off value_t 0 = Inr False"
    using assms(1-4)
    by (simp add: match_pointer_subobj_generic_cb_def pointer_degree_def pointer_degree_and_ultimate_chain
        pointer_has_degree_chain)
  then show ?thesis
    using walk_until_all_False[of "walk_subobjects_spanning la off value_t"
        "match_pointer_subobj_generic_cb la stored_to off"] generic_cb_inner[OF assms(1)] assms(5)
    by (simp add: value_matches_def)
qed

text \<open>An array of ten void pointers, and a pointer to such pointers.\<close>

definition ex_ptrs :: "ex_world liballocs" where
  "ex_ptrs = ex_la\<lparr> array_element_type := (\<lambda>t. ex_void_ptr), first_subobject_spanning := (\<lambda>off t. None),
     is_pointer_type := (\<lambda>t. t = ex_void_ptr \<or> t = ex_pair_ptr),
     pointee_type := (\<lambda>t. if t = ex_pair_ptr then ex_void_ptr else ex_void),
     pointer_rank := (\<lambda>t. if t = ex_pair_ptr then 2 else if t = ex_void_ptr then 1 else 0),
     walk_subobjects_spanning := (\<lambda>off t. if t = ex_int_10
       then [\<lparr> v_spans = ex_void_ptr, v_start = off, v_containing = ex_int_10, v_containing_start = 0 \<rparr>] else []) \<rparr>"

theorem generic_match_ignores_inner_subobjects_witness:
  "value_matches ex_ptrs True ex_pair_ptr 24 ex_int_10 = Inr False
   \<and> value_matches ex_ptrs False ex_pair_ptr 24 ex_int_10 = Inr True"
proof -
  have g: "type_graph_sound ex_ptrs"
    by (auto simp: type_graph_sound_def ex_ptrs_def ex_la_def)
  have p: "is_pointer_type ex_ptrs ex_pair_ptr" "is_pointer_type ex_ptrs ex_void_ptr"
      "pointee_type ex_ptrs ex_pair_ptr = ex_void_ptr" "pointee_type ex_ptrs ex_void_ptr = ex_void"
      "\<not> is_pointer_type ex_ptrs ex_void" "\<not> is_pointer_type ex_ptrs ex_int_10"
      "walk_subobjects_spanning ex_ptrs 24 ex_int_10
        = [\<lparr> v_spans = ex_void_ptr, v_start = 24, v_containing = ex_int_10, v_containing_start = 0 \<rparr>]"
    by (simp_all add: ex_ptrs_def ex_la_def)
  have "pointer_chain ex_ptrs ex_pair_ptr (Suc (Suc 0)) ex_void"
    using p by (intro pointer_chain.ptr) (simp_all add: pointer_chain_zero)
  moreover have "pointer_chain ex_ptrs ex_int_10 0 ex_int_10"
    using p by (simp add: pointer_chain_zero)
  ultimately show ?thesis
    using generic_match_ignores_inner_subobjects[OF g, of ex_pair_ptr _ ex_void ex_int_10 0 ex_int_10 24] p
    by (simp add: value_matches_def match_pointer_subobj_strict_cb_def)
qed

end
