(* ===== verification/Check_Contract.thy ===== *)
theory Check_Contract
  imports Type_Checks
begin

text \<open>
  What the instrumented program may expect of the type checks, whichever library provides them: a
  check returns 1, so the program goes on, or stops the program for one of the causes named for that
  check; it leaves the program's memory and the bounds stack alone; and it is counted at most once
  among the successes, the failures and the aborts, never without having been counted as begun.  The
  contract is the locale \<open>program_check\<close>; its client lemma is about a whole run of checks.  The library's own checks are one interpretation (the dummy
  library's are another, in the theory of the stubs).
\<close>

definition tally :: "'w crunch \<Rightarrow> u64" where
  "tally st = cnt_succeeded st + cnt_failed st + cnt_failed_in_alloc st + cnt_aborted_typestr st"

definition same_program :: "'w crunch \<Rightarrow> 'w crunch \<Rightarrow> bool" where
  "same_program st st' \<longleftrightarrow> memory st' = memory st \<and> bounds_sp st' = bounds_sp st"

text \<open>At most \<open>n\<close> checks were begun between the two states, and no more than those were counted.\<close>

definition counted :: "nat \<Rightarrow> 'w crunch \<Rightarrow> 'w crunch \<Rightarrow> bool" where
  "counted n st st' \<longleftrightarrow> (\<exists>b t. t \<le> b \<and> b \<le> n \<and> cnt_begun st' = cnt_begun st + of_nat b
     \<and> tally st' = tally st + of_nat t)"

lemma countedI:
  "t \<le> b \<Longrightarrow> b \<le> n \<Longrightarrow> cnt_begun st' = cnt_begun st + of_nat b \<Longrightarrow>
     tally st' = tally st + of_nat t \<Longrightarrow> counted n st st'"
  unfolding counted_def by blast

lemma counted_trans: "counted m st st1 \<Longrightarrow> counted n st1 st2 \<Longrightarrow> counted (m + n) st st2"
  unfolding counted_def
proof (elim exE conjE)
  fix b t b' t' assume "t \<le> b" "b \<le> m" "t' \<le> b'" "b' \<le> n"
    and "cnt_begun st1 = cnt_begun st + of_nat b" "tally st1 = tally st + of_nat t"
    and "cnt_begun st2 = cnt_begun st1 + of_nat b'" "tally st2 = tally st1 + of_nat t'"
  then show "\<exists>b t. t \<le> b \<and> b \<le> m + n \<and> cnt_begun st2 = cnt_begun st + of_nat b
     \<and> tally st2 = tally st + of_nat t"
    by (intro exI[of _ "b + b'"] exI[of _ "t + t'"]) (simp add: add.assoc)
qed

lemma same_program_trans: "same_program st st1 \<Longrightarrow> same_program st1 st2 \<Longrightarrow> same_program st st2"
  by (simp add: same_program_def)

locale program_check =
  fixes check :: "'call \<Rightarrow> 'w crunch \<Rightarrow> (int \<times> 'w crunch) outcome"
    and ready :: "'w crunch \<Rightarrow> bool"
    and stops :: "'call \<Rightarrow> fault \<Rightarrow> bool"
  assumes check_returns: "ready st \<Longrightarrow> (\<exists>e. check call st = Inl e \<and> stops call e)
      \<or> (\<exists>st'. check call st = Inr (1, st') \<and> ready st' \<and> same_program st st' \<and> counted 1 st st')"
begin

fun run :: "'call list \<Rightarrow> 'w crunch \<Rightarrow> (int list \<times> 'w crunch) outcome" where
  "run [] st = Inr ([], st)"
| "run (call # calls) st =
     obind (check call st) (\<lambda>(r, st). omap (\<lambda>(rs, st). (r # rs, st)) (run calls st))"

text \<open>The calls that return all return 1; there is a first call that stops, or all of them return.\<close>

lemma run_returns:
  assumes "ready st"
  shows "\<exists>n st'. n \<le> length calls \<and> run (take n calls) st = Inr (replicate n 1, st') \<and> ready st'
    \<and> same_program st st' \<and> counted n st st'
    \<and> (n < length calls \<longrightarrow> (\<exists>e. check (calls ! n) st' = Inl e \<and> stops (calls ! n) e \<and> run calls st = Inl e))"
  using assms
proof (induction calls arbitrary: st)
  case Nil
  show ?case using Nil(1)
    by (simp add: same_program_def counted_def exI[of _ "0 :: nat"])
next
  case (Cons call calls)
  from check_returns[OF Cons.prems, of call]
  consider e where "check call st = Inl e" "stops call e"
    | st1 where "check call st = Inr (1, st1)" "ready st1" "same_program st st1" "counted 1 st st1"
    by blast
  then show ?case
  proof cases
    case 1
    then show ?thesis using Cons.prems
      by (intro exI[of _ 0] exI[of _ st]) (simp add: same_program_def counted_def exI[of _ "0 :: nat"])
  next
    case 2
    obtain n st2 where n: "n \<le> length calls" "run (take n calls) st1 = Inr (replicate n 1, st2)" "ready st2"
        "same_program st1 st2" "counted n st1 st2"
        "n < length calls \<longrightarrow> (\<exists>e. check (calls ! n) st2 = Inl e \<and> stops (calls ! n) e \<and> run calls st1 = Inl e)"
      using Cons.IH[OF 2(2)] by blast
    show ?thesis
      using 2 n same_program_trans[OF 2(3) n(4)] counted_trans[OF 2(4) n(5)]
      by (intro exI[of _ "Suc n"] exI[of _ st2]) auto
  qed
qed

end


subsection \<open>The calls that the instrumentation emits\<close>

datatype check_call =
    CallIsA addr addr uniqtype
  | CallIsAS addr addr string
  | CallLikeA addr addr uniqtype
  | CallLooselyLikeA addr addr uniqtype
  | CallNamedA addr addr "string option"
  | CallFunctionRefining addr addr uniqtype
  | CallPointerOfDegree addr addr int
  | CallCanHoldPointer addr addr addr

fun run_call ::
  "config \<Rightarrow> 'w liballocs \<Rightarrow> 'w checkers \<Rightarrow> check_call \<Rightarrow> 'w crunch \<Rightarrow> (int \<times> 'w crunch) outcome" where
  "run_call c la ck (CallIsA site obj t) st = is_aU c la ck site obj t st"
| "run_call c la ck (CallIsAS site obj s) st = is_aS c la ck site obj s st"
| "run_call c la ck (CallLikeA site obj t) st = like_aU c la ck site obj t st"
| "run_call c la ck (CallLooselyLikeA site obj t) st = loosely_like_aU c la ck site obj t st"
| "run_call c la ck (CallNamedA site obj s) st = named_aU c la ck site obj s st"
| "run_call c la ck (CallFunctionRefining site obj t) st = is_a_function_refiningU c la ck site obj t st"
| "run_call c la ck (CallPointerOfDegree site obj d) st = is_a_pointer_of_degree c la ck site obj d st"
| "run_call c la ck (CallCanHoldPointer site obj value) st = can_hold_pointer c la ck site obj value st"

fun run_calls ::
  "config \<Rightarrow> 'w liballocs \<Rightarrow> 'w checkers \<Rightarrow> check_call list \<Rightarrow> 'w crunch \<Rightarrow> (int list \<times> 'w crunch) outcome" where
  "run_calls c la ck [] st = Inr ([], st)"
| "run_calls c la ck (call # calls) st =
     obind (run_call c la ck call st) (\<lambda>(r, st).
       omap (\<lambda>(rs, st). (r # rs, st)) (run_calls c la ck calls st))"

text \<open>
  What the checks rely on: types form finite hierarchies, the library is initialised, and every
  entry of the suppression list that precedes its end is complete.
\<close>

definition suppressions_readable :: "'w crunch \<Rightarrow> bool" where
  "suppressions_readable st \<longleftrightarrow> (\<forall>ss. suppressions st = Some ss \<longrightarrow>
     (\<forall>s \<in> set ss. test_type_pat s \<noteq> None \<longrightarrow> testing_function_pat s \<noteq> None \<and> alloc_type_pat s \<noteq> None))"

definition checks_ready :: "'w liballocs \<Rightarrow> 'w crunch \<Rightarrow> bool" where
  "checks_ready la st \<longleftrightarrow> type_graph_sound la \<and> is_initialized st \<and> suppressions_readable st"

text \<open>
  The answers of liballocs that the checks are not prepared for.  An allocator that a query may give;
  a missing insert; an insert that holds a type in place of its allocation site (the assertion in
  \<open>reinstate_looseness_if_necessary\<close> is then about that type); an array type that is made precise from
  memory bounds and has the size 0.
\<close>

definition queried_allocator :: "'w liballocs \<Rightarrow> addr \<Rightarrow> bool" where
  "queried_allocator la a \<longleftrightarrow> (\<exists>w p w' i. get_alloc_info la w p = (w', Some i) \<and> ai_allocator i = a)"

definition missing_insert :: "'w liballocs \<Rightarrow> bool" where
  "missing_insert la \<longleftrightarrow> (\<exists>w p. get_insert la w p = 0)"

definition typed_insert :: "'w liballocs \<Rightarrow> bool" where
  "typed_insert la \<longleftrightarrow> (\<exists>w i. insert_alloc_site_flag la w i \<and> insert_alloc_site la w i \<noteq> 0)"

definition precisify_stop :: "'w liballocs \<Rightarrow> fault \<Rightarrow> bool" where
  "precisify_stop la e \<longleftrightarrow> e = DivByZero \<and> (\<exists>t. make_precise la t = array_precise_fn la \<and> pos_maxoff la t = 0)"

definition is_a_stop :: "'w liballocs \<Rightarrow> uniqtype \<Rightarrow> fault \<Rightarrow> bool" where
  "is_a_stop la t e \<longleftrightarrow> precisify_stop la e
     \<or> e = NullDeref \<and> queried_allocator la 0
     \<or> e = AssertFailed \<and> missing_insert la
     \<or> e = DivByZero \<and> pos_maxoff la t = 0"

definition looseness_stop :: "'w liballocs \<Rightarrow> fault \<Rightarrow> bool" where
  "looseness_stop la e \<longleftrightarrow> precisify_stop la e
     \<or> e = NullDeref \<and> missing_insert la
     \<or> e = AssertFailed \<and> typed_insert la"

definition can_hold_stop :: "'w liballocs \<Rightarrow> fault \<Rightarrow> bool" where
  "can_hold_stop la e \<longleftrightarrow> looseness_stop la e
     \<or> e = NullDeref \<and> (\<exists>t. is_abstract_pointer_type la t)
         \<and> (\<exists>a. queried_allocator la a \<and> (a = 0 \<or> \<not> has_set_type la a))
     \<or> e = DivByZero \<and> (\<exists>t. is_pointer_type la t \<and> pos_maxoff la t = 0)"

fun stop_cause :: "'w liballocs \<Rightarrow> check_call \<Rightarrow> fault \<Rightarrow> bool" where
  "stop_cause la (CallIsA site obj t) e \<longleftrightarrow> is_a_stop la t e"
| "stop_cause la (CallIsAS site obj s) e \<longleftrightarrow> is_a_stop la (typestr_to_uniqtype la s) e"
| "stop_cause la (CallLikeA site obj t) e \<longleftrightarrow> precisify_stop la e"
| "stop_cause la (CallLooselyLikeA site obj t) e \<longleftrightarrow> looseness_stop la e"
| "stop_cause la (CallNamedA site obj s) e \<longleftrightarrow> precisify_stop la e"
| "stop_cause la (CallFunctionRefining site obj t) e \<longleftrightarrow> False"
| "stop_cause la (CallPointerOfDegree site obj d) e \<longleftrightarrow> looseness_stop la e"
| "stop_cause la (CallCanHoldPointer site obj value) e \<longleftrightarrow> can_hold_stop la e"

lemmas stop_defs = is_a_stop_def looseness_stop_def can_hold_stop_def


subsection \<open>Steps that only touch the world\<close>

text \<open>\<open>quiet\<close> steps change neither the program, nor the counters, nor what the library is set up with.\<close>

definition quiet :: "'w crunch \<Rightarrow> 'w crunch \<Rightarrow> bool" where
  "quiet st st' \<longleftrightarrow> same_program st st' \<and> cnt_begun st' = cnt_begun st \<and> tally st' = tally st
     \<and> is_initialized st' = is_initialized st \<and> suppressions st' = suppressions st"

lemma quiet_refl [simp]: "quiet st st"
  by (simp add: quiet_def same_program_def)

lemma quiet_trans: "quiet st st1 \<Longrightarrow> quiet st1 st2 \<Longrightarrow> quiet st st2"
  by (simp add: quiet_def same_program_def)

lemma quiet_world [simp]: "quiet st (st\<lparr> world := w \<rparr>)"
  by (simp add: quiet_def same_program_def tally_def)

lemma quiet_ready: "quiet st st' \<Longrightarrow> checks_ready la st \<Longrightarrow> checks_ready la st'"
  by (simp add: quiet_def checks_ready_def suppressions_readable_def)

lemma quiet_cache_match: "quiet st (cache_match la obj test info m depth st)"
  by (auto simp: cache_match_def cache_is_a_def split: prod.splits)

lemma quiet_debug: "quiet st (debug_println l m st)"
  by (simp add: debug_println_def quiet_def same_program_def tally_def)

text \<open>
  A check that has been begun ends: it returns 1 and counts itself at most once more, or it stops for
  one of the given causes.
\<close>

definition ends :: "(fault \<Rightarrow> bool) \<Rightarrow> 'w liballocs \<Rightarrow> 'w crunch \<Rightarrow> (int \<times> 'w crunch) outcome \<Rightarrow> bool" where
  "ends K la st res \<longleftrightarrow> (\<exists>e. res = Inl e \<and> K e) \<or> (\<exists>st' t. res = Inr (1, st') \<and> checks_ready la st' \<and> same_program st st'
     \<and> cnt_begun st' = cnt_begun st \<and> t \<le> 1 \<and> tally st' = tally st + of_nat t)"

lemma ends_quiet: "quiet st st1 \<Longrightarrow> ends K la st1 res \<Longrightarrow> ends K la st res"
  unfolding ends_def quiet_def by (auto simp: same_program_def)

lemma ends_return: "checks_ready la st' \<Longrightarrow> quiet st st' \<Longrightarrow> ends K la st (Inr (1, st'))"
  unfolding ends_def quiet_def by (auto intro: exI[of _ "0 :: nat"])

lemma ends_succeed:
  assumes "checks_ready la st"
  shows "ends K la st (succeed st)"
  using assms unfolding ends_def succeed_def count_success_def
  by (auto simp: checks_ready_def suppressions_readable_def same_program_def tally_def
      intro!: exI[of _ "1 :: nat"])

lemma find_suppression_returns:
  assumes "\<forall>s \<in> set ss. test_type_pat s \<noteq> None \<longrightarrow>
    testing_function_pat s \<noteq> None \<and> alloc_type_pat s \<noteq> None"
  shows "\<exists>b. find_suppression la ss tt site at = Inr b"
  using assms
proof (induction ss)
  case (Cons s ss)
  have pat: "\<And>p str. p \<noteq> None \<Longrightarrow> \<exists>b. prefix_pattern_matches p str = Inr b"
    by (auto simp: prefix_pattern_matches_def Let_def split: option.split)
  show ?case
  proof (cases "test_type_pat s = None")
    case False
    then have "testing_function_pat s \<noteq> None" "alloc_type_pat s \<noteq> None"
      using Cons.prems by auto
    then obtain b1 b2 b3 where "prefix_pattern_matches (test_type_pat s) tt = Inr b1"
        "prefix_pattern_matches (alloc_type_pat s) at = Inr b2"
        "test_site_matches la (testing_function_pat s) site = Inr b3"
      using pat[OF False, of tt] pat[of "alloc_type_pat s" at] pat[of "testing_function_pat s"]
      unfolding test_site_matches_def by (metis option.case_eq_if)
    then have "suppression_matches la s tt site at = Inr (b1 \<and> b2 \<and> b3)"
      by (simp add: suppression_matches_def)
    then show ?thesis using Cons False by (cases "b1 \<and> b2 \<and> b3") auto
  qed (metis find_suppression.simps(2))
qed (metis find_suppression.simps(1))

lemma report_returns:
  assumes "checks_ready la st"
  shows "\<exists>st'. report_failure_if_necessary la site kind found t a st = Inr st' \<and> quiet st st'"
proof -
  obtain b st1 where s: "is_suppressed la t site a st = Inr (b, st1)" and q: "quiet st st1"
  proof (cases "suppressions st")
    case None
    then show ?thesis using that[of False st] by (simp add: is_suppressed_def)
  next
    case (Some ss)
    then obtain b where "find_suppression la ss (typestr_of la t) site (typestr_of la a) = Inr b"
      using find_suppression_returns[of ss la "typestr_of la t" site "typestr_of la a"] assms
      unfolding checks_ready_def suppressions_readable_def by blast
    then show ?thesis
      using Some that[of b "if b then st\<lparr> cnt_failed_and_suppressed := cnt_failed_and_suppressed st + 1 \<rparr> else st"]
      by (auto simp: is_suppressed_def quiet_def same_program_def tally_def)
  qed
  have "\<And>st. quiet st (report_failure site kind found st)"
    by (auto simp: report_failure_def report_repeat_failure_summary_def debug_println_def Let_def
        quiet_def same_program_def tally_def)
  moreover obtain yes st2 where "should_report_failure_at la site t a st = Inr (yes, st2)"
      and "quiet st1 st2"
    using s quiet_world[of st1 "addrlist_add la (world st1) site"] quiet_refl[of st1]
    unfolding should_report_failure_at_def s obind_simps prod.case by metis
  ultimately show ?thesis
    using quiet_trans[OF q] quiet_trans[of st1 st2]
    by (cases yes) (auto simp: report_failure_if_necessary_def)
qed

lemma ends_report_failed:
  assumes "checks_ready la st"
  shows "ends K la st (report_failed la site kind found t a st)"
proof -
  let ?st = "st\<lparr> cnt_failed := cnt_failed st + 1 \<rparr>"
  have "checks_ready la ?st" using assms by (simp add: checks_ready_def suppressions_readable_def)
  then obtain st' where "report_failure_if_necessary la site kind found t a ?st = Inr st'"
      "quiet ?st st'" "checks_ready la st'"
    using report_returns quiet_ready by blast
  then show ?thesis
    unfolding ends_def report_failed_def
    by (auto simp: quiet_def same_program_def tally_def intro!: exI[of _ "1 :: nat"])
qed

lemma ends_fail_check:
  assumes "checks_ready la st"
  shows "ends K la st (fail_check la site kind found t a st)"
proof (cases "currently_allocating la (world st) \<or> currently_freeing la (world st)")
  case True
  let ?st = "st\<lparr> cnt_failed_in_alloc := cnt_failed_in_alloc st + 1 \<rparr>"
  have "checks_ready la ?st" using assms by (simp add: checks_ready_def suppressions_readable_def)
  then show ?thesis
    using True unfolding ends_def fail_check_def
    by (auto simp: same_program_def tally_def intro!: exI[of _ "1 :: nat"])
next
  case False
  then show ?thesis using ends_report_failed[OF assms] by (simp add: fail_check_def)
qed

lemma ends_finish_check:
  "checks_ready la st \<Longrightarrow> ends K la st (finish_check la site kind found t a ok st)"
  by (simp add: finish_check_def ends_succeed ends_fail_check)


subsection \<open>Queries\<close>

lemma check_init_initialized: "is_initialized st \<Longrightarrow> check_init la st = Inr st"
  by (simp add: check_init_def libcrunch_check_init_def config_none_def)

lemma do_query_ready:
  assumes "checks_ready la st"
  shows "\<exists>r st1. do_query la obj st = Inr (r, st1) \<and> quiet st st1 \<and> checks_ready la st1
    \<and> (\<forall>i. r = Some i \<longrightarrow> queried_allocator la (ai_allocator i))"
proof -
  obtain w r where g: "get_alloc_info la (world st) obj = (w, r)" by fastforce
  then have "\<forall>i. r = Some i \<longrightarrow> queried_allocator la (ai_allocator i)"
    by (auto simp: queried_allocator_def)
  then show ?thesis
    using assms g quiet_ready[OF quiet_world assms]
    by (auto simp: do_query_def check_init_initialized checks_ready_def)
qed

lemma precisify_ready:
  assumes "checks_ready la st"
  shows "(\<exists>e. do_array_precisify la info st = Inl e \<and> precisify_stop la e)
    \<or> (\<exists>i st1. do_array_precisify la info st = Inr (i, st1) \<and> quiet st st1 \<and> checks_ready la st1
        \<and> ai_allocator i = ai_allocator info)"
  using assms quiet_ready[OF quiet_world assms]
  by (auto simp: do_array_precisify_def precisify_stop_def Let_def split: prod.split)

lemma with_alloc_ends:
  assumes "checks_ready la st"
    and "\<And>(info :: alloc_info) st1. checks_ready la st1 \<Longrightarrow> queried_allocator la (ai_allocator info) \<Longrightarrow>
      ends K la st1 (body info st1)"
  shows "ends K la st (with_alloc la obj st body)"
proof -
  obtain r st1 where q: "do_query la obj st = Inr (r, st1)" "quiet st st1" "checks_ready la st1"
      "\<forall>i. r = Some i \<longrightarrow> queried_allocator la (ai_allocator i)"
    using do_query_ready[OF assms(1)] by blast
  then have "ends K la st1 (case r of None \<Rightarrow> Inr (1, st1) | Some info \<Rightarrow> body info st1)"
    using assms(2) ends_return[OF q(3) quiet_refl] by (auto split: option.split)
  then show ?thesis
    using ends_quiet[OF q(2)] q(1) assms(1)
    by (simp add: with_alloc_def check_init_initialized checks_ready_def)
qed

lemma ends_precisify:
  assumes "checks_ready la st" "\<And>e. precisify_stop la e \<Longrightarrow> K e"
    and "\<And>i st1. checks_ready la st1 \<Longrightarrow> ai_allocator i = ai_allocator info \<Longrightarrow> ends K la st1 (body i st1)"
  shows "ends K la st (obind (do_array_precisify la info st) (\<lambda>(info, st). body info st))"
  using precisify_ready[OF assms(1), of info]
proof (elim disjE exE conjE)
  fix e assume "do_array_precisify la info st = Inl e" "precisify_stop la e"
  then show ?thesis using assms(2) by (simp add: ends_def)
next
  fix i st1 assume "do_array_precisify la info st = Inr (i, st1)" "quiet st st1" "checks_ready la st1"
    "ai_allocator i = ai_allocator info"
  then show ?thesis using ends_quiet assms(3) by fastforce
qed

lemma with_precise_alloc_ends:
  assumes "checks_ready la st" "\<And>e. precisify_stop la e \<Longrightarrow> K e"
    and "\<And>(info :: alloc_info) st1. checks_ready la st1 \<Longrightarrow> queried_allocator la (ai_allocator info) \<Longrightarrow>
      ends K la st1 (body info st1)"
  shows "ends K la st (with_precise_alloc la obj st body)"
  unfolding with_precise_alloc_def
proof (rule with_alloc_ends[OF assms(1)])
  fix info :: alloc_info and st1 assume r: "checks_ready la st1" and a: "queried_allocator la (ai_allocator info)"
  show "ends K la st1 (obind (do_array_precisify la info st1) (\<lambda>(info, st). body info st))"
    by (rule ends_precisify[OF r assms(2)]) (use assms(3) a in auto)
qed

lemma ends_reinstate:
  assumes "checks_ready la st" "\<And>e. looseness_stop la e \<Longrightarrow> K e"
    and "\<And>st1. checks_ready la st1 \<Longrightarrow> ends K la st1 (body st1)"
  shows "ends K la st (obind (reinstate_looseness_if_necessary la start site t st) body)"
proof -
  let ?r = "reinstate_looseness_if_necessary la start site t st"
  have "(\<exists>e. ?r = Inl e \<and> looseness_stop la e) \<or> (\<exists>w. ?r = Inr (st\<lparr> world := w \<rparr>)) \<or> ?r = Inr st"
    by (auto simp: reinstate_looseness_if_necessary_def looseness_stop_def missing_insert_def
        typed_insert_def Let_def)
  then show ?thesis
  proof (elim disjE exE conjE)
    fix e assume "?r = Inl e" "looseness_stop la e"
    then show ?thesis using assms(2) by (simp add: ends_def)
  next
    fix w assume r: "?r = Inr (st\<lparr> world := w \<rparr>)"
    then show ?thesis
      using ends_quiet[OF quiet_world assms(3)[OF quiet_ready[OF quiet_world assms(1)]]] by simp
  next
    assume "?r = Inr st"
    then show ?thesis using assms(1,3) by simp
  qed
qed


subsection \<open>Every check ends\<close>

lemma is_a_decide_ends:
  assumes "checks_ready la st" "test \<noteq> 0" "queried_allocator la (ai_allocator info)"
  shows "ends (is_a_stop la test) la st (is_a_decide la site obj test m info st)"
proof -
  let ?c = "\<lambda>depth st. cache_match la obj test info m depth st"
  let ?K = "is_a_stop la test"
  have c: "checks_ready la (?c depth st1)" "quiet st1 (?c depth st1)" if "checks_ready la st1" for st1 depth
    using quiet_cache_match quiet_ready[OF quiet_cache_match that] by blast+
  have ok: "ends ?K la st (succeed (?c 1 st))"
    using ends_quiet[OF c(2) ends_succeed[OF c(1)]] assms(1) by blast
  have lazy: "ends ?K la st (Inr (1, ?c 0 (st\<lparr> world := w \<rparr>)))" for w
    using quiet_ready[OF quiet_world assms(1), of w] c quiet_trans[OF quiet_world[of st w]]
    by (blast intro: ends_return)
  have stop: "ends ?K la st (Inl e)" if "?K e" for e using that by (simp add: ends_def)
  have "ai_allocator info = 0 \<Longrightarrow> ?K NullDeref" "get_insert la (world st) obj = 0 \<Longrightarrow> ?K AssertFailed"
      "pos_maxoff la test = 0 \<Longrightarrow> ?K DivByZero"
    using assms(3) by (auto simp: is_a_stop_def missing_insert_def)
  then show ?thesis
    using assms(2) ok lazy stop ends_fail_check[OF assms(1)]
    by (auto simp: is_a_decide_def split: prod.split)
qed

lemma is_a_search_ends:
  assumes "checks_ready la st" "test \<noteq> 0" "\<And>e. precisify_stop la e \<Longrightarrow> K e"
    and "\<And>r i st1. checks_ready la st1 \<Longrightarrow> ai_allocator i = ai_allocator info \<Longrightarrow> ends K la st1 (body (r, i, st1))"
  shows "ends K la st (obind (is_a_search la obj test info st) body)"
  using precisify_ready[OF assms(1), of info]
proof (elim disjE exE conjE)
  fix e assume e: "do_array_precisify la info st = Inl e" "precisify_stop la e"
  then have "ends K la st (Inl e)" using assms(3) by (simp add: ends_def)
  then show ?thesis using e assms(1,2,4) by (simp add: is_a_search_def Let_def)
next
  fix i st1 assume p: "do_array_precisify la info st = Inr (i, st1)" "quiet st st1" "checks_ready la st1"
    "ai_allocator i = ai_allocator info"
  then have "ends K la st (body (r, i, st1))" for r using ends_quiet[OF p(2)] assms(4) by blast
  then show ?thesis using p(1) assms(1,2,4) by (simp add: is_a_search_def Let_def)
qed

lemma is_a_internal_ends:
  assumes "checks_ready la st" "test \<noteq> 0"
  shows "ends (is_a_stop la test) la st (is_a_internal la site obj test st)"
  unfolding is_a_internal_def
proof (rule with_alloc_ends[OF assms(1)], rule is_a_search_ends[OF _ assms(2)])
  fix info i :: alloc_info and st1 st2 r
  assume a: "checks_ready la st2" "queried_allocator la (ai_allocator info)" "ai_allocator i = ai_allocator info"
  show "ends (is_a_stop la test) la st2 (case (r, i, st2) of (r, info, st) \<Rightarrow> (case r of
        None \<Rightarrow> fail_check la site IS_A (ai_uniqtype info) test (ai_uniqtype info) st
      | Some m \<Rightarrow> is_a_decide la site obj test m info st))"
    using is_a_decide_ends[OF a(1) assms(2), of i] a(2,3) ends_fail_check[OF a(1)]
    by (simp split: option.split)
qed (simp_all add: is_a_stop_def)

lemma like_a_internal_ends:
  assumes "checks_ready la st"
  shows "ends (precisify_stop la) la st (like_a_internal la site obj test st)"
  unfolding like_a_internal_def Let_def
proof (rule with_precise_alloc_ends[OF assms])
  fix info :: alloc_info and st1 assume r: "checks_ready la st1"
  let ?t = "ai_uniqtype info"
  have tg: "type_graph_sound la" using r by (simp add: checks_ready_def)
  obtain found off cur where
      "descend_to_start la (subobject_rank la ?t) (target_offset obj info) ?t = Inr (found, off, cur)"
    using descend_to_start_spec[OF tg order_refl] by blast
  moreover obtain cur' where "strip_arrays la (subobject_rank la cur) cur = Inr cur'"
    using strip_arrays_spec[OF tg order_refl] by blast
  moreover obtain b where "like_type la test cur' = Inr b" using like_type_returns by blast
  ultimately show "ends (precisify_stop la) la st1
     (obind (descend_to_start la (subobject_rank la ?t) (target_offset obj info) ?t)
       (\<lambda>(found, _, cur). if \<not> found then fail_check la site LIKE_A cur test ?t st1
          else obind (strip_arrays la (subobject_rank la cur) cur) (\<lambda>cur.
            obind (like_type la test cur) (\<lambda>ok. finish_check la site LIKE_A cur test ?t ok st1))))"
    using ends_fail_check[OF r] ends_finish_check[OF r] by simp
qed simp

lemma named_a_internal_ends:
  "checks_ready la st \<Longrightarrow> ends (precisify_stop la) la st (named_a_internal la site obj s st)"
  unfolding named_a_internal_def Let_def
  by (intro with_precise_alloc_ends ends_finish_check) simp_all

lemma is_a_function_refining_internal_ends:
  "checks_ready la st \<Longrightarrow> ends (\<lambda>_. False) la st (is_a_function_refining_internal la site obj test st)"
  unfolding is_a_function_refining_internal_def Let_def
  by (intro with_alloc_ends ends_finish_check)

lemma loosely_like_a_internal_ends:
  assumes "checks_ready la st"
  shows "ends (looseness_stop la) la st (loosely_like_a_internal la site obj test st)"
  unfolding loosely_like_a_internal_def Let_def
proof (rule with_precise_alloc_ends[OF assms])
  fix info :: alloc_info and st1 assume r: "checks_ready la st1"
  let ?t = "ai_uniqtype info"
  have tg: "type_graph_sound la" using r by (simp add: checks_ready_def)
  obtain found off cur where
      "descend_to_start la (subobject_rank la ?t) (target_offset obj info) ?t = Inr (found, off, cur)"
    using descend_to_start_spec[OF tg order_refl] by blast
  moreover obtain b cur' where
      "loosely_like_loop la (subobject_rank la cur) test off cur = Inr (b, cur')"
    using loosely_like_loop_returns[OF tg order_refl] by fastforce
  ultimately have body: "ends (looseness_stop la) la st
      (obind (descend_to_start la (subobject_rank la ?t) (target_offset obj info) ?t)
        (\<lambda>(found, off, cur). if \<not> found then fail_check la site LOOSELY_LIKE_A cur test ?t st
           else obind (loosely_like_loop la (subobject_rank la cur) test off cur) (\<lambda>(ok, cur).
             finish_check la site LOOSELY_LIKE_A cur test ?t ok st)))"
    if "checks_ready la st" for st
    using ends_fail_check[OF that] ends_finish_check[OF that] by simp
  show "ends (looseness_stop la) la st1
     (obind (reinstate_looseness_if_necessary la (ai_start info) (ai_site info) ?t st1) (\<lambda>st.
        obind (descend_to_start la (subobject_rank la ?t) (target_offset obj info) ?t)
          (\<lambda>(found, off, cur). if \<not> found then fail_check la site LOOSELY_LIKE_A cur test ?t st
             else obind (loosely_like_loop la (subobject_rank la cur) test off cur) (\<lambda>(ok, cur).
               finish_check la site LOOSELY_LIKE_A cur test ?t ok st))))"
    by (rule ends_reinstate[OF r _ body])
qed (simp add: looseness_stop_def)

lemma is_a_pointer_of_degree_internal_ends:
  assumes "checks_ready la st"
  shows "ends (looseness_stop la) la st (is_a_pointer_of_degree_internal la site obj d st)"
  unfolding is_a_pointer_of_degree_internal_def Let_def
proof (rule with_precise_alloc_ends[OF assms])
  fix info :: alloc_info and st1 assume r: "checks_ready la st1"
  let ?t = "ai_uniqtype info"
  have tg: "type_graph_sound la" using r by (simp add: checks_ready_def)
  obtain b where "holds_pointer_of_degree la ?t d (target_offset obj info) = Inr b"
    using holds_pointer_of_degree_returns[OF tg] by blast
  then have body: "ends (looseness_stop la) la st
      (obind (holds_pointer_of_degree la ?t d (target_offset obj info)) (\<lambda>ok.
        if ok then succeed st else report_failed la site IS_A_POINTER_OF_DEGREE ?t 0 ?t st))"
    if "checks_ready la st" for st
    using ends_succeed[OF that] ends_report_failed[OF that] by simp
  show "ends (looseness_stop la) la st1
     (obind (reinstate_looseness_if_necessary la (ai_start info) (ai_site info) ?t st1) (\<lambda>st.
        obind (holds_pointer_of_degree la ?t d (target_offset obj info)) (\<lambda>ok.
          if ok then succeed st else report_failed la site IS_A_POINTER_OF_DEGREE ?t 0 ?t st)))"
    by (rule ends_reinstate[OF r _ body])
qed (simp add: looseness_stop_def)

lemma walk_until_returns:
  "(\<And>t off. \<exists>b. cb t off = Inr b) \<Longrightarrow> \<exists>b. walk_until cb vs = Inr b"
proof (induction vs)
  case (Cons v vs)
  obtain b where "cb (v_spans v) (v_start v) = Inr b" using Cons.prems by blast
  then show ?case using Cons.IH[OF Cons.prems] by (cases b) auto
qed (metis walk_until.simps(1))

lemma value_matches_returns:
  assumes "type_graph_sound la"
  shows "\<exists>b. value_matches la is_generic stored_to off value_t = Inr b"
proof -
  define cb where "cb = (if is_generic then match_pointer_subobj_generic_cb
    else match_pointer_subobj_strict_cb) la stored_to off"
  obtain n u where n: "pointer_chain la stored_to n u" using pointer_chain_exists[OF assms] by blast
  have cb: "\<exists>b. cb t s = Inr b" for t s
  proof -
    obtain k v where "pointer_chain la t k v" using pointer_chain_exists[OF assms] by blast
    then show ?thesis
      using n assms by (auto simp: cb_def match_pointer_subobj_generic_cb_def pointer_degree_def
          match_pointer_subobj_strict_cb_def pointer_degree_and_ultimate_chain pointer_has_degree_chain)
  qed
  obtain b b' where "cb value_t 0 = Inr b" "walk_until cb (walk_subobjects_spanning la off value_t) = Inr b'"
    using cb[of value_t 0] walk_until_returns[of cb, OF cb] by metis
  then show ?thesis unfolding value_matches_def Let_def cb_def[symmetric] by (cases b) auto
qed

lemma specialise_or_fail_ends:
  assumes "checks_ready la st" "queried_allocator la (ai_allocator info)"
    and "is_pointer_type la stored_to \<or> value_t = 0"
  shows "ends (can_hold_stop la) la st (specialise_or_fail la site info stored_to value_t st)"
proof -
  let ?K = "can_hold_stop la"
  have typed: "ends ?K la st (Inr (1, st\<lparr> world := w \<rparr>))" for w
    by (rule ends_return[OF quiet_ready[OF quiet_world assms(1)] quiet_world])
  have stop: "ends ?K la st (Inl e)" if "?K e" for e using that by (simp add: ends_def)
  have "pos_maxoff la stored_to = 0 \<Longrightarrow> is_pointer_type la stored_to \<Longrightarrow> ?K DivByZero"
    "is_abstract_pointer_type la value_t \<Longrightarrow> ai_allocator info = 0 \<or> \<not> has_set_type la (ai_allocator info)
      \<Longrightarrow> ?K NullDeref"
    using assms(2) by (auto simp: can_hold_stop_def)
  then show ?thesis
    using assms(3) typed stop ends_fail_check[OF assms(1)]
    by (auto simp: specialise_or_fail_def split: prod.split)
qed

lemma can_hold_value_ends:
  assumes "checks_ready la st" "queried_allocator la (ai_allocator info)" "is_pointer_type la stored_to"
  shows "ends (can_hold_stop la) la st (can_hold_value la site value info stored_to is_generic st)"
proof -
  have tg: "type_graph_sound la" using assms by (simp add: checks_ready_def)
  obtain r st1 where q: "do_query la value st = Inr (r, st1)" "quiet st st1" "checks_ready la st1"
    using do_query_ready[OF assms(1)] by blast
  show ?thesis
  proof (cases r)
    case None
    then show ?thesis using q ends_return by (simp add: can_hold_value_def)
  next
    case (Some vinfo)
    have tail: "ends (can_hold_stop la) la st
        (obind (value_matches la is_generic stored_to (target_offset value i) (ai_uniqtype i)) (\<lambda>ok.
           if ok then succeed st else specialise_or_fail la site info stored_to (ai_uniqtype i) st))"
      if "checks_ready la st" for st and i :: alloc_info
    proof -
      obtain b where "value_matches la is_generic stored_to (target_offset value i) (ai_uniqtype i) = Inr b"
        using value_matches_returns[OF tg] by blast
      then show ?thesis
        using ends_succeed[OF that] specialise_or_fail_ends[OF that assms(2)] assms(3) by simp
    qed
    have "ends (can_hold_stop la) la st1
        (obind (do_array_precisify la vinfo st1) (\<lambda>(i, st).
           obind (reinstate_looseness_if_necessary la (ai_start i) (ai_site i) (ai_uniqtype i) st) (\<lambda>st.
             obind (value_matches la is_generic stored_to (target_offset value i) (ai_uniqtype i)) (\<lambda>ok.
               if ok then succeed st else specialise_or_fail la site info stored_to (ai_uniqtype i) st))))"
      by (intro ends_precisify[OF q(3)] ends_reinstate tail) (simp_all add: stop_defs)
    from ends_quiet[OF q(2) this] show ?thesis using Some q(1) by (simp add: can_hold_value_def)
  qed
qed

lemma can_hold_pointer_internal_ends:
  assumes "checks_ready la st"
  shows "ends (can_hold_stop la) la st (can_hold_pointer_internal la site obj value st)"
  unfolding can_hold_pointer_internal_def Let_def
proof (rule with_precise_alloc_ends[OF assms])
  fix info :: alloc_info and st1
  assume r: "checks_ready la st1" and a: "queried_allocator la (ai_allocator info)"
  let ?t = "ai_uniqtype info"
  have tg: "type_graph_sound la" using r by (simp add: checks_ready_def)
  obtain off cur where d: "descend_fully la (subobject_rank la ?t) (target_offset obj info) ?t = Inr (off, cur)"
    using descend_fully_spec[OF tg order_refl] by blast
  obtain n u where n: "pointer_chain la cur n u" using pointer_chain_exists[OF tg] by blast
  have "n > 0 \<and> u \<noteq> 0" if "is_pointer_type la cur"
    using n that tg
  proof (induction rule: pointer_chain.induct)
    case (ptr t n u)
    then show ?case using type_graph_soundD(3)[OF tg ptr.hyps(1)]
      by (cases "is_pointer_type la (pointee_type la t)") (auto elim: pointer_chainE)
  qed simp
  then show "ends (can_hold_stop la) la st1
     (obind (descend_fully la (subobject_rank la ?t) (target_offset obj info) ?t)
       (\<lambda>(off, stored_to). if off = 0 \<and> is_pointer_type la stored_to then
           obind (pointer_degree_and_ultimate_pointee_type la stored_to) (\<lambda>(d, ultimate).
             if \<not> d > 0 \<or> ultimate = 0 then Inl AssertFailed
             else if d = 1 \<and> is_generic_ultimate_pointee la ultimate then succeed st1
             else can_hold_value la site value info stored_to (is_generic_ultimate_pointee la ultimate) st1)
         else specialise_or_fail la site info stored_to 0 st1))"
    using d pointer_degree_and_ultimate_chain[OF tg n] ends_succeed[OF r] can_hold_value_ends[OF r a]
      specialise_or_fail_ends[OF r a, of cur 0] by simp
qed (simp add: stop_defs)

lemmas internal_ends = is_a_internal_ends like_a_internal_ends named_a_internal_ends
  is_a_function_refining_internal_ends loosely_like_a_internal_ends
  is_a_pointer_of_degree_internal_ends can_hold_pointer_internal_ends


subsection \<open>The library meets the contract\<close>

definition returns_counted :: "(fault \<Rightarrow> bool) \<Rightarrow> 'w liballocs \<Rightarrow> 'w crunch \<Rightarrow> (int \<times> 'w crunch) outcome \<Rightarrow> bool" where
  "returns_counted K la st res \<longleftrightarrow> (\<exists>e. res = Inl e \<and> K e)
     \<or> (\<exists>st'. res = Inr (1, st') \<and> checks_ready la st' \<and> same_program st st' \<and> counted 1 st st')"

lemma returns_counted_unchecked:
  "checks_ready la st \<Longrightarrow> returns_counted K la st (Inr (1, st))"
  by (auto simp: returns_counted_def same_program_def counted_def intro!: exI[of _ "0 :: nat"])

lemma returns_counted_abort:
  "checks_ready la st \<Longrightarrow> returns_counted K la st (abort_typestr st)"
  by (auto simp: returns_counted_def abort_typestr_def count_begun_def same_program_def counted_def
      tally_def checks_ready_def suppressions_readable_def intro!: exI[of _ "1 :: nat"])

lemma count_begun_ready: "checks_ready la st \<Longrightarrow> checks_ready la (count_begun st)"
  by (simp add: count_begun_def checks_ready_def suppressions_readable_def)

lemma returns_counted_begun:
  assumes "ends K la (count_begun st) res"
  shows "returns_counted K la st res"
  using assms unfolding ends_def
proof (elim disjE exE conjE)
  fix e assume "res = Inl e" "K e"
  then show ?thesis by (simp add: returns_counted_def)
next
  fix st' t assume "res = Inr (1, st')" "checks_ready la st'" "same_program (count_begun st) st'"
      "cnt_begun st' = cnt_begun (count_begun st)" "t \<le> 1" "tally st' = tally (count_begun st) + of_nat t"
  then show ?thesis
    unfolding returns_counted_def counted_def
    by (intro disjI2 exI[of _ st'] conjI exI[of _ "1 :: nat"] exI[of _ t])
       (auto simp: same_program_def count_begun_def tally_def)
qed

lemma is_aU_counted:
  assumes "checks_ready la st"
  shows "returns_counted (is_a_stop la t) la st (is_aU c la (lib_checkers la) site obj t st)"
proof -
  let ?st = "count_begun st"
  have r: "checks_ready la ?st" using count_begun_ready[OF assms] .
  have "ends (is_a_stop la t) la ?st (succeed (?st\<lparr> cnt_is_a_hit_cache := cnt_is_a_hit_cache ?st + 1 \<rparr>))"
    by (rule ends_quiet[OF _ ends_succeed])
       (use r in \<open>auto simp: quiet_def same_program_def tally_def checks_ready_def suppressions_readable_def\<close>)
  note hit = returns_counted_begun[OF this]
    and miss = returns_counted_begun[OF is_a_internal_ends[OF r]]
  show ?thesis
    using assms hit miss returns_counted_unchecked returns_counted_abort
    by (auto simp: is_aU_def Let_def split: option.split)
qed

lemma run_call_counted:
  assumes "checks_ready la st"
  shows "returns_counted (stop_cause la call) la st (run_call c la (lib_checkers la) call st)"
proof -
  note lib = returns_counted_unchecked[OF assms] returns_counted_abort[OF assms]
    internal_ends[OF count_begun_ready[OF assms], THEN returns_counted_begun]
  have "stop_cause la (CallIsA site obj t) = is_a_stop la t"
    "stop_cause la (CallIsAS site obj s) = is_a_stop la (typestr_to_uniqtype la s)"
    "stop_cause la (CallLikeA site obj t) = precisify_stop la"
    "stop_cause la (CallLooselyLikeA site obj t) = looseness_stop la"
    "stop_cause la (CallNamedA site obj s') = precisify_stop la"
    "stop_cause la (CallFunctionRefining site obj t) = (\<lambda>_. False)"
    "stop_cause la (CallPointerOfDegree site obj d) = looseness_stop la"
    "stop_cause la (CallCanHoldPointer site obj v) = can_hold_stop la" for site obj t s s' d v
    by (simp_all add: fun_eq_iff)
  then show ?thesis
    by (cases call)
       (auto simp: lib is_aU_counted[OF assms] is_aS_def like_aU_def loosely_like_aU_def named_aU_def
         is_a_function_refiningU_def is_a_pointer_of_degree_def can_hold_pointer_def split: option.split)
qed

interpretation lib_checks: program_check "run_call c la (lib_checkers la)" "checks_ready la" "stop_cause la" for c la
  by unfold_locales (use run_call_counted in \<open>simp add: returns_counted_def\<close>)

lemma run_calls_is_run: "run_calls c la (lib_checkers la) calls st = lib_checks.run c la calls st"
  by (induction calls arbitrary: st) (simp_all add: case_prod_beta')


subsection \<open>What the program sees\<close>

text \<open>A liballocs without typed inserts, for the witnesses.\<close>

definition ex_chk :: "ex_world liballocs" where
  "ex_chk = ex_la\<lparr> get_insert := (\<lambda>w p. 1), insert_alloc_site_flag := (\<lambda>w i. False),
     get_alloc_info := (\<lambda>w p. (w, case ex_find_alloc w p of None \<Rightarrow> None
        | Some i \<Rightarrow> if ai_allocator i = 0 then None else Some i)) \<rparr>"

lemma ex_type_graph_sound: "type_graph_sound ex_chk"
  using ex_la_type_graph_sound by (simp add: type_graph_sound_def ex_chk_def)

lemma ex_checks_ready: "checks_ready ex_chk ex_st"
  by (simp add: checks_ready_def ex_type_graph_sound suppressions_readable_def ex_st_def initial_crunch_def)

lemma ex_no_stop:
  "\<not> looseness_stop ex_chk e" "\<not> precisify_stop ex_chk e" "\<not> can_hold_stop ex_chk e"
  "\<not> is_a_stop ex_chk ex_int e"
  by (auto simp: stop_defs precisify_stop_def missing_insert_def typed_insert_def queried_allocator_def
      is_abstract_pointer_type_def ex_chk_def ex_la_def ex_size_def split: option.splits if_split_asm)




subsection \<open>Arguments of indirect calls\<close>

lemma check_args_loop_counts:
  assumes "checks_ready la st" "i \<le> subprogram_narg la fun_t"
    and "\<And>j e. is_pointer_type la (rel_ptr (related la fun_t j)) \<Longrightarrow>
      \<not> is_a_stop la (pointee_type la (rel_ptr (related la fun_t j))) e"
  shows "\<exists>st'. check_args_loop c la pc fun_t i args st =
     Inr (True, min (i + length args) (subprogram_narg la fun_t), st')"
  using assms(1,2)
proof (induction args arbitrary: i st)
  case (Cons a args)
  show ?case
  proof (cases "i < subprogram_narg la fun_t")
    case True
    let ?e = "rel_ptr (related la fun_t (i + min 1 (subprogram_nret la fun_t)))"
    obtain st1 where st1: "checks_ready la st1"
      "(if is_pointer_type la ?e then is_aU c la (lib_checkers la) pc a (pointee_type la ?e) st else Inr (1, st)) = Inr (1, st1)"
      using is_aU_counted[OF Cons.prems(1), of "pointee_type la ?e" c pc a]
        assms(3)[of "i + min 1 (subprogram_nret la fun_t)"] Cons.prems(1)
      by (cases "is_pointer_type la ?e") (auto simp: returns_counted_def)
    then have "check_args_loop c la pc fun_t i (a # args) st = check_args_loop c la pc fun_t (i + 1) args st1"
      using True unfolding check_args_loop.simps Let_def st1(2) by simp
    then show ?thesis using True Cons.IH[OF st1(1), of "i + 1"] by simp
  next
    case False
    then show ?thesis using Cons.prems by simp
  qed
qed simp

text \<open>
  What \<^verbatim>\<open>__check_args\<close> decides.  Its caller reads 0 as success.  Because the check of an argument
  returns 1 if nothing stops it, the result depends on the number of arguments only: it is 0 when the call passes
  as many as the function takes, and otherwise the smaller of the two numbers, which is again 0
  when either of them is 0.
\<close>

theorem check_args_counts_only:
  assumes "type_graph_sound la" "is_initialized st" "suppressions_readable st"
    and "get_alloc_info la (world st) obj = (w, Some info)" "ai_uniqtype info \<noteq> 0"
    and "is_subprogram_type la (ai_uniqtype info)" "ai_start info = obj"
    and "\<forall>j e. is_pointer_type la (rel_ptr (related la (ai_uniqtype info) j)) \<longrightarrow>
      \<not> is_a_stop la (pointee_type la (rel_ptr (related la (ai_uniqtype info) j))) e"
  shows "\<exists>st'. check_args_internal c la pc obj args st =
     Inr (if length args = subprogram_narg la (ai_uniqtype info) then 0
          else int (min (length args) (subprogram_narg la (ai_uniqtype info))), st')"
proof -
  let ?st = "st\<lparr> world := w \<rparr>" and ?f = "ai_uniqtype info"
  have "checks_ready la ?st" using assms(1-3) by (simp add: checks_ready_def suppressions_readable_def)
  then obtain st' where l: "check_args_loop c la pc ?f 0 args ?st =
      Inr (True, min (length args) (subprogram_narg la ?f), st')"
    using check_args_loop_counts[of la ?st 0 ?f c pc args] assms(8) by auto
  have "check_args_internal c la pc obj args st =
     Inr (if length args = subprogram_narg la ?f then 0
          else int (min (length args) (subprogram_narg la ?f)), st')"
    using assms(2,4-7) l
    by (auto simp: check_args_internal_def with_alloc_def do_query_def check_init_initialized Let_def min_def)
  then show ?thesis by blast
qed

theorem check_args_counts_only_witness:
  "\<exists>st'. check_args_internal config_m ex_chk 0x401008 0x401000 [] ex_st = Inr (0, st')"
proof -
  let ?i = "\<lparr> ai_allocator = ex_heap, ai_start = 0x401000, ai_size = 16, ai_uniqtype = ex_fun, ai_site = 0 \<rparr>"
  have r: "type_graph_sound ex_chk" "is_initialized ex_st" "suppressions_readable ex_st"
    using ex_checks_ready by (simp_all add: checks_ready_def)
  have i: "get_alloc_info ex_chk (world ex_st) 0x401000 = (ex_w, Some ?i)" "ai_uniqtype ?i \<noteq> 0"
    "is_subprogram_type ex_chk (ai_uniqtype ?i)" "ai_start ?i = 0x401000"
    by (simp_all add: ex_chk_def ex_defs)
  have "is_pointer_type ex_chk (rel_ptr (related ex_chk (ai_uniqtype ?i) j)) \<longrightarrow>
      \<not> is_a_stop ex_chk (pointee_type ex_chk (rel_ptr (related ex_chk (ai_uniqtype ?i) j))) e" for j e
  proof
    assume "is_pointer_type ex_chk (rel_ptr (related ex_chk (ai_uniqtype ?i) j))"
    then have "pointee_type ex_chk (rel_ptr (related ex_chk (ai_uniqtype ?i) j)) = ex_int"
      by (simp add: ex_chk_def ex_la_def ex_related_def split: if_split_asm)
    then show "\<not> is_a_stop ex_chk (pointee_type ex_chk (rel_ptr (related ex_chk (ai_uniqtype ?i) j))) e"
      using ex_no_stop(4) by simp
  qed
  then have "\<forall>j e. is_pointer_type ex_chk (rel_ptr (related ex_chk (ai_uniqtype ?i) j)) \<longrightarrow>
      \<not> is_a_stop ex_chk (pointee_type ex_chk (rel_ptr (related ex_chk (ai_uniqtype ?i) j))) e" by blast
  from check_args_counts_only[OF r i this, of config_m "0x401008" "[]"] show ?thesis by (simp split: if_split_asm)
qed

end
