(* ===== verification/Stubs.thy ===== *)
theory Stubs
  imports Check_Contract Runtime
begin

text \<open>
  The dummy library of \<^verbatim>\<open>src/stubs.c\<close>, with which an instrumented program runs unchecked, as far as it
  is not part of \<open>stub_runtime\<close>: the type checks, the initialisation and the exit summary.  Its checks
  meet the same contract as the real library's, without any hypothesis.
\<close>

definition stub_check_init :: "'w crunch \<Rightarrow> (int \<times> 'w crunch) outcome" where
  "stub_check_init st = Inr (0, st)"

definition stub_global_init :: "'w crunch \<Rightarrow> (int \<times> 'w crunch) outcome" where
  "stub_global_init st = Inr (0, st)"

definition stub_is_a_internal ::
  "addr \<Rightarrow> addr \<Rightarrow> uniqtype \<Rightarrow> 'w crunch \<Rightarrow> (int \<times> 'w crunch) outcome" where
  "stub_is_a_internal site obj r st = Inr (1, st)"

definition stub_like_a_internal ::
  "addr \<Rightarrow> addr \<Rightarrow> uniqtype \<Rightarrow> 'w crunch \<Rightarrow> (int \<times> 'w crunch) outcome" where
  "stub_like_a_internal site obj r st = Inr (1, st)"

definition stub_loosely_like_a_internal ::
  "addr \<Rightarrow> addr \<Rightarrow> uniqtype \<Rightarrow> 'w crunch \<Rightarrow> (int \<times> 'w crunch) outcome" where
  "stub_loosely_like_a_internal site obj r st = Inr (1, st)"

definition stub_named_a_internal ::
  "addr \<Rightarrow> addr \<Rightarrow> string \<Rightarrow> 'w crunch \<Rightarrow> (int \<times> 'w crunch) outcome" where
  "stub_named_a_internal site obj r st = Inr (1, st)"

definition stub_check_args_internal :: "addr \<Rightarrow> addr list \<Rightarrow> 'w crunch \<Rightarrow> (int \<times> 'w crunch) outcome" where
  "stub_check_args_internal obj args st = Inr (1, st)"

definition stub_is_a_function_refining_internal ::
  "addr \<Rightarrow> addr \<Rightarrow> uniqtype \<Rightarrow> 'w crunch \<Rightarrow> (int \<times> 'w crunch) outcome" where
  "stub_is_a_function_refining_internal site obj r st = Inr (1, st)"

definition stub_is_a_pointer_of_degree_internal ::
  "addr \<Rightarrow> addr \<Rightarrow> int \<Rightarrow> 'w crunch \<Rightarrow> (int \<times> 'w crunch) outcome" where
  "stub_is_a_pointer_of_degree_internal site obj d st = Inr (1, st)"

definition stub_can_hold_pointer_internal ::
  "addr \<Rightarrow> addr \<Rightarrow> addr \<Rightarrow> 'w crunch \<Rightarrow> (int \<times> 'w crunch) outcome" where
  "stub_can_hold_pointer_internal site obj target st = Inr (1, st)"

definition stub_fetch_bounds_internal :: "config \<Rightarrow> addr \<Rightarrow> addr \<Rightarrow> uniqtype \<Rightarrow> bounds" where
  "stub_fetch_bounds_internal c ptr derived t = libcrunch_max_bounds c ptr"

definition stub_store_pointer_nonlocal_via_voidptrptr ::
  "addr \<Rightarrow> addr \<Rightarrow> bounds \<Rightarrow> uniqtype \<Rightarrow> 'w crunch \<Rightarrow> 'w crunch outcome" where
  "stub_store_pointer_nonlocal_via_voidptrptr dest srcval val_bounds static_guess st = Inr st"

definition stub_ensure_bounds_in_cache :: "addr \<Rightarrow> bounds \<Rightarrow> uniqtype \<Rightarrow> 'w crunch \<Rightarrow> 'w crunch outcome" where
  "stub_ensure_bounds_in_cache ptrval ptr_bounds t st = Inr st"

definition stub_checkers :: "'w checkers" where
  "stub_checkers = \<lparr> ck_is_a = stub_is_a_internal, ck_like_a = stub_like_a_internal,
     ck_loosely_like_a = stub_loosely_like_a_internal, ck_named_a = stub_named_a_internal,
     ck_is_a_function_refining = stub_is_a_function_refining_internal,
     ck_is_a_pointer_of_degree = stub_is_a_pointer_of_degree_internal,
     ck_can_hold_pointer = stub_can_hold_pointer_internal \<rparr>"

lemmas stub_defs = stub_checkers_def stub_is_a_internal_def stub_like_a_internal_def
  stub_loosely_like_a_internal_def stub_named_a_internal_def stub_is_a_function_refining_internal_def
  stub_is_a_pointer_of_degree_internal_def stub_can_hold_pointer_internal_def

text \<open>The numbers of the stub library's summary, in the order they are printed.\<close>

definition stub_print_exit_summary :: "'w liballocs \<Rightarrow> 'w crunch \<Rightarrow> 'w crunch" where
  "stub_print_exit_summary la st =
     (if cnt_ptr_derefs st = 0 \<and> getenv la ''LIBCRUNCH_ALWAYS_PRINT_EXIT_SUMMARY'' = None then st
      else st\<lparr> diagnostics := diagnostics st @ [ExitSummary
        [cnt_ptr_derefs st, cnt_ptr_stores st, cnt_ptr_derivations st, cnt_created_invalid_pointer st,
         0, cnt_fetch_bounds_called st, cnt_fetch_bounds_missed_cache st,
         cnt_primary_secondary_transitions st, cnt_fault_handler_fixups st]] \<rparr>)"

text \<open>The constructor; \<open>systrap_init\<close> is liballocs'.\<close>

definition stub_init :: "bool \<Rightarrow> ('w \<Rightarrow> 'w) \<Rightarrow> 'w crunch \<Rightarrow> 'w crunch" where
  "stub_init libcrunch_really_loaded systrap_init st =
     (if \<not> libcrunch_really_loaded
      then st\<lparr> world := systrap_init (world st), exit_summary_registered := True \<rparr>
      else st)"


subsection \<open>The stub library meets the contract\<close>

lemma stub_call_counted:
  "\<exists>st'. run_call c la stub_checkers call st = Inr (1, st') \<and> same_program st st' \<and> counted 1 st st'
     \<and> cnt_failed st' = cnt_failed st \<and> diagnostics st' = diagnostics st"
proof -
  have same: "\<exists>st'. Inr (1, st) = Inr (1 :: int, st') \<and> same_program st st' \<and> counted 1 st st'
      \<and> cnt_failed st' = cnt_failed st \<and> diagnostics st' = diagnostics st" for st :: "'a crunch"
    by (auto simp: same_program_def counted_def intro!: exI[of _ "0 :: nat"])
  have begun: "\<exists>st'. Inr (1, count_begun st) = Inr (1 :: int, st') \<and> same_program st st' \<and> counted 1 st st'
      \<and> cnt_failed st' = cnt_failed st \<and> diagnostics st' = diagnostics st" for st :: "'a crunch"
    by (simp add: same_program_def count_begun_def tally_def countedI[of 0 1])
  have abort: "\<exists>st'. abort_typestr st = Inr (1, st') \<and> same_program st st' \<and> counted 1 st st'
      \<and> cnt_failed st' = cnt_failed st \<and> diagnostics st' = diagnostics st" for st :: "'a crunch"
    by (auto simp: abort_typestr_def same_program_def counted_def count_begun_def tally_def
        intro!: exI[of _ "1 :: nat"])
  have hit: "\<exists>st'. succeed ((count_begun st)\<lparr> cnt_is_a_hit_cache := n \<rparr>) = Inr (1, st')
      \<and> same_program st st' \<and> counted 1 st st'
      \<and> cnt_failed st' = cnt_failed st \<and> diagnostics st' = diagnostics st" for n and st :: "'a crunch"
    by (auto simp: succeed_def count_success_def same_program_def counted_def count_begun_def tally_def
        intro!: exI[of _ "1 :: nat"])
  show ?thesis
    using same[of st] begun[of st] abort[of st] hit[of _ st]
    by (cases call)
       (auto simp: is_aU_def is_aS_def like_aU_def loosely_like_aU_def named_aU_def Let_def
         is_a_function_refiningU_def is_a_pointer_of_degree_def can_hold_pointer_def stub_defs
         split: option.split)
qed

interpretation stub_checks: program_check "run_call c la stub_checkers" "\<lambda>_. True" "\<lambda>_ _. False" for c la
proof (unfold_locales, goal_cases)
  case (1 st call)
  then show ?case using stub_call_counted[of c la call st] by blast
qed

lemma stub_run_calls_is_run: "run_calls c la stub_checkers calls st = stub_checks.run c la calls st"
  by (induction calls arbitrary: st) (simp_all add: case_prod_beta')

text \<open>
  With the stub library every check passes.  Whatever checks the program makes, in whatever state
  and with whatever liballocs, each returns 1, and the program's memory and bounds stack are
  unchanged.
\<close>

theorem stub_checks_all_pass:
  "\<exists>st'. run_calls c la stub_checkers calls st = Inr (replicate (length calls) 1, st')
     \<and> memory st' = memory st \<and> bounds_sp st' = bounds_sp st"
proof -
  obtain n st' where n: "n \<le> length calls" "run_calls c la stub_checkers (take n calls) st = Inr (replicate n 1, st')"
      "same_program st st'" "\<not> n < length calls"
    using stub_checks.run_returns[where calls = calls and st = st and c = c and la = la]
    unfolding stub_run_calls_is_run by blast
  then have "n = length calls" by simp
  then show ?thesis using n(2,3) by (simp add: same_program_def)
qed

end
