(* ===== verification/Shadowprov.thy ===== *)
theory Shadowprov
  imports Shadow_Space Bounds_Stack
begin

text \<open>
  Provenance shadows (\<^verbatim>\<open>frontend/c/shadowprov/shadowprov_helpers.h\<close>): the second client of the shadow
  space and of the shadow stack.  Every stored pointer-sized value has one shadow byte, a hash of
  the base of the allocation it was derived from; calls pass these bytes on the shadow stack, and a
  dereference compares the byte with the hash of the allocation the address really lies in.

  \<^verbatim>\<open>__liballocs_get_alloc_base\<close> is the parameter \<open>ab\<close>: a function of the rest of the process (the
  type \<open>'w\<close>) and of the address.  A \<^verbatim>\<open>char\<close> is signed on the target, so that a shadow byte is sign
  extended when it is pushed as an \<^verbatim>\<open>unsigned long\<close>.  \<^verbatim>\<open>warnx\<close> appends to a list; the debug
  traces are left out.
\<close>

datatype prov_warning = StoredNoProvenance | LoadedNoProvenance | NoMainAddress | SetUpStored

text \<open>The static variables of the libc wrappers that remember a shadow.\<close>

datatype static_shadow = ErrnoShadow | CtypeBShadow | CtypeToupperShadow | CtypeTolowerShadow
  | LocaltimeShadow

record 'w prov =
  prov_memory :: mem
  shadow_sp :: u64
  prov_debug_level :: int
  prov_warnings :: "prov_warning list"
  prov_world :: 'w
  prov_allocsite :: addr
  real_qsort_cb :: addr
  static_shadows :: "static_shadow \<Rightarrow> u8"

type_synonym shadow_byte = u8

definition NULL_SHADOW :: shadow_byte where "NULL_SHADOW = 0"

definition SPECIAL_SHADOW :: shadow_byte where "SPECIAL_SHADOW = 255"

definition prov_warnx :: "prov_warning \<Rightarrow> 'w prov \<Rightarrow> 'w prov" where
  "prov_warnx w st = st\<lparr> prov_warnings := prov_warnings st @ [w] \<rparr>"


subsection \<open>Shadow bytes in memory\<close>

definition shadow_stored_addr :: "addr \<Rightarrow> addr" where
  "shadow_stored_addr a = push_bit 0x28 0x70 XOR a"

definition make_invalid_shadow :: "u64 \<Rightarrow> shadow_byte" where
  "make_invalid_shadow v = 0"

definition is_sane_nonnull :: "u64 \<Rightarrow> bool" where
  "is_sane_nonnull v \<longleftrightarrow> v \<noteq> 0 \<and>
     (v \<ge> 0x000000400000 \<and> v \<le> 0x055500000000
      \<or> v \<ge> 0x2aaa00000000 \<and> v \<le> 0x2fff00000000
      \<or> v \<ge> 0x7aaa00000000 \<and> v \<le> 0x7fffffffffff)"

definition store_shadow_nonlocal :: "addr \<Rightarrow> u64 \<Rightarrow> shadow_byte \<Rightarrow> addr \<Rightarrow> 'w prov \<Rightarrow> 'w prov" where
  "store_shadow_nonlocal dest v shadow arg st =
     (let st = (if is_sane_nonnull v \<and> arg = 0 \<and> shadow = 0 then prov_warnx StoredNoProvenance st else st)
      in st\<lparr> prov_memory := (prov_memory st)(shadow_stored_addr dest := shadow) \<rparr>)"

definition shadow_from_word :: "u64 \<Rightarrow> shadow_byte" where
  "shadow_from_word arg =
     (if arg = 0 then NULL_SHADOW
      else ucast (1 + (drop_bit 8 arg XOR (arg AND 0xff)) mod 254))"

definition make_shadow :: "('w \<Rightarrow> addr \<Rightarrow> addr) \<Rightarrow> u64 \<Rightarrow> u64 \<Rightarrow> 'w prov \<Rightarrow> shadow_byte outcome" where
  "make_shadow ab arg1 arg2 st =
     (if arg2 \<noteq> 0 then Inl AssertFailed
      else if arg1 = 0 then Inr NULL_SHADOW
      else let made = shadow_from_word arg1
           in if prov_debug_level st > 1 \<and> made \<noteq> shadow_from_word (ab (prov_world st) arg1)
              then Inl AssertFailed else Inr made)"

definition fetch_shadow_inl ::
  "('w \<Rightarrow> addr \<Rightarrow> addr) \<Rightarrow> u64 \<Rightarrow> addr \<Rightarrow> addr \<Rightarrow> 'w prov \<Rightarrow> (shadow_byte \<times> 'w prov) outcome" where
  "fetch_shadow_inl ab v loaded_from t st =
     (if loaded_from \<noteq> 0
      then (let s = prov_memory st (shadow_stored_addr loaded_from)
            in Inr (s, if is_sane_nonnull v \<and> t = 0 \<and> s = 0
                       then prov_warnx LoadedNoProvenance st else st))
      else omap (\<lambda>s. (s, st)) (make_shadow ab (ab (prov_world st) v) 0 st))"


subsection \<open>The shadow stack\<close>

text \<open>The alignment is the size, up to 8; a size of zero divides by zero.\<close>

definition alloc_shadow_stack_space :: "u64 \<Rightarrow> 'w prov \<Rightarrow> (addr \<times> 'w prov) outcome" where
  "alloc_shadow_stack_space nbytes st =
     (let align = (if nbytes < 8 then nbytes else 8)
      in if align = 0 then Inl DivByZero
         else if shadow_sp st mod align \<noteq> 0 then Inl AssertFailed
         else let sp = shadow_sp st -
                (if nbytes mod align = 0 then nbytes else align * (1 + nbytes div align))
              in Inr (sp, st\<lparr> shadow_sp := sp \<rparr>))"

definition push_word_in :: "u64 \<Rightarrow> u64 \<Rightarrow> 'w prov \<Rightarrow> 'w prov outcome" where
  "push_word_in nbytes tmp st =
     obind (alloc_shadow_stack_space nbytes st) (\<lambda>(b, st).
       Inr (st\<lparr> prov_memory := store64 (prov_memory st) b tmp \<rparr>))"

definition push_local_argument_shadow :: "shadow_byte \<Rightarrow> 'w prov \<Rightarrow> 'w prov outcome" where
  "push_local_argument_shadow shadow st = push_word_in 8 (scast shadow) st"

definition push_argument_shadow_manifest ::
  "('w \<Rightarrow> addr \<Rightarrow> addr) \<Rightarrow> u64 \<Rightarrow> u64 \<Rightarrow> u64 \<Rightarrow> 'w prov \<Rightarrow> 'w prov outcome" where
  "push_argument_shadow_manifest ab v arg1 arg2 st =
     obind (make_shadow ab arg1 arg2 st) (\<lambda>s. push_word_in 8 (scast s) st)"

definition push_argument_shadow_explicit :: "u64 \<Rightarrow> shadow_byte \<Rightarrow> 'w prov \<Rightarrow> 'w prov outcome" where
  "push_argument_shadow_explicit v ch st = push_word_in 8 (scast ch) st"

definition fetch_and_push_argument_shadow ::
  "('w \<Rightarrow> addr \<Rightarrow> addr) \<Rightarrow> u64 \<Rightarrow> addr \<Rightarrow> addr \<Rightarrow> 'w prov \<Rightarrow> 'w prov outcome" where
  "fetch_and_push_argument_shadow ab v loaded_from t st =
     obind (fetch_shadow_inl ab v loaded_from t st) (\<lambda>(s, st). push_word_in 8 (scast s) st)"

definition push_argument_shadow_cookie :: "addr \<Rightarrow> 'w prov \<Rightarrow> 'w prov outcome" where
  "push_argument_shadow_cookie callee st = push_word_in 8 callee st"

definition tweak_argument_shadow_cookie :: "addr \<Rightarrow> 'w prov \<Rightarrow> bool \<times> 'w prov" where
  "tweak_argument_shadow_cookie callee st =
     (let sp = shadow_sp st; cookie = load64 (prov_memory st) sp
      in if cookie = callee
         then (True, st\<lparr> prov_memory := store64 (prov_memory st) sp (cookie OR 0x800000000000) \<rparr>)
         else (False, st))"

definition peek_argument_shadow :: "bool \<Rightarrow> u64 \<Rightarrow> u64 \<Rightarrow> 'w prov \<Rightarrow> shadow_byte" where
  "peek_argument_shadow really offset v st =
     (if really then prov_memory st (shadow_sp st + 8 + offset * 8) else make_invalid_shadow v)"

definition peek_and_shadow_store_argument_shadow ::
  "bool \<Rightarrow> addr \<Rightarrow> u64 \<Rightarrow> u64 \<Rightarrow> addr \<Rightarrow> 'w prov \<Rightarrow> 'w prov" where
  "peek_and_shadow_store_argument_shadow really loaded_from offset v t st =
     (if really
      then store_shadow_nonlocal loaded_from v (peek_argument_shadow really offset v st) t st
      else st)"

definition push_local_result_shadow :: "bool \<Rightarrow> shadow_byte \<Rightarrow> 'w prov \<Rightarrow> 'w prov outcome" where
  "push_local_result_shadow really shadow st =
     (if really then push_word_in 8 (scast shadow) st else Inr st)"

text \<open>The next two allocate \<^verbatim>\<open>sizeof (__raw_shadow_t)\<close>, one byte, and copy a whole word.\<close>

definition push_result_shadow_manifest ::
  "('w \<Rightarrow> addr \<Rightarrow> addr) \<Rightarrow> bool \<Rightarrow> u64 \<Rightarrow> u64 \<Rightarrow> u64 \<Rightarrow> 'w prov \<Rightarrow> 'w prov outcome" where
  "push_result_shadow_manifest ab really v arg1 arg2 st =
     (if really
      then obind (alloc_shadow_stack_space 1 st) (\<lambda>(b, st).
             obind (make_shadow ab arg1 arg2 st) (\<lambda>s.
               Inr (st\<lparr> prov_memory := store64 (prov_memory st) b (scast s) \<rparr>)))
      else Inr st)"

definition push_result_shadow_explicit :: "bool \<Rightarrow> u64 \<Rightarrow> shadow_byte \<Rightarrow> 'w prov \<Rightarrow> 'w prov outcome" where
  "push_result_shadow_explicit really v arg st =
     (if really then push_word_in 1 (scast arg) st else Inr st)"

definition fetch_and_push_result_shadow ::
  "('w \<Rightarrow> addr \<Rightarrow> addr) \<Rightarrow> bool \<Rightarrow> u64 \<Rightarrow> addr \<Rightarrow> addr \<Rightarrow> 'w prov \<Rightarrow> 'w prov outcome" where
  "fetch_and_push_result_shadow ab really v loaded_from t st =
     (if really
      then obind (fetch_shadow_inl ab v loaded_from t st) (\<lambda>(s, st). push_word_in 8 (scast s) st)
      else Inr st)"

definition peek_result_shadow :: "bool \<Rightarrow> u64 \<Rightarrow> u64 \<Rightarrow> 'w prov \<Rightarrow> shadow_byte" where
  "peek_result_shadow really offset v st =
     (if really then prov_memory st (shadow_sp st + offset * 8) else make_invalid_shadow v)"

definition cleanup_shadow_stack :: "addr \<Rightarrow> 'w prov \<Rightarrow> 'w prov" where
  "cleanup_shadow_stack saved_ptr st = st\<lparr> shadow_sp := saved_ptr \<rparr>"


subsection \<open>The dereference check\<close>

definition check_deref_prov ::
  "('w \<Rightarrow> addr \<Rightarrow> addr) \<Rightarrow> addr \<Rightarrow> shadow_byte \<Rightarrow> 'w prov \<Rightarrow> bool outcome" where
  "check_deref_prov ab a derefed st =
     (if a = 0 then Inl Aborted
      else if derefed \<noteq> 0 \<and> derefed \<noteq> SPECIAL_SHADOW
           \<and> shadow_from_word (ab (prov_world st) a) = derefed
      then Inr True
      else Inl Aborted)"


subsection \<open>Shadow bytes are hashes\<close>

definition prov_hash :: "addr \<Rightarrow> u64" where
  "prov_hash base = (drop_bit 8 base XOR (base AND 0xff)) mod 254"

lemma unat_prov_hash: "unat (prov_hash base) < 254"
  using mod_less_divisor[of "254 :: nat"] by (simp add: prov_hash_def unat_mod)

lemma unat_shadow_from_word: "base \<noteq> 0 \<Longrightarrow> unat (shadow_from_word base) = 1 + unat (prov_hash base)"
  using unat_prov_hash[of base]
  by (simp add: shadow_from_word_def unsigned_ucast_eq unat_word_ariths take_bit_eq_mod flip: prov_hash_def)

lemma shadow_from_word_proper: "base \<noteq> 0 \<Longrightarrow> shadow_from_word base \<noteq> 0 \<and> shadow_from_word base \<noteq> SPECIAL_SHADOW"
  using unat_shadow_from_word[of base] unat_prov_hash[of base] by (auto simp: SPECIAL_SHADOW_def)

lemma shadow_from_null [simp]: "shadow_from_word 0 = 0"
  by (simp add: shadow_from_word_def NULL_SHADOW_def)

lemma shadow_from_word_eq_iff:
  assumes "a \<noteq> 0" "b \<noteq> 0"
  shows "shadow_from_word a = shadow_from_word b \<longleftrightarrow> prov_hash a = prov_hash b"
  using unat_shadow_from_word[OF assms(1)] unat_shadow_from_word[OF assms(2)]
  by (metis add_left_cancel word_unat_eq_iff)

lemma make_shadow_made: "b \<noteq> 0 \<Longrightarrow> make_shadow ab b 0 st = Inr s \<Longrightarrow> s = shadow_from_word b"
  by (simp add: make_shadow_def Let_def split: if_split_asm)

lemma make_shadow_of_base:
  "ab (prov_world st) b = b \<Longrightarrow> make_shadow ab b 0 st = Inr (shadow_from_word b)"
  by (simp add: make_shadow_def Let_def NULL_SHADOW_def)


subsection \<open>The shadow bytes form a map\<close>

lemma shadow_stored_addr_inj [simp]: "shadow_stored_addr a = shadow_stored_addr b \<longleftrightarrow> a = b"
  by (metis shadow_stored_addr_def xor_left_cancel)

definition put_shadow :: "mem \<Rightarrow> addr \<Rightarrow> shadow_byte \<Rightarrow> mem" where
  "put_shadow m p s = m(shadow_stored_addr p := s)"

definition get_shadow :: "mem \<Rightarrow> addr \<Rightarrow> shadow_byte" where
  "get_shadow m p = m (shadow_stored_addr p)"

interpretation prov_map: shadow_map put_shadow get_shadow "\<lambda>p. True" "\<lambda>s. True"
  by unfold_locales (auto simp: put_shadow_def get_shadow_def)

lemma memory_store_shadow [simp]:
  "prov_memory (store_shadow_nonlocal p v s arg st) = put_shadow (prov_memory st) p s"
  by (simp add: store_shadow_nonlocal_def prov_warnx_def put_shadow_def Let_def)

lemma rest_store_shadow [simp]:
  "shadow_sp (store_shadow_nonlocal p v s arg st) = shadow_sp st"
  "prov_world (store_shadow_nonlocal p v s arg st) = prov_world st"
  "prov_debug_level (store_shadow_nonlocal p v s arg st) = prov_debug_level st"
  by (simp_all add: store_shadow_nonlocal_def prov_warnx_def Let_def)

text \<open>The high bits of a shadow location: those of the address, with bits 44 to 46 flipped.\<close>

lemma shadow_location_split:
  "drop_bit 44 (shadow_stored_addr p) = 7 XOR drop_bit 44 p"
  "take_bit 44 (shadow_stored_addr p) = take_bit 44 p"
  by (simp_all add: shadow_stored_addr_def drop_bit_xor take_bit_xor)

lemma nat_split_44: "unat (p :: u64) = unat (drop_bit 44 p) * 2 ^ 44 + unat (take_bit 44 p)"
  by (simp add: unat_drop_bit_u64 unat_take_bit_u64)

text \<open>No shadow byte of a sane address is stored at a sane address.\<close>

lemma sane_shadow_apart:
  assumes "is_sane_nonnull p"
  shows "\<not> is_sane_nonnull (shadow_stored_addr p)"
proof -
  let ?h = "drop_bit 44 p" and ?l = "unat (take_bit 44 p)"
  have l: "?l < 2 ^ 44" by (simp add: unat_take_bit_u64)
  have p: "unat p = unat ?h * 2 ^ 44 + ?l" by (rule nat_split_44)
  have q: "unat (shadow_stored_addr p) = unat (7 XOR ?h) * 2 ^ 44 + ?l"
    using nat_split_44[of "shadow_stored_addr p"] by (simp only: shadow_location_split)
  have "unat p \<le> 0x7fffffffffff"
    using assms by (auto simp: is_sane_nonnull_def word_le_nat_alt)
  then have "unat ?h < 8" using p l by simp
  then have "?h = 0 \<or> ?h = 1 \<or> ?h = 2 \<or> ?h = 3 \<or> ?h = 4 \<or> ?h = 5 \<or> ?h = 6 \<or> ?h = 7"
    by (auto simp: word_unat_eq_iff)
  then show ?thesis
    using assms p q l by (elim disjE) (auto simp: is_sane_nonnull_def word_le_nat_alt)
qed


lemma memory_stores:
  "prov_memory (foldl (\<lambda>st (p, v, s, arg). store_shadow_nonlocal p v s arg st) st stores) =
     prov_map.put_all (prov_memory st) (map (\<lambda>(p, v, s, arg). (p, s)) stores)"
  by (induction stores arbitrary: st) (auto simp: prov_map.put_all_def)

lemma put_all_elsewhere:
  "a \<notin> shadow_stored_addr ` fst ` set kvs \<Longrightarrow> prov_map.put_all m kvs a = m a"
  by (induction kvs arbitrary: m) (auto simp: prov_map.put_all_def put_shadow_def)

text \<open>
  (C17) The provenance shadows form a map beside the program's data.  After any sequence of stores, the
  shadow fetched for a location other than null is the last one stored for it, or the old one if there was none;
  and if all locations are sane addresses, no byte at a sane address has changed.
\<close>

theorem provenance_space_is_a_map:
  assumes "st' = foldl (\<lambda>st (p, v, s, arg). store_shadow_nonlocal p v s arg st) st stores" "q \<noteq> 0"
  shows "(\<exists>st2. fetch_shadow_inl ab v q t st' =
        Inr (case map_of (rev (map (\<lambda>(p, v, s, arg). (p, s)) stores)) q of
               Some s \<Rightarrow> s | None \<Rightarrow> prov_memory st (shadow_stored_addr q), st2))
    \<and> ((\<forall>(p, v, s, arg) \<in> set stores. is_sane_nonnull p) \<longrightarrow>
        (\<forall>a. is_sane_nonnull a \<longrightarrow> prov_memory st' a = prov_memory st a))"
proof (intro conjI impI allI)
  let ?kvs = "map (\<lambda>(p, v, s, arg). (p, s)) stores"
  have "get_shadow (prov_memory st') q =
      (case map_of (rev ?kvs) q of None \<Rightarrow> get_shadow (prov_memory st) q | Some s \<Rightarrow> s)"
    unfolding assms(1) memory_stores by (intro prov_map.get_put_all) auto
  then show "\<exists>st2. fetch_shadow_inl ab v q t st' =
      Inr (case map_of (rev ?kvs) q of Some s \<Rightarrow> s | None \<Rightarrow> prov_memory st (shadow_stored_addr q), st2)"
    using assms(2) by (cases "map_of (rev ?kvs) q") (auto simp: fetch_shadow_inl_def get_shadow_def Let_def)
next
  fix a assume "\<forall>(p, v, s, arg) \<in> set stores. is_sane_nonnull p" "is_sane_nonnull a"
  then have "a \<notin> shadow_stored_addr ` fst ` set (map (\<lambda>(p, v, s, arg). (p, s)) stores)"
    using sane_shadow_apart by fastforce
  then show "prov_memory st' a = prov_memory st a"
    unfolding assms(1) memory_stores by (rule put_all_elsewhere)
qed

text \<open>An example: one allocation at \<open>0x602000\<close>, one at \<open>0x604000\<close>.\<close>

definition ex_alloc_base :: "unit \<Rightarrow> addr \<Rightarrow> addr" where
  "ex_alloc_base w a = (if a - 0x602000 < 64 then 0x602000 else if a - 0x604000 < 64 then 0x604000 else 0)"

definition ex_prov :: "unit prov" where
  "ex_prov = \<lparr> prov_memory = (\<lambda>_. 0), shadow_sp = 0x7000fff8, prov_debug_level = 2,
     prov_warnings = [], prov_world = (), prov_allocsite = 0, real_qsort_cb = 0,
     static_shadows = (\<lambda>_. 0) \<rparr>"

theorem provenance_space_is_a_map_witness:
  "\<exists>st2. fetch_shadow_inl ex_alloc_base 0x602010 0x601000 0
       (foldl (\<lambda>st (p, v, s, arg). store_shadow_nonlocal p v s arg st) ex_prov
          [(0x601000, 0x602010, 33, 0), (0x601008, 0x604000, 65, 0)]) = Inr (33, st2)"
  using provenance_space_is_a_map[OF refl, where q = "0x601000" and st = ex_prov
      and stores = "[(0x601000, 0x602010, 33, 0), (0x601008, 0x604000, 65, 0)]"] by simp

text \<open>
  A dereference needs the right provenance.  A pointer whose shadow was made from the base of an
  allocation is dereferenced without complaint exactly at the non-null addresses whose allocation
  has a base with the same hash: always inside its own allocation, never at an address liballocs
  knows no allocation for.  A pointer with a null shadow is never dereferenced.
\<close>

theorem dereference_needs_provenance:
  assumes "base \<noteq> 0" "make_shadow ab base 0 st = Inr s"
  shows "check_deref_prov ab a s st' =
      (if a \<noteq> 0 \<and> ab (prov_world st') a \<noteq> 0 \<and> prov_hash (ab (prov_world st') a) = prov_hash base
       then Inr True else Inl Aborted)
    \<and> (a \<noteq> 0 \<and> ab (prov_world st') a = base \<longrightarrow> check_deref_prov ab a s st' = Inr True)
    \<and> check_deref_prov ab a NULL_SHADOW st' = Inl Aborted"
  using make_shadow_made[OF assms] shadow_from_word_proper[OF assms(1)]
    shadow_from_word_eq_iff[OF _ assms(1), of "ab (prov_world st') a"] assms(1)
  by (cases "ab (prov_world st') a = 0") (auto simp: check_deref_prov_def NULL_SHADOW_def)

theorem dereference_needs_provenance_witness:
  "check_deref_prov ex_alloc_base 0x602010 (shadow_from_word 0x602000) ex_prov = Inr True
   \<and> check_deref_prov ex_alloc_base 0x604010 (shadow_from_word 0x602000) ex_prov = Inl Aborted"
proof -
  have made: "make_shadow ex_alloc_base 0x602000 0 ex_prov = Inr (shadow_from_word 0x602000)"
    by (rule make_shadow_of_base) (simp add: ex_alloc_base_def)
  have "ex_alloc_base (prov_world ex_prov) 0x602010 = 0x602000"
    "ex_alloc_base (prov_world ex_prov) 0x604010 = 0x604000" "prov_hash 0x604000 \<noteq> prov_hash 0x602000"
    by (simp_all add: ex_alloc_base_def prov_hash_def)
  then show ?thesis
    using dereference_needs_provenance[OF _ made, of "0x602010" ex_prov]
      dereference_needs_provenance[OF _ made, of "0x604010" ex_prov] by simp
qed


subsection \<open>The shadow stack passes values\<close>

definition aligned_sp :: "'w prov \<Rightarrow> bool" where
  "aligned_sp st \<longleftrightarrow> shadow_sp st mod 8 = 0"

text \<open>What a push of one word does when its assertion holds.\<close>

definition push_word :: "u64 \<Rightarrow> 'w prov \<Rightarrow> 'w prov" where
  "push_word w st = st\<lparr> shadow_sp := shadow_sp st - 8,
     prov_memory := store64 (prov_memory st) (shadow_sp st - 8) w \<rparr>"

definition top_shadow :: "nat \<Rightarrow> 'w prov \<Rightarrow> shadow_byte" where
  "top_shadow i st = prov_memory st (shadow_sp st + of_nat (8 * i))"

lemma store64_first_byte: "store64 m a v a = ucast v"
  by (simp add: store64_def store_bytes_def bytes_of_def)

lemma store64_elsewhere: "8 \<le> unat (x - a) \<Longrightarrow> store64 m a v x = m x"
  by (simp add: store64_def store_bytes_def)

lemma ucast_scast_byte: "ucast (scast (s :: u8) :: u64) = s"
  by (rule bit_word_eqI) (auto simp: bit_simps)

lemma push_word_in_aligned: "aligned_sp st \<Longrightarrow> push_word_in 8 w st = Inr (push_word w st)"
  by (simp add: push_word_in_def alloc_shadow_stack_space_def aligned_sp_def push_word_def Let_def)

lemma mod_8_minus_8: "(x - 8 :: u64) mod 8 = x mod 8"
proof -
  have "unat (y + 8) mod 8 = unat y mod 8" for y :: u64
    by (simp add: unat_word_ariths mod_mod_cancel)
  from this[of "x - 8"] show ?thesis by (simp add: word_unat_eq_iff unat_mod)
qed

lemma mod_8_not_both:
  assumes "(y :: u64) mod 8 = 0"
  shows "(y + 1) mod 8 \<noteq> 0"
proof
  assume "(y + 1) mod 8 = 0"
  then have "8 dvd unat (y + 1)" by (simp add: word_unat_eq_iff unat_mod dvd_eq_mod_eq_0)
  moreover have "unat (y + 1) = (unat y + 1) mod 2 ^ 64" by (simp add: unat_word_ariths)
  ultimately have "8 dvd unat y + 1" by (simp add: dvd_mod_iff)
  moreover have "8 dvd unat y" using assms by (simp add: word_unat_eq_iff unat_mod dvd_eq_mod_eq_0)
  ultimately have "8 dvd (1 :: nat)" by (simp only: dvd_add_right_iff)
  then show False by simp
qed

lemma aligned_push_word [simp]: "aligned_sp (push_word w st) \<longleftrightarrow> aligned_sp st"
  by (simp add: aligned_sp_def push_word_def mod_8_minus_8)

interpretation prov_stack: value_stack "\<lambda>s. push_word (scast s)" top_shadow "\<lambda>s. True" "2 ^ 32"
proof
  show "top_shadow 0 (push_word (scast v) s) = v" for v and s :: "'w prov"
    by (simp add: top_shadow_def push_word_def store64_first_byte ucast_scast_byte)
  fix i v and s :: "'w prov" assume i: "i < (2 :: nat) ^ 32"
  have "unat (shadow_sp s - 8 + of_nat (8 * Suc i) - (shadow_sp s - 8)) = 8 * Suc i"
    using i by (intro unat_sub_offset) simp
  moreover have "shadow_sp s - 8 + of_nat (8 * Suc i) = shadow_sp s + of_nat (8 * i)" by simp
  ultimately have "8 \<le> unat (shadow_sp s + of_nat (8 * i) - (shadow_sp s - 8))" by simp
  then show "top_shadow (Suc i) (push_word (scast v) s) = top_shadow i s"
    by (simp add: top_shadow_def push_word_def store64_elsewhere)
qed


text \<open>Arguments are pushed from right to left.\<close>

definition push_argument_shadows :: "shadow_byte list \<Rightarrow> 'w prov \<Rightarrow> 'w prov outcome" where
  "push_argument_shadows ss st = foldr (\<lambda>s r. obind r (push_local_argument_shadow s)) ss (Inr st)"

lemma aligned_pushes [simp]:
  "aligned_sp (foldr (\<lambda>s. push_word (scast s)) ss st) \<longleftrightarrow> aligned_sp st"
  by (induction ss) simp_all

lemma push_argument_shadows_aligned:
  "aligned_sp st \<Longrightarrow> push_argument_shadows ss st = Inr (foldr (\<lambda>s. push_word (scast s)) ss st)"
  by (induction ss) (simp_all add: push_argument_shadows_def push_local_argument_shadow_def push_word_in_aligned)

lemma peek_below_cookie:
  assumes "i < 2 ^ 32"
  shows "peek_argument_shadow True (of_nat i) v
    (st\<lparr> shadow_sp := shadow_sp st - 8,
       prov_memory := store64 (store64 (prov_memory st) (shadow_sp st - 8) x) (shadow_sp st - 8) y \<rparr>)
    = top_shadow i st"
proof -
  have "unat (shadow_sp st - 8 + of_nat (8 + 8 * i) - (shadow_sp st - 8)) = 8 + 8 * i"
    using assms by (intro unat_sub_offset) simp
  moreover have "shadow_sp st - 8 + of_nat (8 + 8 * i) = shadow_sp st + of_nat (8 * i)" by simp
  ultimately have "8 \<le> unat (shadow_sp st + of_nat (8 * i) - (shadow_sp st - 8))" by simp
  then show ?thesis
    by (simp add: peek_argument_shadow_def top_shadow_def store64_elsewhere mult.commute)
qed

text \<open>The states of a call: after the pushes, with the cookie on top, and after the callee has consumed it.\<close>

definition args_pushed :: "shadow_byte list \<Rightarrow> 'w prov \<Rightarrow> 'w prov" where
  "args_pushed ss st = foldr (\<lambda>s. push_word (scast s)) ss st"

definition entered :: "addr \<Rightarrow> 'w prov \<Rightarrow> 'w prov" where
  "entered callee st = st\<lparr> shadow_sp := shadow_sp st - 8, prov_memory := store64
     (store64 (prov_memory st) (shadow_sp st - 8) callee) (shadow_sp st - 8) (callee OR 0x800000000000) \<rparr>"

lemma pushed_arguments:
  "aligned_sp st \<Longrightarrow> obind (push_argument_shadows ss st) (push_argument_shadow_cookie callee)
     = Inr (push_word callee (args_pushed ss st))"
  by (simp add: push_argument_shadows_aligned push_argument_shadow_cookie_def push_word_in_aligned args_pushed_def)

lemma callee_enters: "tweak_argument_shadow_cookie callee (push_word callee st) = (True, entered callee st)"
  by (simp add: tweak_argument_shadow_cookie_def push_word_def entered_def Let_def mem_simps)

lemma entered_peek:
  assumes "i < length ss" "length ss \<le> 2 ^ 32"
  shows "peek_argument_shadow True (of_nat i) v (entered callee (args_pushed ss st)) = ss ! i"
  using peek_below_cookie[of i v "args_pushed ss st"] prov_stack.peek_pushed[OF assms(2) _ assms(1)] assms
  by (simp add: entered_def args_pushed_def)

lemma entered_once:
  "unat callee < 2 ^ 47 \<Longrightarrow> \<not> fst (tweak_argument_shadow_cookie callee (entered callee st))"
  using cookie_bit_changes[of callee] by (simp add: entered_def tweak_argument_shadow_cookie_def Let_def mem_simps)

text \<open>
  (C18) An instrumented call passes the provenance of its arguments.  On an aligned shadow stack, for at
  most \<open>2 ^ 32\<close> arguments and a callee in user space, the pushes succeed; the callee finds its cookie, reads for each argument the shadow that was pushed
  for it, and consumes the cookie; any other function would find no cookie and give its arguments
  the null shadow; and the caller's clean-up restores the stack pointer.
\<close>

theorem call_passes_argument_shadows:
  assumes "aligned_sp st" "length ss \<le> 2 ^ 32" "unat callee < 2 ^ 47"
  shows "\<exists>st1 st2. obind (push_argument_shadows ss st) (push_argument_shadow_cookie callee) = Inr st1
    \<and> tweak_argument_shadow_cookie callee st1 = (True, st2)
    \<and> (\<forall>i < length ss. peek_argument_shadow True (of_nat i) v st2 = ss ! i)
    \<and> \<not> fst (tweak_argument_shadow_cookie callee st2)
    \<and> (\<forall>other. other \<noteq> callee \<longrightarrow> tweak_argument_shadow_cookie other st1 = (False, st1)
          \<and> peek_argument_shadow False off v st1 = NULL_SHADOW)
    \<and> cleanup_shadow_stack (shadow_sp st) st2 = st2\<lparr> shadow_sp := shadow_sp st \<rparr>"
proof (intro exI conjI allI impI)
  show "obind (push_argument_shadows ss st) (push_argument_shadow_cookie callee)
      = Inr (push_word callee (args_pushed ss st))"
    using assms(1) by (rule pushed_arguments)
  show "tweak_argument_shadow_cookie callee (push_word callee (args_pushed ss st))
      = (True, entered callee (args_pushed ss st))"
    by (rule callee_enters)
  show "tweak_argument_shadow_cookie other (push_word callee (args_pushed ss st))
      = (False, push_word callee (args_pushed ss st))" if "other \<noteq> callee" for other
    using that by (simp add: tweak_argument_shadow_cookie_def push_word_def Let_def mem_simps)
qed (use assms in \<open>simp_all add: entered_peek entered_once peek_argument_shadow_def[of False]
      make_invalid_shadow_def NULL_SHADOW_def cleanup_shadow_stack_def\<close>)

theorem call_passes_argument_shadows_witness:
  "\<exists>st1 st2. obind (push_argument_shadows [33, 65] ex_prov) (push_argument_shadow_cookie 0x401000) = Inr st1
    \<and> tweak_argument_shadow_cookie 0x401000 st1 = (True, st2)
    \<and> peek_argument_shadow True (of_nat 1) 0 st2 = 65"
  using call_passes_argument_shadows[of ex_prov "[33, 65]" "0x401000" 0 0]
  by (fastforce simp: aligned_sp_def ex_prov_def)

text \<open>
  A result shadow leaves the stack misaligned.  The shadow of a manifest or explicit result is
  read back correctly, but the push has moved the stack pointer by a single byte: until it is
  reset, every further push of a word fails its assertion.  A result that is propagated from a
  local shadow leaves the stack aligned.
\<close>

theorem result_shadow_misaligns:
  assumes "aligned_sp st" "ab (prov_world st) base = base"
  shows "\<exists>st1 st2 st3. push_result_shadow_explicit True v s st = Inr st1
    \<and> push_result_shadow_manifest ab True v base 0 st = Inr st2
    \<and> push_local_result_shadow True s st = Inr st3
    \<and> peek_result_shadow True 0 v st1 = s \<and> peek_result_shadow True 0 v st2 = shadow_from_word base
    \<and> peek_result_shadow True 0 v st3 = s
    \<and> push_word_in 8 w st1 = Inl AssertFailed \<and> push_word_in 8 w st2 = Inl AssertFailed
    \<and> push_word_in 8 w st3 = Inr (push_word w st3)"
proof -
  have odd: "(shadow_sp st - 1) mod 8 \<noteq> 0"
  proof
    assume "(shadow_sp st - 1) mod 8 = 0"
    from mod_8_not_both[OF this] assms(1) show False by (simp add: aligned_sp_def)
  qed
  have small: "alloc_shadow_stack_space 1 st = Inr (shadow_sp st - 1, st\<lparr> shadow_sp := shadow_sp st - 1 \<rparr>)"
    by (simp add: alloc_shadow_stack_space_def Let_def)
  have made: "make_shadow ab base 0 (st\<lparr> shadow_sp := x \<rparr>) = Inr (shadow_from_word base)" for x
    by (rule make_shadow_of_base) (simp add: assms(2))
  show ?thesis
    using assms(1) odd
    by (simp add: push_result_shadow_explicit_def push_result_shadow_manifest_def push_word_in_def small made
        push_local_result_shadow_def peek_result_shadow_def store64_first_byte ucast_scast_byte
        alloc_shadow_stack_space_def[of 8] aligned_sp_def push_word_def mod_8_minus_8 Let_def)
qed

theorem result_shadow_misaligns_witness:
  "\<exists>st1. push_result_shadow_explicit True 0x602010 33 ex_prov = Inr st1
    \<and> peek_result_shadow True 0 0x602010 st1 = 33 \<and> push_word_in 8 0x401000 st1 = Inl AssertFailed"
  using result_shadow_misaligns[of ex_prov ex_alloc_base "0x602000" "0x602010" 33 "0x401000"]
  by (force simp: aligned_sp_def ex_prov_def ex_alloc_base_def)

end
