(* ===== verification/Shadowprov_Libc.thy ===== *)
theory Shadowprov_Libc
  imports Shadowprov Shadow_Init
begin

text \<open>
  The libc wrappers of the provenance instrumentation
  (\<^verbatim>\<open>frontend/c/shadowprov/shadowprov_libc_wrappers.c\<close>).  A wrapper consumes the cookie of an
  instrumented caller, calls the real function, and pushes a shadow for the result.  In every
  definition \<open>self\<close> is the wrapper's own address, \<open>ab\<close> is \<^verbatim>\<open>__liballocs_get_alloc_base\<close>, and
  \<open>real\<close> is the C library's function: what it does to the process is its own business, and it gives
  a result and a new state.
\<close>

type_synonym ('a, 'w) called = "'w prov \<Rightarrow> 'a \<times> 'w prov"
type_synonym ('a, 'w) wrapper = "'w prov \<Rightarrow> ('a \<times> 'w prov) outcome"
type_synonym 'w bases = "'w \<Rightarrow> addr \<Rightarrow> addr"

subsection \<open>The macros\<close>

text \<open>\<^verbatim>\<open>BEGIN\<close>, followed by the call of the real function.\<close>

definition begin_call :: "addr \<Rightarrow> ('a, 'w) called \<Rightarrow> 'w prov \<Rightarrow> bool \<times> 'a \<times> 'w prov" where
  "begin_call self real st =
     (case tweak_argument_shadow_cookie self st of (inst, st) \<Rightarrow> (inst, real st))"

definition return_shadowable :: "'w bases \<Rightarrow> bool \<Rightarrow> 'a \<Rightarrow> u64 \<Rightarrow> ('a, 'w) wrapper" where
  "return_shadowable ab inst v arg1 st =
     omap (\<lambda>st. (v, st)) (push_result_shadow_manifest ab inst 0 arg1 0 st)"

definition return_null :: "'w bases \<Rightarrow> bool \<Rightarrow> (addr, 'w) wrapper" where
  "return_null ab inst st = return_shadowable ab inst 0 0 st"

definition return_integer :: "'w bases \<Rightarrow> bool \<Rightarrow> 'a \<Rightarrow> ('a, 'w) wrapper" where
  "return_integer ab inst v st = return_shadowable ab inst v 0 st"

definition return_with_argshadow :: "bool \<Rightarrow> addr \<Rightarrow> u64 \<Rightarrow> addr \<Rightarrow> (addr, 'w) wrapper" where
  "return_with_argshadow inst v off argval st =
     omap (\<lambda>st. (v, st))
       (push_local_result_shadow inst (peek_argument_shadow inst off argval st) st)"

definition generate_from_base :: "'w bases \<Rightarrow> addr \<Rightarrow> 'w prov \<Rightarrow> shadow_byte outcome" where
  "generate_from_base ab v st = make_shadow ab v 0 st"

definition return_shadowable_fresh :: "'w bases \<Rightarrow> bool \<Rightarrow> addr \<Rightarrow> (addr, 'w) wrapper" where
  "return_shadowable_fresh ab inst v st =
     return_shadowable ab inst v (if v = 0 then 0 else ab (prov_world st) v) st"

definition return_shadowable_explicit :: "bool \<Rightarrow> addr \<Rightarrow> shadow_byte \<Rightarrow> (addr, 'w) wrapper" where
  "return_shadowable_explicit inst v ch st =
     omap (\<lambda>st. (v, st)) (push_result_shadow_explicit inst v ch st)"

text \<open>A static \<^verbatim>\<open>char shadow\<close> that is computed on the first call.\<close>

definition remember_shadow :: "'w bases \<Rightarrow> static_shadow \<Rightarrow> addr \<Rightarrow> (shadow_byte, 'w) wrapper" where
  "remember_shadow ab var v st =
     (if static_shadows st var = 0
      then omap (\<lambda>s. (s, st\<lparr> static_shadows := (static_shadows st)(var := s) \<rparr>)) (generate_from_base ab v st)
      else Inr (static_shadows st var, st))"

text \<open>\<^verbatim>\<open>__builtin_memset (p, 0, n)\<close>.\<close>

definition clear_bytes :: "addr \<Rightarrow> u64 \<Rightarrow> 'w prov \<Rightarrow> 'w prov outcome" where
  "clear_bytes a n st =
     (if a = 0 \<and> n \<noteq> 0 then Inl NullDeref
      else Inr (st\<lparr> prov_memory := (\<lambda>x. if x - a < n then 0 else prov_memory st x) \<rparr>))"


subsection \<open>The wrappers\<close>

definition wrap_tmpfile ::
  "addr \<Rightarrow> 'w bases \<Rightarrow> ((addr, 'w) called) \<Rightarrow> (addr, 'w) wrapper" where
  "wrap_tmpfile self ab real st =
     (case begin_call self real st of (inst, ret, st) \<Rightarrow>
        return_shadowable_fresh ab inst ret st)"

definition wrap_fdopendir ::
  "addr \<Rightarrow> 'w bases \<Rightarrow> (int \<Rightarrow> (addr, 'w) called) \<Rightarrow> int \<Rightarrow> (addr, 'w) wrapper" where
  "wrap_fdopendir self ab real fd st =
     (case begin_call self (real fd) st of (inst, ret, st) \<Rightarrow>
        return_shadowable_fresh ab inst ret st)"

definition wrap_strchr ::
  "addr \<Rightarrow> 'w bases \<Rightarrow> (addr \<Rightarrow> int \<Rightarrow> (addr, 'w) called) \<Rightarrow> addr \<Rightarrow> int \<Rightarrow> (addr, 'w) wrapper" where
  "wrap_strchr self ab real s c st =
     (case begin_call self (real s c) st of (inst, ret, st) \<Rightarrow>
        if ret \<noteq> 0 then return_with_argshadow inst ret 0 s st else return_null ab inst st)"

definition wrap_rawmemchr ::
  "addr \<Rightarrow> 'w bases \<Rightarrow> (addr \<Rightarrow> int \<Rightarrow> (addr, 'w) called) \<Rightarrow> addr \<Rightarrow> int \<Rightarrow> (addr, 'w) wrapper" where
  "wrap_rawmemchr self ab real s c st =
     (case begin_call self (real s c) st of (inst, ret, st) \<Rightarrow>
        if ret \<noteq> 0 then return_with_argshadow inst ret 0 s st else return_null ab inst st)"

text \<open>The shadow of \<^verbatim>\<open>errno\<close> is made from its address, those of the character tables from their base.\<close>

definition wrap_errno_location ::
  "addr \<Rightarrow> 'w bases \<Rightarrow> ((addr, 'w) called) \<Rightarrow> (addr, 'w) wrapper" where
  "wrap_errno_location self ab real st =
     (case begin_call self real st of (inst, ret, st) \<Rightarrow>
        obind (remember_shadow ab ErrnoShadow ret st) (\<lambda>(s, st).
          return_shadowable_explicit inst ret s st))"

definition wrap_ctype_b_loc ::
  "addr \<Rightarrow> 'w bases \<Rightarrow> ((addr, 'w) called) \<Rightarrow> (addr, 'w) wrapper" where
  "wrap_ctype_b_loc self ab real st =
     (case begin_call self real st of (inst, ret, st) \<Rightarrow>
        obind (remember_shadow ab CtypeBShadow (ab (prov_world st) ret) st) (\<lambda>(s, st).
          return_shadowable_explicit inst ret s st))"

definition wrap_ctype_toupper_loc ::
  "addr \<Rightarrow> 'w bases \<Rightarrow> ((addr, 'w) called) \<Rightarrow> (addr, 'w) wrapper" where
  "wrap_ctype_toupper_loc self ab real st =
     (case begin_call self real st of (inst, ret, st) \<Rightarrow>
        obind (remember_shadow ab CtypeToupperShadow (ab (prov_world st) ret) st) (\<lambda>(s, st).
          return_shadowable_explicit inst ret s st))"

definition wrap_ctype_tolower_loc ::
  "addr \<Rightarrow> 'w bases \<Rightarrow> ((addr, 'w) called) \<Rightarrow> (addr, 'w) wrapper" where
  "wrap_ctype_tolower_loc self ab real st =
     (case begin_call self real st of (inst, ret, st) \<Rightarrow>
        obind (remember_shadow ab CtypeTolowerShadow (ab (prov_world st) ret) st) (\<lambda>(s, st).
          return_shadowable_explicit inst ret s st))"

definition wrap_fopen ::
  "addr \<Rightarrow> 'w bases \<Rightarrow> (addr \<Rightarrow> addr \<Rightarrow> (addr, 'w) called) \<Rightarrow> addr \<Rightarrow> addr \<Rightarrow> (addr, 'w) wrapper" where
  "wrap_fopen self ab real fname mode st =
     (case begin_call self (real fname mode) st of (inst, ret, st) \<Rightarrow>
        return_shadowable_fresh ab inst ret st)"

definition wrap_strtok ::
  "addr \<Rightarrow> 'w bases \<Rightarrow> (addr \<Rightarrow> addr \<Rightarrow> (addr, 'w) called) \<Rightarrow> addr \<Rightarrow> addr \<Rightarrow> (addr, 'w) wrapper" where
  "wrap_strtok self ab real str delim st =
     (case begin_call self (real str delim) st of (inst, ret, st) \<Rightarrow>
        return_shadowable_fresh ab inst ret st)"

definition wrap_fgets ::
  "addr \<Rightarrow> 'w bases \<Rightarrow> (addr \<Rightarrow> int \<Rightarrow> addr \<Rightarrow> (addr, 'w) called) \<Rightarrow> addr \<Rightarrow> int \<Rightarrow> addr \<Rightarrow> (addr, 'w) wrapper" where
  "wrap_fgets self ab real s n stream st =
     (case begin_call self (real s n stream) st of (inst, ret, st) \<Rightarrow>
        if ret \<noteq> 0 then return_with_argshadow inst ret 0 s st else return_null ab inst st)"

definition wrap_strstr ::
  "addr \<Rightarrow> 'w bases \<Rightarrow> (addr \<Rightarrow> addr \<Rightarrow> (addr, 'w) called) \<Rightarrow> addr \<Rightarrow> addr \<Rightarrow> (addr, 'w) wrapper" where
  "wrap_strstr self ab real haystack needle st =
     (case begin_call self (real haystack needle) st of (inst, ret, st) \<Rightarrow>
        return_with_argshadow inst ret 0 haystack st)"

definition wrap_strdup ::
  "addr \<Rightarrow> 'w bases \<Rightarrow> (addr \<Rightarrow> (addr, 'w) called) \<Rightarrow> addr \<Rightarrow> (addr, 'w) wrapper" where
  "wrap_strdup self ab real s st =
     (case begin_call self (real s) st of (inst, ret, st) \<Rightarrow>
        return_shadowable_fresh ab inst ret st)"

definition wrap_getenv ::
  "addr \<Rightarrow> 'w bases \<Rightarrow> (addr \<Rightarrow> (addr, 'w) called) \<Rightarrow> addr \<Rightarrow> (addr, 'w) wrapper" where
  "wrap_getenv self ab real s st =
     (case begin_call self (real s) st of (inst, ret, st) \<Rightarrow>
        if ret \<noteq> 0 then return_shadowable_fresh ab inst ret st else return_null ab inst st)"

text \<open>
  The allocation functions note their caller (\<open>ra\<close>, \<^verbatim>\<open>__builtin_return_address(0)\<close>) as the
  allocation site while the real function runs, unless a site is already set.
\<close>

definition with_allocsite :: "addr \<Rightarrow> (addr, 'w) called \<Rightarrow> (addr, 'w) called" where
  "with_allocsite ra real st =
     (if prov_allocsite st = 0
      then (case real (st\<lparr> prov_allocsite := ra \<rparr>) of (ret, st) \<Rightarrow> (ret, st\<lparr> prov_allocsite := 0 \<rparr>))
      else real st)"

definition wrap_malloc ::
  "addr \<Rightarrow> addr \<Rightarrow> 'w bases \<Rightarrow> (u64 \<Rightarrow> (addr, 'w) called) \<Rightarrow> u64 \<Rightarrow> (addr, 'w) wrapper" where
  "wrap_malloc self ra ab real s st =
     (case begin_call self (with_allocsite ra (real s)) st of (inst, ret, st) \<Rightarrow>
        if ret \<noteq> 0
        then obind (clear_bytes ret s st) (return_shadowable_fresh ab inst ret)
        else return_null ab inst st)"

definition wrap_calloc ::
  "addr \<Rightarrow> addr \<Rightarrow> 'w bases \<Rightarrow> (u64 \<Rightarrow> u64 \<Rightarrow> (addr, 'w) called) \<Rightarrow> u64 \<Rightarrow> u64 \<Rightarrow> (addr, 'w) wrapper" where
  "wrap_calloc self ra ab real nmemb n st =
     (case begin_call self (with_allocsite ra (real nmemb n)) st of (inst, ret, st) \<Rightarrow>
        if ret \<noteq> 0 then return_shadowable_fresh ab inst ret st else return_null ab inst st)"

text \<open>\<open>usable\<close> is \<^verbatim>\<open>malloc_usable_size\<close>, read before the block is resized.\<close>

definition wrap_realloc ::
  "addr \<Rightarrow> addr \<Rightarrow> 'w bases \<Rightarrow> ('w prov \<Rightarrow> addr \<Rightarrow> u64) \<Rightarrow> (addr \<Rightarrow> u64 \<Rightarrow> (addr, 'w) called) \<Rightarrow>
     addr \<Rightarrow> u64 \<Rightarrow> (addr, 'w) wrapper" where
  "wrap_realloc self ra ab usable real p n st =
     (case tweak_argument_shadow_cookie self st of (inst, st) \<Rightarrow>
        let orig_size = (if p \<noteq> 0 then usable st p else 0) in
        case with_allocsite ra (real p n) st of (ret, st) \<Rightarrow>
          if ret = p
          then obind (if n > orig_size then clear_bytes (ret + orig_size) (n - orig_size) st else Inr st)
                 (return_with_argshadow inst ret 0 p)
          else obind (if ret \<noteq> 0 \<and> p = 0 then clear_bytes ret n st else Inr st) (\<lambda>st.
            if ret \<noteq> 0
            then obind (if n > orig_size then clear_bytes (ret + orig_size) (n - orig_size) st else Inr st)
                   (return_shadowable_fresh ab inst ret)
            else return_null ab inst st))"

definition wrap_dlsym ::
  "addr \<Rightarrow> 'w bases \<Rightarrow> (addr \<Rightarrow> addr \<Rightarrow> (addr, 'w) called) \<Rightarrow> addr \<Rightarrow> addr \<Rightarrow> (addr, 'w) wrapper" where
  "wrap_dlsym self ab real handle symbol st =
     (case begin_call self (real handle symbol) st of (inst, ret, st) \<Rightarrow>
        if ret \<noteq> 0 then return_shadowable_fresh ab inst ret st else return_null ab inst st)"

definition wrap_strrchr ::
  "addr \<Rightarrow> 'w bases \<Rightarrow> (addr \<Rightarrow> int \<Rightarrow> (addr, 'w) called) \<Rightarrow> addr \<Rightarrow> int \<Rightarrow> (addr, 'w) wrapper" where
  "wrap_strrchr self ab real s c st =
     (case begin_call self (real s c) st of (inst, ret, st) \<Rightarrow>
        if ret \<noteq> 0 then return_with_argshadow inst ret 0 s st else return_null ab inst st)"

definition wrap_localtime ::
  "addr \<Rightarrow> 'w bases \<Rightarrow> (addr \<Rightarrow> (addr, 'w) called) \<Rightarrow> addr \<Rightarrow> (addr, 'w) wrapper" where
  "wrap_localtime self ab real timep st =
     (case begin_call self (real timep) st of (inst, ret, st) \<Rightarrow>
        if ret \<noteq> 0
        then obind (remember_shadow ab LocaltimeShadow ret st) (\<lambda>(s, st).
               return_shadowable_explicit inst ret s st)
        else return_null ab inst st)"

definition wrap_dlopen ::
  "addr \<Rightarrow> 'w bases \<Rightarrow> (addr \<Rightarrow> int \<Rightarrow> (addr, 'w) called) \<Rightarrow> addr \<Rightarrow> int \<Rightarrow> (addr, 'w) wrapper" where
  "wrap_dlopen self ab real filename flag st =
     (case begin_call self (real filename flag) st of (inst, ret, st) \<Rightarrow>
        if ret \<noteq> 0
        then obind (generate_from_base ab ret st) (\<lambda>s. return_shadowable_explicit inst ret s st)
        else return_null ab inst st)"

text \<open>These return their first argument, not what the real function returned.\<close>

definition wrap_strcat ::
  "addr \<Rightarrow> 'w bases \<Rightarrow> (addr \<Rightarrow> addr \<Rightarrow> (addr, 'w) called) \<Rightarrow> addr \<Rightarrow> addr \<Rightarrow> (addr, 'w) wrapper" where
  "wrap_strcat self ab real dest src st =
     (case begin_call self (real dest src) st of (inst, ret, st) \<Rightarrow>
        return_with_argshadow inst dest 0 dest st)"

definition wrap_getcwd ::
  "addr \<Rightarrow> 'w bases \<Rightarrow> (addr \<Rightarrow> u64 \<Rightarrow> (addr, 'w) called) \<Rightarrow> addr \<Rightarrow> u64 \<Rightarrow> (addr, 'w) wrapper" where
  "wrap_getcwd self ab real buf n st =
     (case begin_call self (real buf n) st of (inst, ret, st) \<Rightarrow>
        if ret \<noteq> 0 then return_with_argshadow inst buf 0 buf st else return_null ab inst st)"

definition wrap_memset ::
  "addr \<Rightarrow> 'w bases \<Rightarrow> (addr \<Rightarrow> int \<Rightarrow> u64 \<Rightarrow> (addr, 'w) called) \<Rightarrow> addr \<Rightarrow> int \<Rightarrow> u64 \<Rightarrow> (addr, 'w) wrapper" where
  "wrap_memset self ab real s c n st =
     (case begin_call self (real s c n) st of (inst, ret, st) \<Rightarrow>
        return_with_argshadow inst s 0 s st)"

definition wrap_strcpy ::
  "addr \<Rightarrow> 'w bases \<Rightarrow> (addr \<Rightarrow> addr \<Rightarrow> (addr, 'w) called) \<Rightarrow> addr \<Rightarrow> addr \<Rightarrow> (addr, 'w) wrapper" where
  "wrap_strcpy self ab real dest src st =
     (case begin_call self (real dest src) st of (inst, ret, st) \<Rightarrow>
        return_with_argshadow inst dest 0 dest st)"

definition wrap_fdopen ::
  "addr \<Rightarrow> 'w bases \<Rightarrow> (int \<Rightarrow> addr \<Rightarrow> (addr, 'w) called) \<Rightarrow> int \<Rightarrow> addr \<Rightarrow> (addr, 'w) wrapper" where
  "wrap_fdopen self ab real fd mode st =
     (case begin_call self (real fd mode) st of (inst, ret, st) \<Rightarrow>
        return_shadowable_fresh ab inst ret st)"

definition wrap_fgetc ::
  "addr \<Rightarrow> 'w bases \<Rightarrow> (addr \<Rightarrow> (int, 'w) called) \<Rightarrow> addr \<Rightarrow> (int, 'w) wrapper" where
  "wrap_fgetc self ab real stream st =
     (case begin_call self (real stream) st of (inst, ret, st) \<Rightarrow>
        return_integer ab inst ret st)"


subsection \<open>Sorting\<close>

text \<open>
  The callback that \<^verbatim>\<open>qsort\<close> is given instead of the user's one; \<open>call\<close> calls the function at an
  address.  The allocation bases of the two elements are passed as the (unused) value, and the
  shadows are made from zero.
\<close>

type_synonym 'w comparator = "addr \<Rightarrow> addr \<Rightarrow> (int, 'w) wrapper"

definition launder_qsort_cb :: "'w bases \<Rightarrow> (addr \<Rightarrow> 'w comparator) \<Rightarrow> 'w comparator" where
  "launder_qsort_cb ab call arg1 arg2 st =
     (let saved_ssp = shadow_sp st in
      obind (push_argument_shadow_manifest ab (ab (prov_world st) arg2) 0 0 st) (\<lambda>st.
      obind (push_argument_shadow_manifest ab (ab (prov_world st) arg1) 0 0 st) (\<lambda>st.
      obind (push_argument_shadow_cookie (real_qsort_cb st) st) (\<lambda>st.
      obind (call (real_qsort_cb st) arg1 arg2 st) (\<lambda>(ret, st).
        return_integer ab False ret (st\<lparr> shadow_sp := saved_ssp \<rparr>))))))"

definition wrap_qsort ::
  "addr \<Rightarrow> 'w bases \<Rightarrow> (addr \<Rightarrow> 'w comparator) \<Rightarrow>
     (addr \<Rightarrow> u64 \<Rightarrow> u64 \<Rightarrow> 'w comparator \<Rightarrow> (int, 'w) wrapper) \<Rightarrow>
     addr \<Rightarrow> u64 \<Rightarrow> u64 \<Rightarrow> addr \<Rightarrow> (int, 'w) wrapper" where
  "wrap_qsort self ab call real base nmemb n compar st =
     (case tweak_argument_shadow_cookie self st of (inst, st) \<Rightarrow>
        obind (real base nmemb n (launder_qsort_cb ab call) (st\<lparr> real_qsort_cb := compar \<rparr>)) (\<lambda>(ret, st).
          return_integer ab inst ret (st\<lparr> real_qsort_cb := 0 \<rparr>)))"


subsection \<open>Obstacks\<close>

text \<open>\<^verbatim>\<open>STORE_IT_GETBASE\<close> for the pointer stored at an address.\<close>

definition store_it_getbase :: "'w bases \<Rightarrow> addr \<Rightarrow> 'w prov \<Rightarrow> 'w prov outcome" where
  "store_it_getbase ab loc st =
     (if loc = 0 then Inr (store_shadow_nonlocal loc 0 NULL_SHADOW 0 st)
      else let base = ab (prov_world st) (load64 (prov_memory st) loc)
           in obind (make_shadow ab base 0 st) (\<lambda>s. Inr (store_shadow_nonlocal loc base s 0 st)))"

fun store_all_getbase :: "'w bases \<Rightarrow> addr list \<Rightarrow> 'w prov \<Rightarrow> 'w prov outcome" where
  "store_all_getbase ab [] st = Inr st"
| "store_all_getbase ab (loc # locs) st = obind (store_it_getbase ab loc st) (store_all_getbase ab locs)"

text \<open>
  The members of \<^verbatim>\<open>struct obstack\<close> that hold data pointers, at the offsets of the C library:
  \<^verbatim>\<open>chunk\<close>, \<^verbatim>\<open>object_base\<close>, \<^verbatim>\<open>next_free\<close>, \<^verbatim>\<open>chunk_limit\<close>, \<^verbatim>\<open>extra_arg\<close>.
\<close>

definition obstack_members :: "addr \<Rightarrow> addr list" where
  "obstack_members ob = [ob + 8, ob + 16, ob + 24, ob + 32, ob + 72]"

definition wrap_obstack_begin ::
  "addr \<Rightarrow> 'w bases \<Rightarrow> (addr \<Rightarrow> int \<Rightarrow> int \<Rightarrow> addr \<Rightarrow> addr \<Rightarrow> (int, 'w) called) \<Rightarrow>
     addr \<Rightarrow> int \<Rightarrow> int \<Rightarrow> addr \<Rightarrow> addr \<Rightarrow> (int, 'w) wrapper" where
  "wrap_obstack_begin self ab real ob n alignment chunkfun freefun st =
     (case begin_call self (real ob n alignment chunkfun freefun) st of (inst, ret, st) \<Rightarrow>
        omap (\<lambda>st. (ret, st)) (store_all_getbase ab (obstack_members ob) st))"

definition wrap_obstack_begin_1 ::
  "addr \<Rightarrow> 'w bases \<Rightarrow> (addr \<Rightarrow> int \<Rightarrow> int \<Rightarrow> addr \<Rightarrow> addr \<Rightarrow> addr \<Rightarrow> (int, 'w) called) \<Rightarrow>
     addr \<Rightarrow> int \<Rightarrow> int \<Rightarrow> addr \<Rightarrow> addr \<Rightarrow> addr \<Rightarrow> (int, 'w) wrapper" where
  "wrap_obstack_begin_1 self ab real ob n alignment chunkfun freefun arg st =
     (case begin_call self (real ob n alignment chunkfun freefun arg) st of (inst, ret, st) \<Rightarrow>
        omap (\<lambda>st. (ret, st)) (store_all_getbase ab (obstack_members ob) st))"


subsection \<open>Start-up\<close>

text \<open>
  The constructor reads the same facts of the process as the one that sets up the bounds
  (\<open>environ\<close>), and the start of the argument strings, \<open>asciiz_start\<close>.
\<close>

text \<open>\<^verbatim>\<open>STORE_IT2\<close> and \<^verbatim>\<open>STORE_IT_AT\<close>: the shadow of a value, for a location.\<close>

definition store_it_at :: "'w bases \<Rightarrow> addr \<Rightarrow> u64 \<Rightarrow> 'w prov \<Rightarrow> 'w prov outcome" where
  "store_it_at ab place v st =
     obind (make_shadow ab v 0 st) (\<lambda>s. Inr (store_shadow_nonlocal place v s 0 st))"

definition stored_ptr :: "'w bases \<Rightarrow> addr \<Rightarrow> 'w prov \<Rightarrow> 'w prov outcome" where
  "stored_ptr ab loc st =
     obind (make_shadow ab (load64 (prov_memory st) loc) 0 st) (\<lambda>_.
       store_it_at ab loc (load64 (prov_memory st) loc) (prov_warnx SetUpStored st))"

fun stored_ptrs :: "'w bases \<Rightarrow> addr list \<Rightarrow> 'w prov \<Rightarrow> 'w prov outcome" where
  "stored_ptrs ab [] st = Inr st"
| "stored_ptrs ab (loc # locs) st = obind (stored_ptr ab loc st) (stored_ptrs ab locs)"

text \<open>The loops over the two vectors, with the number of elements as fuel.\<close>

fun store_vector :: "'w bases \<Rightarrow> nat \<Rightarrow> addr \<Rightarrow> addr \<Rightarrow> u64 \<Rightarrow> 'w prov \<Rightarrow> 'w prov outcome" where
  "store_vector ab n p terminator v st =
     (if p = terminator then Inr st
      else if n = 0 then Inl NonTermination
      else obind (store_it_at ab p v st) (store_vector ab (n - 1) (p + 8) terminator v))"

declare store_vector.simps [simp del]

text \<open>
  The location of a character table is asked for three times, through the wrapper: once for the
  place and twice for the value.
\<close>

definition store_ctype :: "'w bases \<Rightarrow> (addr, 'w) wrapper \<Rightarrow> 'w prov \<Rightarrow> 'w prov outcome" where
  "store_ctype ab loc st =
     obind (loc st) (\<lambda>(place, st).
     obind (loc st) (\<lambda>(l1, st).
     obind (loc st) (\<lambda>(l2, st).
     obind (make_shadow ab (ab (prov_world st) (load64 (prov_memory st) l2)) 0 st) (\<lambda>s.
       Inr (store_shadow_nonlocal place (ab (prov_world st) (load64 (prov_memory st) l1)) s 0 st)))))"

fun store_ctypes :: "'w bases \<Rightarrow> (addr, 'w) wrapper list \<Rightarrow> 'w prov \<Rightarrow> 'w prov outcome" where
  "store_ctypes ab [] st = Inr st"
| "store_ctypes ab (loc # locs) st = obind (store_ctype ab loc st) (store_ctypes ab locs)"

definition init_provenance_entries ::
  "'w bases \<Rightarrow> (addr, 'w) wrapper list \<Rightarrow> addr \<Rightarrow> environ \<Rightarrow> 'w prov \<Rightarrow> 'w prov outcome" where
  "init_provenance_entries ab ctype_locs asciiz_start env st =
     (case auxv env of None \<Rightarrow> Inr st
      | Some lims \<Rightarrow>
          obind (store_vector ab (vector_length (argv_vector_start lims) (argv_vector_terminator lims))
                   (argv_vector_start lims) (argv_vector_terminator lims) asciiz_start st) (\<lambda>st.
          obind (store_vector ab (vector_length (env_vector_start lims) (env_vector_terminator lims))
                   (env_vector_start lims) (env_vector_terminator lims) asciiz_start st) (\<lambda>st.
          obind (store_it_at ab (environ_loc env) (env_vector_start lims) st) (\<lambda>st.
          obind (stored_ptrs ab (stdio_locs env) st) (\<lambda>st.
          obind (store_ctypes ab ctype_locs st) (\<lambda>st.
          let st = (if main_addr env = 0 \<or> main_addr env = -1 then prov_warnx NoMainAddress st else st) in
          obind (push_argument_shadow_manifest ab (argv_vector_start lims) (argv_vector_start lims) 0 st) (\<lambda>st.
          obind (push_argument_shadow_manifest ab 0 0 0 st)
            (push_argument_shadow_cookie (main_addr env)))))))))"


subsection \<open>Results of wrapped functions\<close>

definition cookie_at_top :: "addr \<Rightarrow> 'w prov \<Rightarrow> bool" where
  "cookie_at_top self st \<longleftrightarrow> load64 (prov_memory st) (shadow_sp st) = self"

text \<open>The state in which the real function runs when the caller is instrumented.\<close>

definition consumed :: "addr \<Rightarrow> 'w prov \<Rightarrow> 'w prov" where
  "consumed self st =
     st\<lparr> prov_memory := store64 (prov_memory st) (shadow_sp st) (self OR 0x800000000000) \<rparr>"

lemma begin_call_instrumented:
  "cookie_at_top self st \<Longrightarrow> begin_call self real st = (True, real (consumed self st))"
  by (simp add: begin_call_def tweak_argument_shadow_cookie_def cookie_at_top_def consumed_def Let_def)

lemma begin_call_uninstrumented:
  "\<not> cookie_at_top self st \<Longrightarrow> begin_call self real st = (False, real st)"
  by (simp add: begin_call_def tweak_argument_shadow_cookie_def cookie_at_top_def Let_def)

definition returns_shadow :: "'a \<Rightarrow> shadow_byte \<Rightarrow> 'w prov \<Rightarrow> ('a \<times> 'w prov) outcome \<Rightarrow> bool" where
  "returns_shadow v s st1 r \<longleftrightarrow>
     (\<exists>st2. r = Inr (v, st2) \<and> peek_result_shadow True 0 0 st2 = s \<and> prov_world st2 = prov_world st1)"

lemma alloc_one_byte:
  "alloc_shadow_stack_space 1 st = Inr (shadow_sp st - 1, st\<lparr> shadow_sp := shadow_sp st - 1 \<rparr>)"
  by (simp add: alloc_shadow_stack_space_def Let_def)

lemma return_shadowable_gives:
  assumes "ab (prov_world st) base = base"
  shows "returns_shadow v (shadow_from_word base) st (return_shadowable ab True v base st)"
proof -
  have "make_shadow ab base 0 (st\<lparr> shadow_sp := x \<rparr>) = Inr (shadow_from_word base)" for x
    by (rule make_shadow_of_base) (simp add: assms)
  then show ?thesis
    by (simp add: returns_shadow_def return_shadowable_def push_result_shadow_manifest_def alloc_one_byte
        peek_result_shadow_def store64_first_byte ucast_scast_byte)
qed

lemma return_null_gives: "returns_shadow 0 0 st (return_null ab True st)"
  by (simp add: returns_shadow_def return_null_def return_shadowable_def push_result_shadow_manifest_def
      make_shadow_def alloc_one_byte peek_result_shadow_def store64_first_byte ucast_scast_byte NULL_SHADOW_def)

text \<open>liballocs maps the base of an allocation to itself.\<close>

definition base_of_base :: "'w bases \<Rightarrow> 'w \<Rightarrow> addr \<Rightarrow> bool" where
  "base_of_base ab w a \<longleftrightarrow> ab w (ab w a) = ab w a"

definition fresh_shadow :: "'w bases \<Rightarrow> 'w \<Rightarrow> addr \<Rightarrow> shadow_byte" where
  "fresh_shadow ab w a = (if a = 0 then 0 else shadow_from_word (ab w a))"

lemma return_fresh_gives:
  assumes "ret \<noteq> 0 \<Longrightarrow> base_of_base ab (prov_world st) ret"
  shows "returns_shadow ret (fresh_shadow ab (prov_world st) ret) st (return_shadowable_fresh ab True ret st)"
proof (cases "ret = 0")
  case True
  then show ?thesis
    using return_null_gives[of st ab] by (simp add: return_shadowable_fresh_def fresh_shadow_def return_null_def)
next
  case False
  then show ?thesis
    using return_shadowable_gives[of ab st "ab (prov_world st) ret" ret] assms
    by (simp add: return_shadowable_fresh_def fresh_shadow_def base_of_base_def)
qed

lemma return_with_argshadow_gives:
  "aligned_sp st \<Longrightarrow> returns_shadow v (top_shadow 1 st) st (return_with_argshadow True v 0 s st)"
  by (simp add: returns_shadow_def return_with_argshadow_def push_local_result_shadow_def push_word_in_aligned
      peek_result_shadow_def push_word_def store64_first_byte ucast_scast_byte peek_argument_shadow_def
      top_shadow_def)

lemmas uninstrumented_returns = return_shadowable_def return_null_def return_shadowable_fresh_def
  return_with_argshadow_def push_result_shadow_manifest_def push_local_result_shadow_def

lemma return_explicit_gives: "returns_shadow v s st (return_shadowable_explicit True v s st)"
  by (simp add: returns_shadow_def return_shadowable_explicit_def push_result_shadow_explicit_def push_word_in_def
      alloc_one_byte peek_result_shadow_def store64_first_byte ucast_scast_byte)

lemma returns_shadow_same_world:
  "returns_shadow v s st1 r \<Longrightarrow> prov_world st1 = prov_world st2 \<Longrightarrow> returns_shadow v s st2 r"
  by (simp add: returns_shadow_def)

lemma remembered_shadow_gives:
  assumes "ab (prov_world st) base = base" "static_shadows st var \<in> {0, shadow_from_word base}"
  shows "returns_shadow v (shadow_from_word base) st
    (obind (remember_shadow ab var base st) (\<lambda>(s, st). return_shadowable_explicit True v s st))"
proof (cases "static_shadows st var = 0")
  case True
  let ?st = "st\<lparr> static_shadows := (static_shadows st)(var := shadow_from_word base) \<rparr>"
  have "returns_shadow v (shadow_from_word base) st (return_shadowable_explicit True v (shadow_from_word base) ?st)"
    by (rule returns_shadow_same_world[OF return_explicit_gives]) simp
  then show ?thesis
    using True make_shadow_of_base[of ab st base] assms(1) by (simp add: remember_shadow_def generate_from_base_def)
next
  case False
  then show ?thesis
    using assms(2) return_explicit_gives[of v "shadow_from_word base" st] by (simp add: remember_shadow_def)
qed

text \<open>
  The wrappers by what they give their result, all for a real function that, given its arguments,
  does what \<open>real\<close> says: the shadow of a new object; that of a new block from an allocator, which also
  notes its caller; a shadow that the wrapper remembers, made from the allocation of the result or
  from the result itself; the shadow of the first argument, or of nothing when the result is null;
  and the first argument itself with its shadow.
\<close>

definition fresh_wrappers :: "addr \<Rightarrow> 'w bases \<Rightarrow> (addr, 'w) called \<Rightarrow> (addr, 'w) wrapper list" where
  "fresh_wrappers self ab real =
     [wrap_tmpfile self ab real, wrap_fdopendir self ab (\<lambda>_. real) 0, wrap_fopen self ab (\<lambda>_ _. real) 0 0,
      wrap_strtok self ab (\<lambda>_ _. real) 0 0, wrap_strdup self ab (\<lambda>_. real) 0,
      wrap_getenv self ab (\<lambda>_. real) 0, wrap_dlsym self ab (\<lambda>_ _. real) 0 0,
      wrap_fdopen self ab (\<lambda>_ _. real) 0 0]"

definition block_wrappers ::
  "addr \<Rightarrow> addr \<Rightarrow> 'w bases \<Rightarrow> (addr, 'w) called \<Rightarrow> u64 \<Rightarrow> (addr, 'w) wrapper list" where
  "block_wrappers self ra ab real n =
     [wrap_malloc self ra ab (\<lambda>_. real) n, wrap_calloc self ra ab (\<lambda>_ _. real) 1 n]"

definition table_wrappers ::
  "addr \<Rightarrow> 'w bases \<Rightarrow> (addr, 'w) called \<Rightarrow> (static_shadow \<times> (addr, 'w) wrapper) list" where
  "table_wrappers self ab real =
     [(CtypeBShadow, wrap_ctype_b_loc self ab real), (CtypeToupperShadow, wrap_ctype_toupper_loc self ab real),
      (CtypeTolowerShadow, wrap_ctype_tolower_loc self ab real)]"

definition static_wrappers ::
  "addr \<Rightarrow> 'w bases \<Rightarrow> (addr, 'w) called \<Rightarrow> (static_shadow \<times> (addr, 'w) wrapper) list" where
  "static_wrappers self ab real =
     [(ErrnoShadow, wrap_errno_location self ab real), (LocaltimeShadow, wrap_localtime self ab (\<lambda>_. real) 0)]"

definition argument_wrappers :: "addr \<Rightarrow> 'w bases \<Rightarrow> (addr, 'w) called \<Rightarrow> addr \<Rightarrow> (addr, 'w) wrapper list" where
  "argument_wrappers self ab real s =
     [wrap_strchr self ab (\<lambda>_ _. real) s 0, wrap_rawmemchr self ab (\<lambda>_ _. real) s 0,
      wrap_fgets self ab (\<lambda>_ _ _. real) s 0 0, wrap_strrchr self ab (\<lambda>_ _. real) s 0]"

definition copying_wrappers :: "addr \<Rightarrow> 'w bases \<Rightarrow> (addr, 'w) called \<Rightarrow> addr \<Rightarrow> (addr, 'w) wrapper list" where
  "copying_wrappers self ab real s =
     [wrap_strcat self ab (\<lambda>_ _. real) s 0, wrap_memset self ab (\<lambda>_ _ _. real) s 0 0,
      wrap_strcpy self ab (\<lambda>_ _. real) s 0]"

lemmas fresh_wrapper_defs = wrap_tmpfile_def wrap_fdopendir_def wrap_fopen_def wrap_strtok_def
  wrap_strdup_def wrap_getenv_def wrap_dlsym_def wrap_fdopen_def
lemmas block_wrapper_defs = wrap_malloc_def wrap_calloc_def
lemmas static_wrapper_defs = wrap_ctype_b_loc_def wrap_ctype_toupper_loc_def wrap_ctype_tolower_loc_def
  wrap_errno_location_def wrap_localtime_def
lemmas argument_wrapper_defs = wrap_strchr_def wrap_rawmemchr_def wrap_fgets_def wrap_strrchr_def
lemmas copying_wrapper_defs = wrap_strcat_def wrap_memset_def wrap_strcpy_def

lemma fresh_wrappers_give:
  assumes "cookie_at_top self st" "real (consumed self st) = (ret, st1)"
    and "ret \<noteq> 0 \<longrightarrow> base_of_base ab (prov_world st1) ret" "w \<in> set (fresh_wrappers self ab real)"
  shows "returns_shadow ret (fresh_shadow ab (prov_world st1) ret) st1 (w st)"
  using return_fresh_gives[of ret ab st1] return_null_gives[of st1 ab] assms
  by (auto simp: fresh_wrappers_def fresh_wrapper_defs begin_call_instrumented fresh_shadow_def)

lemma cleared_then_fresh:
  assumes "base_of_base ab (prov_world st) ret" "ret \<noteq> 0"
  shows "returns_shadow ret (fresh_shadow ab (prov_world st) ret) st
    (obind (clear_bytes ret n st) (return_shadowable_fresh ab True ret))"
proof -
  let ?st = "st\<lparr> prov_memory := \<lambda>x. if x - ret < n then 0 else prov_memory st x \<rparr>"
  have "returns_shadow ret (fresh_shadow ab (prov_world st) ret) ?st (return_shadowable_fresh ab True ret ?st)"
    using return_fresh_gives[of ret ab ?st] assms(1) by simp
  then have "returns_shadow ret (fresh_shadow ab (prov_world st) ret) st (return_shadowable_fresh ab True ret ?st)"
    by (rule returns_shadow_same_world) simp
  then show ?thesis using assms(2) by (simp add: clear_bytes_def)
qed

lemma block_wrappers_give:
  assumes "cookie_at_top self st" "with_allocsite ra real (consumed self st) = (ret, st1)"
    and "ret \<noteq> 0 \<longrightarrow> base_of_base ab (prov_world st1) ret" "w \<in> set (block_wrappers self ra ab real n)"
  shows "returns_shadow ret (fresh_shadow ab (prov_world st1) ret) st1 (w st)"
  using return_fresh_gives[of ret ab st1] return_null_gives[of st1 ab] cleared_then_fresh[of ab st1 ret n] assms
  by (auto simp: block_wrappers_def block_wrapper_defs begin_call_instrumented fresh_shadow_def)

lemma table_wrappers_give:
  assumes "cookie_at_top self st" "real (consumed self st) = (ret, st1)" "ret \<noteq> 0"
    and "base_of_base ab (prov_world st1) ret" "(var, w) \<in> set (table_wrappers self ab real)"
    and "static_shadows st1 var \<in> {0, fresh_shadow ab (prov_world st1) ret}"
  shows "returns_shadow ret (fresh_shadow ab (prov_world st1) ret) st1 (w st)"
  using remembered_shadow_gives[of ab st1 "ab (prov_world st1) ret" var ret] assms
  by (auto simp: table_wrappers_def static_wrapper_defs begin_call_instrumented fresh_shadow_def base_of_base_def)

lemma static_wrappers_give:
  assumes "cookie_at_top self st" "real (consumed self st) = (ret, st1)" "ret \<noteq> 0"
    and "ab (prov_world st1) ret = ret" "(var, w) \<in> set (static_wrappers self ab real)"
    and "static_shadows st1 var \<in> {0, fresh_shadow ab (prov_world st1) ret}"
  shows "returns_shadow ret (fresh_shadow ab (prov_world st1) ret) st1 (w st)"
  using remembered_shadow_gives[of ab st1 ret var ret] assms
  by (auto simp: static_wrappers_def static_wrapper_defs begin_call_instrumented fresh_shadow_def)

lemma dlopen_gives:
  assumes "cookie_at_top self st" "real (consumed self st) = (ret, st1)" "ret \<noteq> 0 \<longrightarrow> ab (prov_world st1) ret = ret"
  shows "returns_shadow ret (fresh_shadow ab (prov_world st1) ret) st1 (wrap_dlopen self ab (\<lambda>_ _. real) 0 0 st)"
  using return_explicit_gives[of ret "shadow_from_word ret" st1] return_null_gives[of st1 ab]
    make_shadow_of_base[of ab st1 ret] assms
  by (auto simp: wrap_dlopen_def begin_call_instrumented fresh_shadow_def generate_from_base_def)

lemma argument_wrappers_give:
  assumes "cookie_at_top self st" "real (consumed self st) = (ret, st1)" "aligned_sp st1"
  shows "w \<in> set (argument_wrappers self ab real s) \<Longrightarrow>
      returns_shadow ret (if ret = 0 then 0 else top_shadow 1 st1) st1 (w st)"
    and "w \<in> set (copying_wrappers self ab real s) \<Longrightarrow> returns_shadow s (top_shadow 1 st1) st1 (w st)"
    and "returns_shadow ret (top_shadow 1 st1) st1 (wrap_strstr self ab (\<lambda>_ _. real) s 0 st)"
    and "returns_shadow (if ret = 0 then 0 else s) (if ret = 0 then 0 else top_shadow 1 st1) st1
      (wrap_getcwd self ab (\<lambda>_ _. real) s 0 st)"
  using return_with_argshadow_gives[OF assms(3), of ret s] return_with_argshadow_gives[OF assms(3), of s s]
    return_null_gives[of st1 ab] assms
  by (auto simp: argument_wrappers_def argument_wrapper_defs copying_wrappers_def copying_wrapper_defs
      wrap_strstr_def wrap_getcwd_def begin_call_instrumented)

lemma uninstrumented_wrappers:
  assumes "\<not> cookie_at_top self st" "real st = (ret, st1)"
  shows "w \<in> set (fresh_wrappers self ab real @ argument_wrappers self ab real s) \<Longrightarrow> w st = Inr (ret, st1)"
    and "w \<in> set (copying_wrappers self ab real s) \<Longrightarrow> w st = Inr (s, st1)"
  using assms
  by (auto simp: fresh_wrappers_def fresh_wrapper_defs argument_wrappers_def argument_wrapper_defs
      copying_wrappers_def copying_wrapper_defs begin_call_uninstrumented uninstrumented_returns)



lemma qsort_cb_push_word [simp]: "real_qsort_cb (push_word w st) = real_qsort_cb st"
  by (simp add: push_word_def)

text \<open>
  (C38) Sorting with an instrumented comparison function aborts.  On an aligned shadow stack, the callback that \<^verbatim>\<open>qsort\<close> is given
  calls the user's function with a matching cookie, but the shadows it pushes for the two elements
  are null, whatever allocations they lie in; so a dereference of either argument aborts.
\<close>

theorem qsort_callback_has_no_provenance:
  assumes "aligned_sp st"
  shows "\<exists>st1. launder_qsort_cb ab call arg1 arg2 st =
        obind (call (real_qsort_cb st) arg1 arg2 st1)
          (\<lambda>(ret, st'). return_integer ab False ret (st'\<lparr> shadow_sp := shadow_sp st \<rparr>))
    \<and> (\<exists>st2. tweak_argument_shadow_cookie (real_qsort_cb st) st1 = (True, st2)
        \<and> (\<forall>i < 2. \<forall>a. check_deref_prov ab a (peek_argument_shadow True (of_nat i) a st2) st2 = Inl Aborted))"
proof -
  let ?cb = "real_qsort_cb st"
  let ?st0 = "push_word 0 (push_word 0 st)"
  define st2 where "st2 = ?st0\<lparr> shadow_sp := shadow_sp ?st0 - 8, prov_memory := store64
    (store64 (prov_memory ?st0) (shadow_sp ?st0 - 8) ?cb) (shadow_sp ?st0 - 8) (?cb OR 0x800000000000) \<rparr>"
  have "launder_qsort_cb ab call arg1 arg2 st =
      obind (call ?cb arg1 arg2 (push_word ?cb ?st0))
        (\<lambda>(ret, st'). return_integer ab False ret (st'\<lparr> shadow_sp := shadow_sp st \<rparr>))"
    using assms
    by (simp add: launder_qsort_cb_def push_argument_shadow_manifest_def make_shadow_def NULL_SHADOW_def
        push_word_in_aligned push_argument_shadow_cookie_def Let_def)
  moreover have "tweak_argument_shadow_cookie ?cb (push_word ?cb ?st0) = (True, st2)"
    by (simp add: tweak_argument_shadow_cookie_def push_word_def[of ?cb] Let_def mem_simps st2_def)
  moreover have "\<forall>i < 2. \<forall>a. check_deref_prov ab a (peek_argument_shadow True (of_nat i) a st2) st2 = Inl Aborted"
  proof (intro allI impI)
    fix i a assume that: "i < (2 :: nat)"
    have "top_shadow i ?st0 = 0"
      using prov_stack.peek_pushed[of "[0, 0]" i st] that by (cases i) (auto simp: less_Suc_eq)
    then show "check_deref_prov ab a (peek_argument_shadow True (of_nat i) a st2) st2 = Inl Aborted"
      using peek_below_cookie[of i a ?st0 ?cb] that
      by (simp add: st2_def check_deref_prov_def)
  qed
  ultimately show ?thesis by blast
qed

theorem qsort_callback_has_no_provenance_witness:
  "\<exists>st1 st2. tweak_argument_shadow_cookie 0x401000 st1 = (True, st2)
     \<and> check_deref_prov ex_alloc_base 0x602000 (peek_argument_shadow True (of_nat 0) 0x602000 st2) st2 = Inl Aborted"
proof -
  have "aligned_sp (ex_prov\<lparr> real_qsort_cb := 0x401000 \<rparr>)" by (simp add: aligned_sp_def ex_prov_def)
  from qsort_callback_has_no_provenance[OF this, of ex_alloc_base] show ?thesis by fastforce
qed

text \<open>
  A \<^verbatim>\<open>realloc\<close> of a null pointer that fails is taken for one that left the block where it is, and
  clears memory from address zero on.
\<close>

theorem failed_realloc_writes_to_null:
  assumes "real 0 n = (\<lambda>st. (0, st))" "n \<noteq> 0"
  shows "wrap_realloc self ra ab usable real 0 n st = Inl NullDeref"
  using assms
  by (auto simp: wrap_realloc_def with_allocsite_def clear_bytes_def word_neq_0_conv Let_def
      split: prod.splits)

text \<open>\<^verbatim>\<open>getcwd\<close> with a null buffer allocates one; the wrapper returns the null buffer instead.\<close>

theorem getcwd_loses_allocated_buffer:
  assumes "real 0 n st = (ret, st1)" "ret \<noteq> 0" "\<not> cookie_at_top self st"
  shows "wrap_getcwd self ab real 0 n st = Inr (0, st1)"
  using assms by (simp add: wrap_getcwd_def begin_call_uninstrumented uninstrumented_returns)

text \<open>
  The shadow of \<^verbatim>\<open>errno\<close> is made from its own address: when that is not the base of an allocation and
  has another hash, dereferencing the location aborts.
\<close>

theorem errno_shadow_from_address:
  assumes "cookie_at_top self st" "real (consumed self st) = (ret, st1)" "ret \<noteq> 0"
    and "static_shadows st1 ErrnoShadow = 0" "prov_debug_level st1 \<le> 1"
    and "prov_hash (ab (prov_world st1) ret) \<noteq> prov_hash ret"
  shows "\<exists>st2. wrap_errno_location self ab real st = Inr (ret, st2)
    \<and> check_deref_prov ab ret (peek_result_shadow True 0 0 st2) st2 = Inl Aborted"
proof -
  have m: "make_shadow ab ret 0 st1 = Inr (shadow_from_word ret)"
    using assms(3,5) by (simp add: make_shadow_def Let_def)
  have "shadow_from_word (ab (prov_world st1) ret) \<noteq> shadow_from_word ret"
    using assms(3,6) shadow_from_word_eq_iff[of "ab (prov_world st1) ret" ret] shadow_from_word_proper[OF assms(3)]
    by (cases "ab (prov_world st1) ret = 0") auto
  then show ?thesis
    using assms m
    by (simp add: wrap_errno_location_def begin_call_instrumented remember_shadow_def generate_from_base_def
        return_shadowable_explicit_def push_result_shadow_explicit_def push_word_in_def alloc_one_byte
        peek_result_shadow_def store64_first_byte ucast_scast_byte check_deref_prov_def)
qed


text \<open>The loops over the argument and environment vectors end, and give every element the same shadow.\<close>

lemma store_vector_spec:
  assumes "ab (prov_world st) v = v" "8 * n < 2 ^ 64"
  shows "\<exists>st'. store_vector ab n p (p + 8 * of_nat n) v st = Inr st'
    \<and> shadow_sp st' = shadow_sp st \<and> prov_world st' = prov_world st
    \<and> (\<forall>q. get_shadow (prov_memory st') q =
          (if q \<in> vector_slots p n then shadow_from_word v else get_shadow (prov_memory st) q))"
  using assms
proof (induction n arbitrary: p st)
  case 0
  then show ?case by (subst store_vector.simps) (simp add: vector_slots_def)
next
  case (Suc n)
  let ?st = "store_shadow_nonlocal p v (shadow_from_word v) 0 st"
  have ne: "p \<noteq> p + 8 * of_nat (Suc n)"
  proof
    assume "p = p + 8 * of_nat (Suc n)"
    then have "of_nat (8 * Suc n) = (of_nat 0 :: u64)"
      by (simp add: algebra_simps)
    then show False using Suc.prems(2) of_nat_u64_eq_iff[of "8 * Suc n" 0] by (simp del: of_nat_0)
  qed
  obtain st' where st': "store_vector ab n (p + 8) (p + 8 + 8 * of_nat n) v ?st = Inr st'"
      "shadow_sp st' = shadow_sp st" "prov_world st' = prov_world st"
      "\<forall>q. get_shadow (prov_memory st') q =
         (if q \<in> vector_slots (p + 8) n then shadow_from_word v else get_shadow (prov_memory ?st) q)"
    using Suc.IH[of ?st "p + 8"] Suc.prems by auto
  moreover have "p + 8 + 8 * of_nat n = p + 8 * of_nat (Suc n)" by (simp add: algebra_simps)
  ultimately have run: "store_vector ab (Suc n) p (p + 8 * of_nat (Suc n)) v st = Inr st'"
    using ne make_shadow_of_base[of ab st v] Suc.prems(1)
    by (subst store_vector.simps) (simp add: store_it_at_def)
  then show ?case
    using st' by (auto simp: vector_slots_Suc get_shadow_def put_shadow_def)
qed

end
