(* ===== verification/Softbound_Wrappers.thy ===== *)
theory Softbound_Wrappers
  imports Shadow_Init
begin

text \<open>
  The libc wrappers for the SoftBound emulation (\<^verbatim>\<open>src/softbound-libc-wrappers.c\<close>; most of that file is
  commented out) and the macros that generated allocator wrappers are made of
  (\<^verbatim>\<open>include/stubgen_softbound.h\<close>).  A wrapper consumes the cookie, calls the real function and pushes
  bounds for its result.  \<open>self\<close> is the wrapper's address, \<open>real\<close> the C library's function and \<open>lim\<close> the
  fuel of \<^verbatim>\<open>strlen\<close>.
\<close>

type_synonym ('a, 'w) lib_called = "'w crunch \<Rightarrow> 'a \<times> 'w crunch"
type_synonym ('a, 'w) lib_wrapper = "'w crunch \<Rightarrow> ('a \<times> 'w crunch) outcome"

subsection \<open>The macros\<close>

text \<open>\<^verbatim>\<open>BEGIN\<close>, followed by the call of the real function.\<close>

definition sb_begin_call :: "config \<Rightarrow> addr \<Rightarrow> ('a, 'w) lib_called \<Rightarrow> 'w crunch \<Rightarrow> bool \<times> 'a \<times> 'w crunch" where
  "sb_begin_call c self real st =
     (case tweak_argument_bounds_cookie c self st of (inst, st) \<Rightarrow> (inst, real st))"

definition return_ptr :: "config \<Rightarrow> bool \<Rightarrow> addr \<Rightarrow> u64 \<Rightarrow> u64 \<Rightarrow> 'w crunch \<Rightarrow> addr \<times> 'w crunch" where
  "return_ptr c inst p base limit st = (p, push_result_bounds_base_limit c inst p base limit st)"

definition return_ptr_argbounds :: "config \<Rightarrow> bool \<Rightarrow> addr \<Rightarrow> u64 \<Rightarrow> addr \<Rightarrow> 'w crunch \<Rightarrow> addr \<times> 'w crunch" where
  "return_ptr_argbounds c inst p off argval st =
     (p, push_local_result_bounds c inst (peek_argument_bounds c inst off argval st) st)"

definition sb_return_null :: "config \<Rightarrow> bool \<Rightarrow> 'w crunch \<Rightarrow> addr \<times> 'w crunch" where
  "sb_return_null c inst st = return_ptr c inst 0 0 1 st"

definition strlen_of :: "nat \<Rightarrow> addr \<Rightarrow> 'w crunch \<Rightarrow> u64 outcome" where
  "strlen_of lim p st = (if p = 0 then Inl NullDeref else omap of_nat (strlen lim (memory st) p))"


subsection \<open>The wrappers\<close>

definition sb_tmpfile :: "config \<Rightarrow> addr \<Rightarrow> u64 \<Rightarrow> (addr, 'w) lib_called \<Rightarrow> (addr, 'w) lib_wrapper" where
  "sb_tmpfile c self sz_FILE real st =
     (case sb_begin_call c self real st of (inst, ret, st) \<Rightarrow>
        Inr (return_ptr c inst ret ret (ret + sz_FILE) st))"

definition sb_fdopendir :: "config \<Rightarrow> addr \<Rightarrow> (int \<Rightarrow> (addr, 'w) lib_called) \<Rightarrow> int \<Rightarrow> (addr, 'w) lib_wrapper" where
  "sb_fdopendir c self real fd st =
     (case sb_begin_call c self (real fd) st of (inst, ret, st) \<Rightarrow>
        Inr (return_ptr c inst ret ret (ret + 1024 * 1024) st))"

definition sb_strchr ::
  "config \<Rightarrow> addr \<Rightarrow> (addr \<Rightarrow> int \<Rightarrow> (addr, 'w) lib_called) \<Rightarrow> addr \<Rightarrow> int \<Rightarrow> (addr, 'w) lib_wrapper" where
  "sb_strchr c self real s ch st =
     (case sb_begin_call c self (real s ch) st of (inst, ret, st) \<Rightarrow>
        Inr (if ret \<noteq> 0 then return_ptr_argbounds c inst ret 0 s st else sb_return_null c inst st))"

definition sb_errno_location :: "config \<Rightarrow> addr \<Rightarrow> (addr, 'w) lib_called \<Rightarrow> (addr, 'w) lib_wrapper" where
  "sb_errno_location c self real st =
     (case sb_begin_call c self real st of (inst, ret, st) \<Rightarrow> Inr (return_ptr c inst ret ret (ret + 4) st))"

definition sb_ctype_b_loc :: "config \<Rightarrow> addr \<Rightarrow> (addr, 'w) lib_called \<Rightarrow> (addr, 'w) lib_wrapper" where
  "sb_ctype_b_loc c self real st =
     (case sb_begin_call c self real st of (inst, ret, st) \<Rightarrow>
        Inr (return_ptr c inst ret ret (ret + 1024 * 1024) st))"

definition sb_ctype_toupper_loc :: "config \<Rightarrow> addr \<Rightarrow> (addr, 'w) lib_called \<Rightarrow> (addr, 'w) lib_wrapper" where
  "sb_ctype_toupper_loc c self real st =
     (case sb_begin_call c self real st of (inst, ret, st) \<Rightarrow> Inr (return_ptr c inst ret ret (ret + 8) st))"

definition sb_ctype_tolower_loc :: "config \<Rightarrow> addr \<Rightarrow> (addr, 'w) lib_called \<Rightarrow> (addr, 'w) lib_wrapper" where
  "sb_ctype_tolower_loc c self real st =
     (case sb_begin_call c self real st of (inst, ret, st) \<Rightarrow> Inr (return_ptr c inst ret ret (ret + 8) st))"

definition sb_fopen ::
  "config \<Rightarrow> addr \<Rightarrow> (addr \<Rightarrow> addr \<Rightarrow> (addr, 'w) lib_called) \<Rightarrow> addr \<Rightarrow> addr \<Rightarrow> (addr, 'w) lib_wrapper" where
  "sb_fopen c self real fname mode st =
     (case sb_begin_call c self (real fname mode) st of (inst, ret, st) \<Rightarrow>
        Inr (return_ptr c inst ret ret (ret + 1024 * 1024) st))"

text \<open>The limit of a string result is computed whether or not the caller is instrumented.\<close>

definition return_string :: "config \<Rightarrow> nat \<Rightarrow> bool \<Rightarrow> addr \<Rightarrow> (addr, 'w) lib_wrapper" where
  "return_string c lim inst p st =
     omap (\<lambda>len. return_ptr c inst p p (p + len + 1) st) (strlen_of lim p st)"

definition sb_strtok ::
  "config \<Rightarrow> nat \<Rightarrow> addr \<Rightarrow> (addr \<Rightarrow> addr \<Rightarrow> (addr, 'w) lib_called) \<Rightarrow> addr \<Rightarrow> addr \<Rightarrow> (addr, 'w) lib_wrapper" where
  "sb_strtok c lim self real str delim st =
     (case sb_begin_call c self (real str delim) st of (inst, ret, st) \<Rightarrow>
        if ret \<noteq> 0 then return_string c lim inst ret st
        else Inr (return_ptr c inst ret ret (ret + 1) st))"

definition sb_fgets ::
  "config \<Rightarrow> addr \<Rightarrow> (addr \<Rightarrow> int \<Rightarrow> addr \<Rightarrow> (addr, 'w) lib_called) \<Rightarrow> addr \<Rightarrow> int \<Rightarrow> addr \<Rightarrow> (addr, 'w) lib_wrapper" where
  "sb_fgets c self real s n stream st =
     (case sb_begin_call c self (real s n stream) st of (inst, ret, st) \<Rightarrow>
        Inr (if ret \<noteq> 0 then return_ptr_argbounds c inst ret 0 s st else sb_return_null c inst st))"

definition sb_strstr ::
  "config \<Rightarrow> nat \<Rightarrow> addr \<Rightarrow> (addr \<Rightarrow> addr \<Rightarrow> (addr, 'w) lib_called) \<Rightarrow> addr \<Rightarrow> addr \<Rightarrow> (addr, 'w) lib_wrapper" where
  "sb_strstr c lim self real haystack needle st =
     (case sb_begin_call c self (real haystack needle) st of (inst, ret, st) \<Rightarrow>
        if ret \<noteq> 0 then return_string c lim inst ret st
        else Inr (return_ptr c inst ret ret (ret + 1) st))"

definition sb_strdup ::
  "config \<Rightarrow> nat \<Rightarrow> addr \<Rightarrow> (addr \<Rightarrow> (addr, 'w) lib_called) \<Rightarrow> addr \<Rightarrow> (addr, 'w) lib_wrapper" where
  "sb_strdup c lim self real s st =
     (case sb_begin_call c self (real s) st of (inst, ret, st) \<Rightarrow> return_string c lim inst ret st)"

definition sb_getenv ::
  "config \<Rightarrow> nat \<Rightarrow> addr \<Rightarrow> (addr \<Rightarrow> (addr, 'w) lib_called) \<Rightarrow> addr \<Rightarrow> (addr, 'w) lib_wrapper" where
  "sb_getenv c lim self real s st =
     (case sb_begin_call c self (real s) st of (inst, ret, st) \<Rightarrow>
        if ret \<noteq> 0 then return_string c lim inst ret st else Inr (sb_return_null c inst st))"


subsection \<open>Generated allocator wrappers\<close>

definition round_down_size :: "u64 \<Rightarrow> u64 \<Rightarrow> u64 outcome" where
  "round_down_size sz round_to = (if round_to = 0 then Inl DivByZero else Inr (round_to * (sz div round_to)))"

definition do_caller_wrapper_init :: "config \<Rightarrow> addr \<Rightarrow> 'w crunch \<Rightarrow> bool \<times> addr \<times> 'w crunch" where
  "do_caller_wrapper_init c self st =
     (case tweak_argument_bounds_cookie c self st of (inst, st) \<Rightarrow> (inst, bounds_sp st, st))"

text \<open>\<open>alloc_size\<close> is \<^verbatim>\<open>__liballocs_get_alloc_size\<close>.\<close>

definition do_ret_p ::
  "config \<Rightarrow> ('w \<Rightarrow> addr \<Rightarrow> u64) \<Rightarrow> bool \<Rightarrow> addr \<Rightarrow> addr \<Rightarrow> u64 \<Rightarrow> 'w crunch \<Rightarrow> 'w crunch outcome" where
  "do_ret_p c alloc_size inst saved_bsp real_retval size_arg st =
     (let st = st\<lparr> bounds_sp := saved_bsp \<rparr> in
      obind (round_down_size (alloc_size (world st) real_retval) size_arg) (\<lambda>rounded.
        Inr (push_local_result_bounds c inst (make_bounds c real_retval (real_retval + rounded)) st)))"

definition do_ret_other :: "addr \<Rightarrow> 'w crunch \<Rightarrow> 'w crunch" where
  "do_ret_other saved_bsp st = st\<lparr> bounds_sp := saved_bsp \<rparr>"

definition do_arginit_p :: "config \<Rightarrow> bool \<Rightarrow> u64 \<Rightarrow> addr \<Rightarrow> 'w crunch \<Rightarrow> bounds \<times> u64" where
  "do_arginit_p c inst argpeek_off arg st = (peek_argument_bounds c inst argpeek_off arg st, argpeek_off + 1)"

definition pre_realarg_p :: "config \<Rightarrow> bounds \<Rightarrow> 'w crunch \<Rightarrow> 'w crunch" where
  "pre_realarg_p c argbound st = push_local_argument_bounds c argbound st"

definition pre_realcall :: "config \<Rightarrow> addr \<Rightarrow> 'w crunch \<Rightarrow> 'w crunch" where
  "pre_realcall c callee st = push_argument_bounds_cookie c callee st"


subsection \<open>Results\<close>

definition sb_cookie_at_top :: "addr \<Rightarrow> 'w crunch \<Rightarrow> bool" where
  "sb_cookie_at_top self st \<longleftrightarrow> load64 (memory st) (bounds_sp st) = self"

definition sb_consumed :: "addr \<Rightarrow> 'w crunch \<Rightarrow> 'w crunch" where
  "sb_consumed self st = st\<lparr> memory := store64 (memory st) (bounds_sp st) (self OR 0x800000000000) \<rparr>"

lemma sb_begin_call_instrumented:
  "stack_config c \<Longrightarrow> sb_cookie_at_top self st \<Longrightarrow> sb_begin_call c self real st = (True, real (sb_consumed self st))"
  by (simp add: sb_begin_call_def tweak_argument_bounds_cookie_def sb_cookie_at_top_def sb_consumed_def stack_config_def)

lemma peek_returned:
  "stack_config c \<Longrightarrow> peek_result_bounds c True 0 p (snd (return_ptr c True q b l st)) = make_bounds c b l"
  "stack_config c \<Longrightarrow> peek_result_bounds c True 0 p (snd (return_ptr_argbounds c True q off s st)) =
     peek_argument_bounds c True off s st"
  using stack_configD[of c]
  by (simp_all add: return_ptr_def return_ptr_argbounds_def push_result_bounds_base_limit_def
      push_local_result_bounds_def peek_result_bounds_def push_bounds_unfold memcpy_roundtrip)

text \<open>The bounds an instrumented caller peeks after a wrapper has returned a value.\<close>

definition returns_bounds :: "config \<Rightarrow> addr \<Rightarrow> bounds \<Rightarrow> (addr \<times> 'w crunch) outcome \<Rightarrow> bool" where
  "returns_bounds c v b r \<longleftrightarrow> (\<exists>st2. r = Inr (v, st2) \<and> peek_result_bounds c True 0 v st2 = b)"

lemma return_ptr_bounds:
  "stack_config c \<Longrightarrow> returns_bounds c p (make_bounds c b l) (Inr (return_ptr c True p b l st))"
  using peek_returned(1)[of c p p b l st] by (simp add: returns_bounds_def return_ptr_def)

lemma return_argbounds_bounds:
  "stack_config c \<Longrightarrow>
     returns_bounds c p (peek_argument_bounds c True off s st) (Inr (return_ptr_argbounds c True p off s st))"
  using peek_returned(2)[of c p p off s st] by (simp add: returns_bounds_def return_ptr_argbounds_def)

lemma return_string_bounds:
  assumes "stack_config c" "p \<noteq> 0" "\<forall>j < n. memory st (p + of_nat j) \<noteq> 0" "memory st (p + of_nat n) = 0" "n \<le> lim"
  shows "returns_bounds c p (make_bounds c p (p + of_nat n + 1)) (return_string c lim True p st)"
  using return_ptr_bounds[OF assms(1), of p p "p + of_nat n + 1" st] strlen_cstring[OF assms(3-5)] assms(2)
  by (simp add: return_string_def strlen_of_def)


definition string_wrappers :: "config \<Rightarrow> nat \<Rightarrow> addr \<Rightarrow> (addr, 'w) lib_called \<Rightarrow> (addr, 'w) lib_wrapper list" where
  "string_wrappers c lim self real =
     [sb_strtok c lim self (\<lambda>_ _. real) 0 0, sb_strstr c lim self (\<lambda>_ _. real) 0 0,
      sb_strdup c lim self (\<lambda>_. real) 0, sb_getenv c lim self (\<lambda>_. real) 0]"

definition into_argument_wrappers :: "config \<Rightarrow> addr \<Rightarrow> (addr, 'w) lib_called \<Rightarrow> addr \<Rightarrow> (addr, 'w) lib_wrapper list" where
  "into_argument_wrappers c self real s =
     [sb_strchr c self (\<lambda>_ _. real) s 0, sb_fgets c self (\<lambda>_ _ _. real) s 0 0]"

lemmas string_wrapper_defs = sb_strtok_def sb_strstr_def sb_strdup_def sb_getenv_def



text \<open>\<^verbatim>\<open>strdup\<close> returns null when memory is short; the wrapper passes that to \<^verbatim>\<open>strlen\<close>.\<close>

theorem failed_strdup_crashes:
  assumes "\<And>st. fst (real s st) = 0"
  shows "sb_strdup c lim self real s st = Inl NullDeref"
proof -
  obtain inst st1 where t: "tweak_argument_bounds_cookie c self st = (inst, st1)" by force
  obtain st2 where "real s st1 = (0, st2)" using assms[of st1] by (cases "real s st1") auto
  with t show ?thesis by (simp add: sb_strdup_def sb_begin_call_def return_string_def strlen_of_def)
qed

text \<open>
  (C27) Bounds of allocated blocks.  In a configuration with bounds of two 64-bit words and a bounds stack, and called by instrumented code, a generated allocator wrapper returns bounds that start at
  the block and whose length is, as a natural number, the largest multiple of the requested size that
  is at most the size of the allocation: a multiple of it, not above the allocation, and less than
  one request short of it.  A request for zero bytes divides by zero, whoever calls.
\<close>

theorem allocated_bounds_within_block:
  assumes "stack_config c" "sz = alloc_size (world st) p"
  shows "(size_arg \<noteq> 0 \<longrightarrow> (\<exists>st2 n. do_ret_p c alloc_size True saved p size_arg st = Inr st2
        \<and> peek_result_bounds c True 0 p st2 = make_bounds c p (p + n)
        \<and> n \<le> sz \<and> unat size_arg dvd unat n \<and> unat sz - unat n < unat size_arg))
    \<and> do_ret_p c alloc_size inst saved p 0 st = Inl DivByZero"
proof (intro conjI impI)
  assume nz: "size_arg \<noteq> 0"
  define n where "n = size_arg * (sz div size_arg)"
  have le: "unat size_arg * unat (sz div size_arg) \<le> unat sz" by (simp add: unat_div)
  then have un: "unat n = unat size_arg * (unat sz div unat size_arg)"
    unfolding n_def using unat_u64_bound[of sz] by (simp add: unat_word_ariths(2) flip: unat_div)
  have "unat sz - unat n = unat sz mod unat size_arg" by (simp add: un minus_mult_div_eq_mod)
  moreover have "unat sz mod unat size_arg < unat size_arg" using nz by (simp add: unat_gt_0)
  moreover have "n \<le> sz" using le un by (simp add: word_le_nat_alt unat_div)
  moreover have "unat size_arg dvd unat n" by (simp add: un)
  moreover have "\<exists>st2. do_ret_p c alloc_size True saved p size_arg st = Inr st2
      \<and> peek_result_bounds c True 0 p st2 = make_bounds c p (p + n)"
    using nz assms stack_configD[OF assms(1)]
    by (simp add: do_ret_p_def round_down_size_def n_def push_local_result_bounds_def peek_result_bounds_def
        push_bounds_unfold memcpy_roundtrip Let_def)
  ultimately show "\<exists>st2 n. do_ret_p c alloc_size True saved p size_arg st = Inr st2
      \<and> peek_result_bounds c True 0 p st2 = make_bounds c p (p + n)
      \<and> n \<le> sz \<and> unat size_arg dvd unat n \<and> unat sz - unat n < unat size_arg" by metis
qed (simp add: do_ret_p_def round_down_size_def Let_def)

theorem allocated_bounds_within_block_witness:
  "\<exists>st2 n. do_ret_p config_m (\<lambda>w a. 44) True 0x7000fff8 0x602000 12 ex_st = Inr st2
     \<and> peek_result_bounds config_m True 0 0x602000 st2 = make_bounds config_m 0x602000 (0x602000 + n)
     \<and> n \<le> 44 \<and> 12 dvd unat n"
  using allocated_bounds_within_block[of config_m 44 "\<lambda>w a. 44" ex_st "0x602000" 12 "0x7000fff8"]
  by (fastforce simp: stack_config_def long_config_def bounds_stack_off_def config_defs)

end
