(* ===== verification/Dev_Ones.thy ===== *)
theory Dev_Ones
  imports Crunch_Prelude
begin

text \<open>
  The kernel module behind \<^verbatim>\<open>/dev/ones\<close> (\<^verbatim>\<open>kernel/dev-ones/linux/dev_ones.c\<close>), with which the size
  regions of the shadow space are filled: a page of ones that every fault maps, and a \<^verbatim>\<open>read\<close> that
  fills a buffer with ones.  \<open>writable\<close> says which user addresses can be written without a fault.
\<close>

definition PAGE_SIZE :: nat where "PAGE_SIZE = 4096"

definition EFAULT :: int where "EFAULT = 14"

definition ENOSYS :: int where "ENOSYS = 38"

definition ERESTARTSYS :: int where "ERESTARTSYS = 512"

text \<open>
  The module and what it changes of the kernel: whether its device is registered, the memory, and the
  kernel's count of the references to each page.  A page is given by its address; the static
  \<^verbatim>\<open>ones_page\<close> is the page of \<^verbatim>\<open>ones_data\<close>.  \<open>get_page\<close> and \<open>put_page\<close> are the kernel's functions, which take a
  reference and give one back.
\<close>

record ones_module =
  ones_data :: addr
  dev_registered :: bool
  page_count :: "addr \<Rightarrow> nat"
  kernel_memory :: mem

definition get_page :: "addr \<Rightarrow> ones_module \<Rightarrow> ones_module" where
  "get_page pg md = md\<lparr> page_count := (page_count md)(pg := page_count md pg + 1) \<rparr>"

definition put_page :: "addr \<Rightarrow> ones_module \<Rightarrow> ones_module" where
  "put_page pg md = md\<lparr> page_count := (page_count md)(pg := page_count md pg - 1) \<rparr>"

record vm_area =
  vm_shared :: bool
  vm_has_ones_ops :: bool

text \<open>
  A page fault in a mapping of the device takes a reference to the page for the mapping; the second
  component is the page that is given to it.
\<close>

definition ones_vma_fault :: "ones_module \<Rightarrow> int \<times> addr \<times> ones_module" where
  "ones_vma_fault md = (let md = get_page (ones_data md) md in (0, ones_data md, md))"

definition ones_mmap :: "vm_area \<Rightarrow> int \<times> vm_area" where
  "ones_mmap vma = (if vm_shared vma then (- ENOSYS, vma) else (0, vma\<lparr> vm_has_ones_ops := True \<rparr>))"

text \<open>
  The two loops of \<^verbatim>\<open>__setall_user\<close>, in assembly: words, then single bytes.  A faulting store ends the
  loop; the number is how many stores are left.  (The counters are 32 bits wide; the caller never
  passes more than a page.)
\<close>

definition writable_range :: "(addr \<Rightarrow> bool) \<Rightarrow> addr \<Rightarrow> nat \<Rightarrow> bool" where
  "writable_range writable a n \<longleftrightarrow> list_all (\<lambda>i. writable (a + of_nat i)) [0..<n]"

fun set_words :: "(addr \<Rightarrow> bool) \<Rightarrow> nat \<Rightarrow> addr \<Rightarrow> mem \<Rightarrow> nat \<times> addr \<times> mem" where
  "set_words writable 0 dst m = (0, dst, m)"
| "set_words writable (Suc n) dst m =
     (if writable_range writable dst 8
      then set_words writable n (dst + 8) (store64 m dst (-1))
      else (Suc n, dst, m))"

fun set_bytes :: "(addr \<Rightarrow> bool) \<Rightarrow> nat \<Rightarrow> addr \<Rightarrow> mem \<Rightarrow> nat \<times> mem" where
  "set_bytes writable 0 dst m = (0, m)"
| "set_bytes writable (Suc n) dst m =
     (if writable dst then set_bytes writable n (dst + 1) (m(dst := -1)) else (Suc n, m))"

text \<open>The number of bytes that could not be written.\<close>

definition setall_user :: "(addr \<Rightarrow> bool) \<Rightarrow> addr \<Rightarrow> nat \<Rightarrow> mem \<Rightarrow> nat \<times> mem" where
  "setall_user writable a n m =
     (case set_words writable (n div 8) a m of (left8, dst, m) \<Rightarrow>
        if left8 \<noteq> 0 then (n mod 8 + 8 * left8, m)
        else set_bytes writable (n mod 8) dst m)"

definition ones_lseek :: "int \<Rightarrow> int \<Rightarrow> int" where
  "ones_lseek offset orig = 0"

text \<open>The results are of type \<^verbatim>\<open>ssize_t\<close>, 64 bits and signed, while the counts are unsigned.\<close>

definition ssize :: "nat \<Rightarrow> int" where
  "ssize n = signed_take_bit 63 (int n)"

definition ones_write :: "nat \<Rightarrow> int" where
  "ones_write count = ssize count"

text \<open>
  The loop of \<^verbatim>\<open>ones_read\<close>.  \<open>signals\<close> tells for each round whether a signal is pending after it; the
  result is the number of bytes written so far, and whether a signal ended the loop.
\<close>

function ones_read_loop ::
  "(addr \<Rightarrow> bool) \<Rightarrow> (nat \<Rightarrow> bool) \<Rightarrow> nat \<Rightarrow> addr \<Rightarrow> nat \<Rightarrow> nat \<Rightarrow> mem \<Rightarrow> nat \<times> bool \<times> mem" where
  "ones_read_loop writable signals round buf count written m =
     (if count = 0 then (written, False, m)
      else let chunk = min count PAGE_SIZE in
           case setall_user writable buf chunk m of (unwritten, m) \<Rightarrow>
             let written = written + (chunk - unwritten) in
             if unwritten \<noteq> 0 then (written, False, m)
             else if signals round then (written, True, m)
             else ones_read_loop writable signals (round + 1) (buf + of_nat chunk) (count - chunk) written m)"
  by pat_completeness auto

termination
  by (relation "measure (\<lambda>(wr, sg, r, buf, count, wn, m). count)") (auto simp: PAGE_SIZE_def)

declare ones_read_loop.simps [simp del]

definition ones_read ::
  "(addr \<Rightarrow> nat \<Rightarrow> bool) \<Rightarrow> (addr \<Rightarrow> bool) \<Rightarrow> (nat \<Rightarrow> bool) \<Rightarrow> addr \<Rightarrow> nat \<Rightarrow> mem \<Rightarrow> int \<times> mem" where
  "ones_read access_ok writable signals buf count m =
     (if count = 0 then (0, m)
      else if \<not> access_ok buf count then (- EFAULT, m)
      else case ones_read_loop writable signals 0 buf count 0 m of (written, interrupted, m) \<Rightarrow>
        (if written \<noteq> 0 then ssize written else if interrupted then - ERESTARTSYS else - EFAULT, m))"

text \<open>The loop of \<^verbatim>\<open>ones_init\<close> over the words of the page; the fuel is the number of words.\<close>

fun fill_page :: "nat \<Rightarrow> addr \<Rightarrow> addr \<Rightarrow> mem \<Rightarrow> mem outcome" where
  "fill_page n l limit m =
     (if l = limit then Inr m
      else if n = 0 then Inl NonTermination
      else if l = 0 then Inl NullDeref
      else fill_page (n - 1) (l + 8) limit (store64 m l (-1)))"

declare fill_page.simps [simp del]

text \<open>
  \<open>page\<close> is what \<^verbatim>\<open>__get_free_page\<close> returned, a page with one reference, the module's own, or 0 if there
  is no memory, which is not tested; \<open>registered\<close> is the result of \<^verbatim>\<open>misc_register\<close>.
\<close>

definition ones_init :: "addr \<Rightarrow> int \<Rightarrow> ones_module \<Rightarrow> (int \<times> ones_module) outcome" where
  "ones_init page registered md =
     omap (\<lambda>m. (registered, md\<lparr> ones_data := page, dev_registered := (registered = 0),
                               page_count := (page_count md)(page := 1), kernel_memory := m \<rparr>))
       (fill_page (PAGE_SIZE div 8) page (page + of_nat PAGE_SIZE) (kernel_memory md))"

text \<open>\<^verbatim>\<open>free_page\<close> drops the module's reference.\<close>

definition ones_exit :: "ones_module \<Rightarrow> ones_module" where
  "ones_exit md = put_page (ones_data md) (md\<lparr> dev_registered := False \<rparr>)"


subsection \<open>Filling with ones\<close>

text \<open>\<open>ones_to m m' a n\<close>: \<open>m'\<close> is \<open>m\<close> with the \<open>n\<close> bytes from \<open>a\<close> on set to ones.\<close>

definition ones_to :: "mem \<Rightarrow> addr \<Rightarrow> nat \<Rightarrow> mem" where
  "ones_to m a n = (\<lambda>x. if unat (x - a) < n then -1 else m x)"

lemma ones_to_0 [simp]: "ones_to m a 0 = m"
  by (simp add: ones_to_def)

lemma offset_split:
  fixes x a :: addr
  assumes "i + k \<le> 2 ^ 64" "0 < k"
  shows "unat (x - a) < i + k \<longleftrightarrow> unat (x - a) < i \<or> unat (x - (a + of_nat i)) < k"
proof -
  have e: "x - (a + of_nat i) = (x - a) - of_nat i" by (rule diff_diff_eq[symmetric])
  have u: "unat (of_nat i :: u64) = i" using assms by (simp add: unat_of_nat_u64)
  have "unat (x - (a + of_nat i)) =
      (if i \<le> unat (x - a) then unat (x - a) - i else unat (x - a) + 2 ^ 64 - i)"
    unfolding e using unat_sub_if'[of "x - a" "of_nat i"] u by (simp only: len_num1 u) simp
  then show ?thesis using assms by (cases "i \<le> unat (x - a)") auto
qed

lemma ones_to_append:
  assumes "i + k \<le> 2 ^ 64"
  shows "ones_to (ones_to m a i) (a + of_nat i) k = ones_to m a (i + k)"
proof (cases "k = 0")
  case False
  then show ?thesis
    using offset_split[OF assms] unfolding ones_to_def by (intro ext) auto
qed simp

lemma store64_ones: "store64 m a (-1) = ones_to m a 8"
proof
  fix x
  have "bytes_of 8 (-1 :: u64) ! i = -1" if "i < 8" for i
    using that by (intro bit_word_eqI) (auto simp: bytes_of_def bit_simps)
  then show "store64 m a (-1) x = ones_to m a 8 x"
    by (simp add: store64_def store_bytes_def ones_to_def)
qed

lemma store_byte_ones: "m(a := -1) = ones_to m a 1"
  by (auto simp: ones_to_def fun_eq_iff unat_eq_0)


lemma writable_range_split:
  "writable_range w a (i + k) \<longleftrightarrow> writable_range w a i \<and> writable_range w (a + of_nat i) k"
proof -
  have "(\<forall>j < i + k. w (a + of_nat j)) \<longleftrightarrow> (\<forall>j < i. w (a + of_nat j)) \<and> (\<forall>j < k. w (a + of_nat i + of_nat j))"
    by (metis (no_types, lifting) add.assoc add_less_cancel_left le_add_diff_inverse2 le_add_diff_inverse
        linorder_not_less of_nat_add trans_less_add1)
  then show ?thesis by (simp add: writable_range_def list_all_iff Ball_def)
qed

lemma set_words_spec:
  assumes "set_words w n a m = (left, a', m')" "8 * n \<le> 2 ^ 64"
  shows "left \<le> n \<and> a' = a + of_nat (8 * (n - left)) \<and> m' = ones_to m a (8 * (n - left))
    \<and> (writable_range w a (8 * n) \<longrightarrow> left = 0)"
  using assms
proof (induction n arbitrary: a m)
  case (Suc n)
  show ?case
  proof (cases "writable_range w a 8")
    case True
    then have run: "set_words w n (a + 8) (store64 m a (-1)) = (left, a', m')" using Suc.prems(1) by simp
    note ih = Suc.IH[OF run] Suc.prems(2)
    have d: "8 * (Suc n - left) = 8 + 8 * (n - left)" if "left \<le> n" using that by simp
    have "ones_to (ones_to m a 8) (a + 8) (8 * (n - left)) = ones_to m a (8 + 8 * (n - left))"
      using ones_to_append[of 8 "8 * (n - left)" m a] ih(2) by simp
    moreover have "writable_range w a (8 * Suc n) = writable_range w (a + 8) (8 * n)"
      using True writable_range_split[of w a 8 "8 * n"] by simp
    ultimately show ?thesis
      using ih d by (auto simp: store64_ones algebra_simps)
  next
    case False
    moreover have "\<not> writable_range w a (8 * Suc n)"
      using False writable_range_split[of w a 8 "8 * n"] by simp
    ultimately show ?thesis using Suc.prems(1) by auto
  qed
qed simp

lemma set_bytes_spec:
  assumes "set_bytes w n a m = (left, m')" "n \<le> 2 ^ 64"
  shows "left \<le> n \<and> m' = ones_to m a (n - left) \<and> (writable_range w a n \<longrightarrow> left = 0)"
  using assms
proof (induction n arbitrary: a m)
  case (Suc n)
  have wr: "writable_range w a (Suc n) = (w a \<and> writable_range w (a + 1) n)"
    using writable_range_split[of w a 1 n] by (simp add: writable_range_def)
  show ?case
  proof (cases "w a")
    case True
    then have run: "set_bytes w n (a + 1) (m(a := -1)) = (left, m')" using Suc.prems(1) by simp
    note ih = Suc.IH[OF run] Suc.prems(2)
    have "ones_to (ones_to m a 1) (a + 1) (n - left) = ones_to m a (1 + (n - left))"
      using ones_to_append[of 1 "n - left" m a] ih(2) by simp
    then show ?thesis
      using ih True wr by (auto simp: store_byte_ones Suc_diff_le)
  next
    case False
    then show ?thesis using Suc.prems(1) wr by auto
  qed
qed simp

lemma setall_user_spec:
  assumes "setall_user w a n m = (u, m')" "n \<le> 2 ^ 64"
  shows "u \<le> n \<and> m' = ones_to m a (n - u) \<and> (writable_range w a n \<longrightarrow> u = 0)"
proof -
  obtain left dst m1 where s1: "set_words w (n div 8) a m = (left, dst, m1)" by (metis prod_cases3)
  have n: "8 * (n div 8) + n mod 8 = n" by simp
  have "8 * (n div 8) \<le> 2 ^ 64" using assms(2) by linarith
  note spec = set_words_spec[OF s1 this]
  have wr: "writable_range w a n =
      (writable_range w a (8 * (n div 8)) \<and> writable_range w (a + of_nat (8 * (n div 8))) (n mod 8))"
    using writable_range_split[of w a "8 * (n div 8)" "n mod 8"] by simp
  show ?thesis
  proof (cases "left = 0")
    case True
    then have run: "set_bytes w (n mod 8) dst m1 = (u, m')" using assms(1) s1 by (simp add: setall_user_def)
    have "n mod 8 \<le> (2 :: nat) ^ 64" using assms(2) n by linarith
    note b = set_bytes_spec[OF run this]
    have "ones_to (ones_to m a (8 * (n div 8))) (a + of_nat (8 * (n div 8))) (n mod 8 - u)
        = ones_to m a (8 * (n div 8) + (n mod 8 - u))"
      using assms(2) n by (intro ones_to_append) linarith
    moreover have "8 * (n div 8) + (n mod 8 - u) = n - u" using b n by linarith
    ultimately show ?thesis using b spec True wr n by auto
  next
    case False
    then have u: "u = n mod 8 + 8 * left" "m' = m1" using assms(1) s1 by (auto simp: setall_user_def)
    have "u \<le> n" using spec n u(1) by linarith
    moreover have "n - u = 8 * (n div 8 - left)" using n u(1) by linarith
    ultimately show ?thesis using spec False wr u(2) by metis
  qed
qed

lemma ones_read_loop_spec:
  assumes "ones_read_loop w sg r buf count written m = (done_b, intr, m')" "count \<le> 2 ^ 64"
  shows "\<exists>n \<le> count. done_b = written + n \<and> m' = ones_to m buf n
    \<and> (writable_range w buf count \<and> (\<forall>k. \<not> sg k) \<longrightarrow> n = count)"
  using assms
proof (induction count arbitrary: r buf written m rule: less_induct)
  case (less count)
  show ?case
  proof (cases "count = 0")
    case True
    then show ?thesis using less.prems(1) by (auto simp: ones_read_loop.simps)
  next
    case False
    let ?chunk = "min count PAGE_SIZE"
    obtain u m1 where s: "setall_user w buf ?chunk m = (u, m1)" by force
    have spec: "u \<le> ?chunk" "m1 = ones_to m buf (?chunk - u)" "writable_range w buf ?chunk \<longrightarrow> u = 0"
      using setall_user_spec[OF s] less.prems(2) by auto
    have wr: "writable_range w buf count = (writable_range w buf ?chunk
        \<and> writable_range w (buf + of_nat ?chunk) (count - ?chunk))"
      using writable_range_split[of w buf ?chunk "count - ?chunk"] by simp
    consider "u \<noteq> 0" | "u = 0" "sg r" | "u = 0" "\<not> sg r" by blast
    then show ?thesis
    proof cases
      case 3
      then have run: "ones_read_loop w sg (r + 1) (buf + of_nat ?chunk) (count - ?chunk) (written + ?chunk) m1
          = (done_b, intr, m')"
        using less.prems(1) False s by (simp add: ones_read_loop.simps[of _ _ r] Let_def)
      have "count - ?chunk < count" "count - ?chunk \<le> 2 ^ 64"
        using False less.prems(2) by (auto simp: PAGE_SIZE_def)
      from less.IH[OF this(1) run this(2)] obtain n where n: "n \<le> count - ?chunk" "done_b = written + ?chunk + n"
          "m' = ones_to m1 (buf + of_nat ?chunk) n"
          "writable_range w (buf + of_nat ?chunk) (count - ?chunk) \<and> (\<forall>k. \<not> sg k) \<longrightarrow> n = count - ?chunk"
        by blast
      have "m' = ones_to m buf (?chunk + n)"
        using n(1,3) spec(2) 3 less.prems(2) by (simp add: ones_to_append)
      then show ?thesis using n wr by (intro exI[of _ "?chunk + n"]) auto
    next
      case 1
      then have "done_b = written + (?chunk - u)" "m' = m1"
        using less.prems(1) False s by (simp_all add: ones_read_loop.simps[of _ _ r] Let_def)
      then show ?thesis using spec wr 1 by (intro exI[of _ "?chunk - u"]) auto
    next
      case 2
      then have "done_b = written + ?chunk" "m' = m1"
        using less.prems(1) False s by (simp_all add: ones_read_loop.simps[of _ _ r] Let_def)
      then show ?thesis using spec 2 by (intro exI[of _ ?chunk]) auto
    qed
  qed
qed

lemma ssize_small: "n < 2 ^ 63 \<Longrightarrow> ssize n = int n"
  unfolding ssize_def by (rule signed_take_bit_int_eq_self) simp_all

text \<open>
  (C29) Reading \<^verbatim>\<open>/dev/ones\<close>.  A \<^verbatim>\<open>read\<close> of a \<^verbatim>\<open>size_t\<close> count always returns, and has set some number of bytes
  of the buffer, from its start, to ones, and changed nothing else.  If it has written any, the result
  is that number as a \<^verbatim>\<open>ssize_t\<close>; otherwise the count was 0 and so is the result, or the result is an
  error.  A buffer that can be written is filled completely unless a signal arrives.  For counts below
  \<open>2 ^ 63\<close>, the only ones that the kernel's address check lets through, the result is not wrapped: if
  it is not negative, exactly that many bytes have been set; a negative result has changed nothing;
  and the result of a complete read is the count.
\<close>

theorem ones_read_fills:
  assumes "ones_read access_ok writable signals buf count m = (r, m')" "count \<le> 2 ^ 64"
  shows "(\<exists>n \<le> count. m' = ones_to m buf n
      \<and> (if n \<noteq> 0 then r = ssize n else if count = 0 then r = 0 else r \<in> {- EFAULT, - ERESTARTSYS})
      \<and> (access_ok buf count \<and> writable_range writable buf count \<and> (\<forall>k. \<not> signals k) \<longrightarrow> n = count))
    \<and> (count < 2 ^ 63 \<longrightarrow> (r \<ge> 0 \<longrightarrow> r \<le> int count \<and> m' = ones_to m buf (nat r)) \<and> (r < 0 \<longrightarrow> m' = m)
      \<and> (access_ok buf count \<and> writable_range writable buf count \<and> (\<forall>k. \<not> signals k) \<longrightarrow> r = int count))"
proof -
  have "\<exists>n \<le> count. m' = ones_to m buf n
      \<and> (if n \<noteq> 0 then r = ssize n else if count = 0 then r = 0 else r \<in> {- EFAULT, - ERESTARTSYS})
      \<and> (access_ok buf count \<and> writable_range writable buf count \<and> (\<forall>k. \<not> signals k) \<longrightarrow> n = count)"
  proof (cases "count = 0 \<or> \<not> access_ok buf count")
    case True
    then show ?thesis using assms(1) by (cases "count = 0") (auto simp: ones_read_def intro!: exI[of _ 0])
  next
    case False
    obtain done_b intr m1 where l: "ones_read_loop writable signals 0 buf count 0 m = (done_b, intr, m1)"
      by (metis prod_cases3)
    from ones_read_loop_spec[OF l assms(2)] obtain n where "n \<le> count" "done_b = n" "m1 = ones_to m buf n"
        "writable_range writable buf count \<and> (\<forall>k. \<not> signals k) \<longrightarrow> n = count" by auto
    then show ?thesis
      using assms(1) False l by (intro exI[of _ n]) (auto simp: ones_read_def split: if_split_asm)
  qed
  then obtain n where n: "n \<le> count" "m' = ones_to m buf n"
      "if n \<noteq> 0 then r = ssize n else if count = 0 then r = 0 else r \<in> {- EFAULT, - ERESTARTSYS}"
      "access_ok buf count \<and> writable_range writable buf count \<and> (\<forall>k. \<not> signals k) \<longrightarrow> n = count"
    by blast
  have "(r \<ge> 0 \<longrightarrow> r \<le> int count \<and> m' = ones_to m buf (nat r)) \<and> (r < 0 \<longrightarrow> m' = m)
      \<and> (access_ok buf count \<and> writable_range writable buf count \<and> (\<forall>k. \<not> signals k) \<longrightarrow> r = int count)"
    if "count < 2 ^ 63"
  proof (cases "n = 0")
    case True
    then show ?thesis using n by (cases "count = 0") (auto simp: EFAULT_def ERESTARTSYS_def)
  next
    case False
    then have "r = int n" using n(1,3) that by (simp add: ssize_small)
    then show ?thesis using n(1,2,4) False by auto
  qed
  with n show ?thesis by blast
qed

theorem ones_read_fills_witness:
  "case ones_read (\<lambda>_ _. True) (\<lambda>_. True) (\<lambda>_. False) 0x602000 5 (\<lambda>_. 0) of (r, m') \<Rightarrow>
     r = 5 \<and> m' = ones_to (\<lambda>_. 0) 0x602000 5"
  using ones_read_fills[of "\<lambda>_ _. True" "\<lambda>_. True" "\<lambda>_. False" "0x602000" 5 "\<lambda>_. 0"]
  by (auto simp: writable_range_def list_all_iff split: prod.splits)


lemma fill_page_spec:
  assumes "0 < unat l" "unat l + 8 * n \<le> 2 ^ 64"
  shows "fill_page n l (l + of_nat (8 * n)) m = Inr (ones_to m l (8 * n))"
  using assms
proof (induction n arbitrary: l m)
  case 0
  then show ?case by (subst fill_page.simps) simp
next
  case (Suc n)
  have ne: "l \<noteq> l + of_nat (8 * Suc n)"
  proof
    assume "l = l + of_nat (8 * Suc n)"
    then have "(of_nat (8 * Suc n) :: u64) = of_nat 0" by (simp del: of_nat_mult)
    then show False using of_nat_u64_eq_iff[of "8 * Suc n" 0] Suc.prems by (simp del: of_nat_0)
  qed
  have next_l: "l + of_nat (8 * Suc n) = l + 8 + of_nat (8 * n)" by simp
  have step: "fill_page (Suc n) l (l + of_nat (8 * Suc n)) m =
      fill_page n (l + 8) (l + 8 + of_nat (8 * n)) (ones_to m l 8)"
    using Suc.prems(1) ne unfolding next_l
    by (subst fill_page.simps) (auto simp: store64_ones add.assoc simp del: of_nat_Suc of_nat_mult)
  show ?case
  proof (cases "n = 0")
    case True
    then show ?thesis using step by (simp add: fill_page.simps[of 0])
  next
    case False
    then have "unat (l + 8) = unat l + 8" using Suc.prems(2) by (intro unat_add_nowrap[of l 8, simplified]) simp
    then show ?thesis
      using step Suc.IH[of "l + 8" "ones_to m l 8"] ones_to_append[of 8 "8 * n" m l] Suc.prems by simp
  qed
qed

lemma ones_init_memory:
  assumes "0 < unat page" "unat page + PAGE_SIZE \<le> 2 ^ 64"
  shows "ones_init page registered md = Inr (registered, md\<lparr> ones_data := page,
    dev_registered := (registered = 0), page_count := (page_count md)(page := 1),
    kernel_memory := ones_to (kernel_memory md) page PAGE_SIZE \<rparr>)"
  using fill_page_spec[of page "PAGE_SIZE div 8" "kernel_memory md"] assms by (simp add: ones_init_def PAGE_SIZE_def)

lemma ones_vma_fault_simps [simp]:
  "fst (snd (ones_vma_fault md)) = ones_data md"
  "snd (snd (ones_vma_fault md)) = get_page (ones_data md) md"
  by (simp_all add: ones_vma_fault_def get_page_def Let_def)

text \<open>
  A mapping of \<^verbatim>\<open>/dev/ones\<close> reads as ones.  Once the module has been initialised with a page of its
  own, a private mapping is accepted, a shared one refused, and every byte of the page that a fault
  brings in is all ones.  If there is no page the initialisation dereferences null.
\<close>

theorem ones_mapping_reads_ones:
  assumes "0 < unat page" "unat page + PAGE_SIZE \<le> 2 ^ 64"
  shows "\<exists>md'. ones_init page registered md = Inr (registered, md')
    \<and> (\<forall>i < PAGE_SIZE. kernel_memory md' (fst (snd (ones_vma_fault md')) + of_nat i) = -1)
    \<and> page_count (snd (snd (ones_vma_fault md'))) page = 2
    \<and> ones_mmap \<lparr> vm_shared = False, vm_has_ones_ops = False \<rparr> = (0, \<lparr> vm_shared = False, vm_has_ones_ops = True \<rparr>)
    \<and> fst (ones_mmap \<lparr> vm_shared = True, vm_has_ones_ops = False \<rparr>) = - ENOSYS
    \<and> ones_init 0 registered md = Inl NullDeref"
proof -
  have "ones_to m page PAGE_SIZE (page + of_nat i) = -1" if "i < PAGE_SIZE" for i m
    using that by (simp add: ones_to_def unat_of_nat_u64 PAGE_SIZE_def)
  moreover have "ones_init 0 registered md = Inl NullDeref"
    by (simp add: ones_init_def PAGE_SIZE_def fill_page.simps[of _ 0])
  ultimately show ?thesis by (simp add: ones_init_memory[OF assms] get_page_def ones_mmap_def)
qed

end
