(* ===== verification/Dev_Ones_Life.thy ===== *)
theory Dev_Ones_Life
  imports Dev_Ones
begin

text \<open>
  The life of the kernel module behind \<^verbatim>\<open>/dev/ones\<close>: it is loaded and unloaded, possibly several times,
  while mappings of the device fault pages in and go away.  The kernel may reuse the memory of a page
  that has no reference left.  The counts are those that the module's functions take and give back
  (\<open>page_count\<close>); \<open>pg_held\<close> tells in how many mappings a page is, and is read by no step but the
  unmapping of it.
\<close>

record ones_life =
  lf_module :: ones_module
  pg_held :: "addr \<Rightarrow> nat"

text \<open>
  The steps.  A load takes a free page and fails if the device cannot be registered; then the page is
  not given back.  The file operations have no owner, so that the kernel lets the module be unloaded
  while there are mappings; a fault after that would call code that is gone, and is not a step.  A
  fault enters the page it was given into a mapping; when a mapping goes away, the kernel drops one
  reference for each page in it.
\<close>

inductive life_step :: "ones_life \<Rightarrow> ones_life \<Rightarrow> bool" where
  load: "\<not> dev_registered (lf_module s) \<Longrightarrow> page_count (lf_module s) page = 0 \<Longrightarrow>
     0 < unat page \<Longrightarrow> unat page + PAGE_SIZE \<le> 2 ^ 64 \<Longrightarrow>
     ones_init page err (lf_module s) = Inr (r, md) \<Longrightarrow>
     life_step s (s\<lparr> lf_module := md \<rparr>)"
| fault: "dev_registered (lf_module s) \<Longrightarrow> ones_vma_fault (lf_module s) = (r, pg, md) \<Longrightarrow>
     life_step s (s\<lparr> lf_module := md, pg_held := (pg_held s)(pg := pg_held s pg + 1) \<rparr>)"
| unmap: "pg_held s pg > 0 \<Longrightarrow>
     life_step s (s\<lparr> lf_module := put_page pg (lf_module s), pg_held := (pg_held s)(pg := pg_held s pg - 1) \<rparr>)"
| unload: "dev_registered (lf_module s) \<Longrightarrow> life_step s (s\<lparr> lf_module := ones_exit (lf_module s) \<rparr>)"
| reuse: "(\<And>pg i. page_count (lf_module s) pg > 0 \<Longrightarrow> i < PAGE_SIZE \<Longrightarrow>
       m (pg + of_nat i) = kernel_memory (lf_module s) (pg + of_nat i)) \<Longrightarrow>
     life_step s (s\<lparr> lf_module := (lf_module s)\<lparr> kernel_memory := m \<rparr> \<rparr>)"

definition never_loaded :: "mem \<Rightarrow> ones_life" where
  "never_loaded m = \<lparr> lf_module = \<lparr> ones_data = 0, dev_registered = False, page_count = (\<lambda>_. 0),
     kernel_memory = m \<rparr>, pg_held = (\<lambda>_. 0) \<rparr>"

text \<open>
  The invariant: the kernel counts at least one reference for each mapping that a page is in and,
  while the module is loaded, the module's own; and every page with a reference is full of ones.
\<close>

definition page_of_ones :: "mem \<Rightarrow> addr \<Rightarrow> bool" where
  "page_of_ones m pg \<longleftrightarrow> (\<forall>i < PAGE_SIZE. m (pg + of_nat i) = -1)"

definition own_refs :: "ones_module \<Rightarrow> addr \<Rightarrow> nat" where
  "own_refs md pg = (if dev_registered md \<and> ones_data md = pg then 1 else 0)"

definition life_ok :: "ones_life \<Rightarrow> bool" where
  "life_ok s \<longleftrightarrow> (\<forall>pg. pg_held s pg + own_refs (lf_module s) pg \<le> page_count (lf_module s) pg)
     \<and> (\<forall>pg. page_count (lf_module s) pg > 0 \<longrightarrow> page_of_ones (kernel_memory (lf_module s)) pg)"

lemma page_of_ones_to: "page_of_ones (ones_to m page PAGE_SIZE) page"
  by (simp add: page_of_ones_def ones_to_def unat_of_nat_u64 PAGE_SIZE_def)

lemma page_of_ones_kept: "page_of_ones m pg \<Longrightarrow> page_of_ones (ones_to m a n) pg"
  by (simp add: page_of_ones_def ones_to_def)

lemma life_okD:
  assumes "life_ok s"
  shows "pg_held s pg + own_refs (lf_module s) pg \<le> page_count (lf_module s) pg"
    "page_count (lf_module s) pg > 0 \<Longrightarrow> page_of_ones (kernel_memory (lf_module s)) pg"
  using assms by (simp_all add: life_ok_def)

lemma life_step_ok:
  assumes "life_step s s'" "life_ok s"
  shows "life_ok s'"
  using assms(1)
proof cases
  case (load page err r md)
  have "pg_held s page = 0" using life_okD(1)[OF assms(2), of page] load(3) by simp
  moreover have "pg_held s q \<le> page_count (lf_module s) q" for q using life_okD(1)[OF assms(2), of q] by simp
  ultimately show ?thesis
    using load(1) load(6) life_okD(2)[OF assms(2)]
    by (auto simp: life_ok_def own_refs_def ones_init_memory[OF load(4,5)] page_of_ones_to page_of_ones_kept
        split: if_split_asm)
next
  case (fault r pg md)
  have pg: "pg = ones_data (lf_module s)" "md = get_page pg (lf_module s)"
    using fault(3) by (auto simp: ones_vma_fault_def get_page_def Let_def)
  have "page_count (lf_module s) pg > 0"
    using life_okD(1)[OF assms(2), of pg] fault(2) pg(1) by (simp add: own_refs_def)
  then show ?thesis
    using life_okD[OF assms(2)] fault(1) pg(2) by (auto simp: life_ok_def own_refs_def get_page_def)
next
  case (unmap pg)
  have "pg_held s' q + own_refs (lf_module s') q \<le> page_count (lf_module s') q" for q
    using life_okD(1)[OF assms(2), of q] unmap by (cases "q = pg") (auto simp: own_refs_def put_page_def)
  moreover have "page_of_ones (kernel_memory (lf_module s')) q" if "page_count (lf_module s') q > 0" for q
    using that life_okD(2)[OF assms(2), of q] unmap by (cases "q = pg") (auto simp: put_page_def)
  ultimately show ?thesis by (simp add: life_ok_def)
next
  case unload
  let ?pg = "ones_data (lf_module s)"
  have "pg_held s' q + own_refs (lf_module s') q \<le> page_count (lf_module s') q" for q
    using life_okD(1)[OF assms(2), of q] unload
    by (cases "q = ?pg") (auto simp: own_refs_def ones_exit_def put_page_def split: if_split_asm)
  moreover have "page_of_ones (kernel_memory (lf_module s')) q" if "page_count (lf_module s') q > 0" for q
    using that life_okD(2)[OF assms(2), of q] unload
    by (cases "q = ?pg") (auto simp: ones_exit_def put_page_def)
  ultimately show ?thesis by (simp add: life_ok_def)
next
  case (reuse m)
  then show ?thesis using assms(2) by (auto simp: life_ok_def own_refs_def page_of_ones_def)
qed

text \<open>
  (C28) A mapping of \<^verbatim>\<open>/dev/ones\<close> keeps its ones.  However the module is loaded and unloaded and mappings
  come and go, a page that is still in some mapping is full of ones, even when the module has been
  unloaded in the meantime and the kernel has reused all memory without a reference: the references
  that the module's fault handler, its initialisation and its exit take and give back are enough.  A
  page that the loaded module will hand to the next fault is full of ones, too.
\<close>

theorem mapped_pages_stay_ones:
  assumes "life_step\<^sup>*\<^sup>* (never_loaded m) s" "i < PAGE_SIZE"
    and "pg_held s pg > 0 \<or> dev_registered (lf_module s) \<and> fst (snd (ones_vma_fault (lf_module s))) = pg"
  shows "kernel_memory (lf_module s) (pg + of_nat i) = -1"
proof -
  from assms(1) have ok: "life_ok s"
  proof (induction rule: rtranclp_induct)
    case base
    show ?case by (simp add: life_ok_def own_refs_def never_loaded_def)
  qed (rule life_step_ok)
  have "page_count (lf_module s) pg > 0"
    using assms(3) life_okD(1)[OF ok, of pg] by (auto simp: own_refs_def)
  then show ?thesis using life_okD(2)[OF ok] assms(2) by (simp add: page_of_ones_def)
qed

text \<open>Load, fault, unload: the mapping still has its page.\<close>

theorem mapped_pages_stay_ones_witness:
  "\<exists>s. life_step\<^sup>*\<^sup>* (never_loaded (\<lambda>_. 0)) s \<and> \<not> dev_registered (lf_module s) \<and> pg_held s 0x10000 > 0
     \<and> kernel_memory (lf_module s) (0x10000 + of_nat 7) = -1"
proof -
  let ?s0 = "never_loaded (\<lambda>_. 0)"
  have i: "\<exists>md. ones_init 0x10000 0 (lf_module ?s0) = Inr (0, md) \<and> dev_registered md \<and> ones_data md = 0x10000"
    by (simp add: ones_init_memory PAGE_SIZE_def)
  then obtain md where md: "ones_init 0x10000 0 (lf_module ?s0) = Inr (0, md)" "dev_registered md"
      "ones_data md = 0x10000" by blast
  let ?s1 = "?s0\<lparr> lf_module := md \<rparr>"
  have 1: "life_step ?s0 ?s1"
    by (rule life_step.load[OF _ _ _ _ md(1)]) (simp_all add: never_loaded_def PAGE_SIZE_def)
  have "ones_vma_fault (lf_module ?s1) = (0, 0x10000, get_page 0x10000 md)"
    using md(3) by (simp add: ones_vma_fault_def get_page_def Let_def)
  from life_step.fault[OF _ this] obtain s2 where 2: "life_step ?s1 s2" "dev_registered (lf_module s2)"
      "pg_held s2 0x10000 > 0"
    using md(2) by (fastforce simp: get_page_def)
  let ?s3 = "s2\<lparr> lf_module := ones_exit (lf_module s2) \<rparr>"
  have r: "life_step\<^sup>*\<^sup>* ?s0 ?s3"
    using 1 2(1) life_step.unload[OF 2(2)] by (meson rtranclp.rtrancl_into_rtrancl rtranclp.rtrancl_refl)
  have h: "pg_held ?s3 0x10000 > 0" using 2(3) by simp
  from mapped_pages_stay_ones[OF r _ disjI1[OF h], of 7] r h show ?thesis
    by (intro exI[of _ ?s3]) (simp add: ones_exit_def put_page_def PAGE_SIZE_def)
qed

text \<open>A load that fails keeps its page for ever.\<close>

lemma failed_load_leaks_page:
  assumes "\<not> dev_registered (lf_module s)" "page_count (lf_module s) page = 0" "0 < unat page"
    "unat page + PAGE_SIZE \<le> 2 ^ 64" "(err :: int) \<noteq> 0"
  shows "\<exists>s'. life_step s s' \<and> \<not> dev_registered (lf_module s') \<and> page_count (lf_module s') page = 1
    \<and> pg_held s' page = pg_held s page"
  using life_step.load[OF assms(1-4) ones_init_memory[OF assms(3,4), of err "lf_module s"]] assms(5) by fastforce

end
