(* ===== verification/Ool_Inlines.thy ===== *)
theory Ool_Inlines
  imports Pointer_Store
begin

text \<open>
  The out-of-line entry points at the end of \<^verbatim>\<open>src/libcrunch.c\<close>: functions that a debugger or
  separately compiled code can call, each of which forwards to the inline function of the same name.
  The two peeking functions are for callers that have checked the cookie themselves.
\<close>

definition ool_cache_lookup ::
  "'w liballocs \<Rightarrow> cache_id \<Rightarrow> 'w \<Rightarrow> addr \<Rightarrow> uniqtype \<Rightarrow> u64 \<Rightarrow> (nat \<times> cache_entry) option" where
  "ool_cache_lookup la cid w obj t period = cache_lookup la cid w obj t period"

definition ool_cache_lookup_notype ::
  "'w liballocs \<Rightarrow> cache_id \<Rightarrow> 'w \<Rightarrow> addr \<Rightarrow> u64 \<Rightarrow> (nat \<times> cache_entry) option" where
  "ool_cache_lookup_notype la cid w obj period = cache_lookup_notype la cid w obj period"

definition ool_get_cached_object_type :: "'w liballocs \<Rightarrow> 'w \<Rightarrow> addr \<Rightarrow> uniqtype" where
  "ool_get_cached_object_type la w a = get_cached_object_type la w a"

definition ool_trap :: "config \<Rightarrow> addr \<Rightarrow> u16 \<Rightarrow> addr" where
  "ool_trap = libcrunch_trap"

definition ool_detrap :: "config \<Rightarrow> addr \<Rightarrow> addr" where
  "ool_detrap = libcrunch_detrap"

definition ool_untrap :: "config \<Rightarrow> addr \<Rightarrow> u16 \<Rightarrow> addr" where
  "ool_untrap = libcrunch_untrap"

definition ool_ptr_trap_bits :: "config \<Rightarrow> addr \<Rightarrow> u64" where
  "ool_ptr_trap_bits = libcrunch_ptr_trap_bits"

definition ool_is_trap_ptr :: "config \<Rightarrow> addr \<Rightarrow> bool" where
  "ool_is_trap_ptr = libcrunch_is_trap_ptr"

definition ool_make_bounds :: "config \<Rightarrow> u64 \<Rightarrow> u64 \<Rightarrow> bounds" where
  "ool_make_bounds = make_bounds"

definition ool_max_bounds :: "config \<Rightarrow> addr \<Rightarrow> bounds" where
  "ool_max_bounds = libcrunch_max_bounds"

definition ool_get_base :: "config \<Rightarrow> bounds \<Rightarrow> addr \<Rightarrow> addr" where
  "ool_get_base = libcrunch_get_base"

definition ool_get_size :: "config \<Rightarrow> bounds \<Rightarrow> addr \<Rightarrow> u64" where
  "ool_get_size = libcrunch_get_size"

definition ool_get_limit :: "config \<Rightarrow> bounds \<Rightarrow> addr \<Rightarrow> addr" where
  "ool_get_limit = libcrunch_get_limit"

definition ool_make_invalid_bounds :: "config \<Rightarrow> addr \<Rightarrow> bounds" where
  "ool_make_invalid_bounds = libcrunch_make_invalid_bounds"

definition ool_bounds_invalid :: "config \<Rightarrow> bounds \<Rightarrow> addr \<Rightarrow> bool" where
  "ool_bounds_invalid = libcrunch_bounds_invalid"

definition ool_valid_bounds_equal ::
  "config \<Rightarrow> bounds \<Rightarrow> bounds \<Rightarrow> bool" where
  "ool_valid_bounds_equal = libcrunch_valid_bounds_equal"

definition ool_fetch_bounds_from_cache ::
  "config \<Rightarrow> 'w liballocs \<Rightarrow> addr \<Rightarrow> addr \<Rightarrow> u64 \<Rightarrow> 'w crunch \<Rightarrow> bounds \<times> 'w crunch" where
  "ool_fetch_bounds_from_cache = fetch_bounds_from_cache"

definition ool_secondary_check_derive_ptr ::
  "config \<Rightarrow> 'w runtime \<Rightarrow> addr \<Rightarrow> addr \<Rightarrow> addr \<Rightarrow> bounds \<Rightarrow> uniqtype \<Rightarrow> 'w crunch \<Rightarrow> ((bool \<times> addr \<times> bounds) \<times> 'w crunch) outcome" where
  "ool_secondary_check_derive_ptr = secondary_check_derive_ptr"

definition ool_full_check_derive_ptr ::
  "config \<Rightarrow> 'w runtime \<Rightarrow> addr \<Rightarrow> addr \<Rightarrow> addr \<Rightarrow> bounds \<Rightarrow> uniqtype \<Rightarrow> 'w crunch \<Rightarrow> ((bool \<times> addr \<times> bounds) \<times> 'w crunch) outcome" where
  "ool_full_check_derive_ptr = full_check_derive_ptr"

definition ool_shadow_store_bounds_for ::
  "config \<Rightarrow> mem \<Rightarrow> addr \<Rightarrow> bounds \<Rightarrow> addr \<Rightarrow> mem" where
  "ool_shadow_store_bounds_for = shadow_store_bounds_for"

definition ool_store_pointer_nonlocal ::
  "config \<Rightarrow> 'w runtime \<Rightarrow> addr \<Rightarrow> addr \<Rightarrow> bounds \<Rightarrow> uniqtype \<Rightarrow> 'w crunch \<Rightarrow> 'w crunch outcome" where
  "ool_store_pointer_nonlocal = store_pointer_nonlocal"

definition ool_base_stored_addr :: "addr \<Rightarrow> addr" where
  "ool_base_stored_addr = libcrunch_base_stored_loc"

definition ool_size_stored_addr :: "addr \<Rightarrow> addr" where
  "ool_size_stored_addr = libcrunch_size_stored_loc"

definition ool_fetch_bounds_from_shadow_space ::
  "config \<Rightarrow> mem \<Rightarrow> addr \<Rightarrow> addr \<Rightarrow> bounds" where
  "ool_fetch_bounds_from_shadow_space = fetch_bounds_from_shadow_space"

definition ool_fetch_bounds_inl ::
  "config \<Rightarrow> mem \<Rightarrow> addr \<Rightarrow> addr \<Rightarrow> addr \<Rightarrow> bounds" where
  "ool_fetch_bounds_inl = fetch_bounds_inl"

definition ool_fetch_bounds_full ::
  "config \<Rightarrow> 'w runtime \<Rightarrow> addr \<Rightarrow> addr \<Rightarrow> addr \<Rightarrow> uniqtype \<Rightarrow> 'w crunch \<Rightarrow> (bounds \<times> 'w crunch) outcome" where
  "ool_fetch_bounds_full = fetch_bounds_full"

definition ool_peek_argument_bounds :: "config \<Rightarrow> u64 \<Rightarrow> addr \<Rightarrow> 'w crunch \<Rightarrow> bounds" where
  "ool_peek_argument_bounds c offset ptr st = peek_argument_bounds c True offset ptr st"

definition ool_peek_result_bounds :: "config \<Rightarrow> u64 \<Rightarrow> addr \<Rightarrow> 'w crunch \<Rightarrow> bounds" where
  "ool_peek_result_bounds c offset ptr st = peek_result_bounds c True offset ptr st"

lemma store64_twice: "store64 (store64 m a v) a v = store64 m a v"
  by (auto simp: store64_def store_bytes_def)

text \<open>Peeking out of line inside a callee sees what the caller pushed, before and after the cookie is consumed.\<close>

lemma ool_peek_pushed:
  assumes "stack_config c" "length bs \<le> 2 ^ 32" "i < length bs"
  shows "ool_peek_argument_bounds c (of_nat i) p
      (push_argument_bounds_cookie c callee (foldr (push_local_argument_bounds c) bs st)) = bs ! i"
proof -
  let ?st = "foldr (push_bounds c) bs st"
  have "stack_slot c i ?st = bs ! i"
    using bounds_stack.pushed_bounds[OF bounds_stack.intro[OF assms(1)] assms(2,3)] .
  moreover have "peek_argument_bounds c True (of_nat i) p (push_argument_bounds_cookie c callee ?st)
      = peek_argument_bounds c True (of_nat i) p (?st\<lparr> bounds_sp := bounds_sp ?st - 8,
          memory := store64 (store64 (memory ?st) (bounds_sp ?st - 8) callee) (bounds_sp ?st - 8) callee \<rparr>)"
    using stack_configD[OF assms(1)]
    by (simp add: push_cookie_unfold[OF assms(1)] peek_argument_bounds_def store64_twice)
  ultimately show ?thesis
    using peek_argument_slot[OF assms(1), of i p ?st callee callee] assms(2,3)
    by (simp add: ool_peek_argument_bounds_def foldr_push_local[OF assms(1)])
qed

end
