(* ===== verification/Instrumented_Program.thy ===== *)
theory Instrumented_Program
  imports Pointer_Store
begin

text \<open>
  The composition of the inline operations in an instrumented program.  The compiler front end
  (not modelled) replaces every pointer operation of a C program by calls of the inlines of
  \<^verbatim>\<open>include/libcrunch_cil_inlines.h\<close>; the rules of \<open>prog_step\<close> are the program's pointer operations with
  those calls in place, each taken from its component: derivation, storing a pointer to memory,
  loading it back, an access through a pointer, and call and return with the bounds passed on the
  bounds stack.  \<open>prog_ok\<close> is a typing of the program state: every pointer that a variable, a saved
  frame or a memory slot holds is typed by the bounds of an object of the program.  The theorems
  show which steps preserve the typing, with either library linked: all but the derivations of an
  address that already carries the tag which the check is about to toggle (\<open>retags\<close>).  They show what
  each operation of a typed state returns, and that the addresses accessed by a program in whose run no
  such derivation occurs lie in its objects.
\<close>

type_synonym env = "string \<Rightarrow> (addr \<times> bounds) option"

text \<open>
  A program state: the variables of the running function with their bounds, the suspended callers
  (their variables and the bounds-stack pointer to restore), the memory slots that hold pointers,
  the objects, the addresses accessed so far, the derivations made so far (bounds and derived address,
  the latest first), and the state of the library, which includes memory.  Slots, objects, accesses
  and derivations are there for the statements only: no step computes with them.
\<close>

record 'w program =
  locals :: env
  frames :: "(env \<times> addr) list"
  slots :: "addr \<Rightarrow> bounds option"
  objects :: "bounds set"
  accessed :: "addr set"
  derivations :: "(bounds \<times> addr) list"
  lib :: "'w crunch"

definition initial_program :: "'w crunch \<Rightarrow> 'w program" where
  "initial_program st = \<lparr> locals = (\<lambda>_. None), frames = [], slots = (\<lambda>_. None), objects = {},
     accessed = {}, derivations = [], lib = st \<rparr>"

text \<open>The configurations in which all the components are switched on.\<close>

definition program_config :: "config \<Rightarrow> bool" where
  "program_config c \<longleftrightarrow> split_config c \<and> has_shadow_space c \<and> stack_config c"

text \<open>An object: a non-null user-space range whose bounds the shadow space can represent.\<close>

definition object_bounds :: "config \<Rightarrow> bounds \<Rightarrow> bool" where
  "object_bounds c b \<longleftrightarrow> user_bounds b \<and> representable c b \<and> bnd_base b \<noteq> 0
     \<and> within_region user_slots (bnd_base b) (unat (bnd_size b))"

text \<open>The next \<open>n\<close> bytes of the bounds stack are user memory and hold no pointer of the program.\<close>

definition stack_room :: "nat \<Rightarrow> 'w program \<Rightarrow> bool" where
  "stack_room n s \<longleftrightarrow> n < 2 ^ 32 \<and> within_region user_slots (bounds_sp (lib s) - of_nat n) n
     \<and> (\<forall>a \<in> dom (slots s). ranges_disjoint a 8 (bounds_sp (lib s) - of_nat n) n)"

text \<open>Entering a callee: caller pushes right to left and leaves the cookie, callee tests it and peeks.\<close>

definition enter_callee ::
  "config \<Rightarrow> addr \<Rightarrow> (addr \<times> bounds) list \<Rightarrow> 'w crunch \<Rightarrow> (addr \<times> bounds) list \<times> 'w crunch" where
  "enter_callee c callee args st =
     (case tweak_argument_bounds_cookie c callee
             (push_argument_bounds_cookie c callee
               (foldr (push_local_argument_bounds c) (map snd args) st)) of
        (ok, st') \<Rightarrow>
          (map (\<lambda>i. (fst (args ! i), peek_argument_bounds c ok (of_nat i) (fst (args ! i)) st'))
             [0..<length args], st'))"

text \<open>Leaving it: the callee pushes the bounds of its result, the caller peeks and cleans up.\<close>

definition leave_callee ::
  "config \<Rightarrow> addr \<Rightarrow> addr \<times> bounds \<Rightarrow> 'w crunch \<Rightarrow> (addr \<times> bounds) \<times> 'w crunch" where
  "leave_callee c saved_sp r st =
     (let st' = push_local_result_bounds c True (snd r) st
      in ((fst r, peek_result_bounds c True 0 (fst r) st'), cleanup_bounds_stack c saved_sp st'))"

text \<open>
  The steps.  An access through a pointer goes ahead only if the pointer carries no tag: a tagged
  address is not canonical, and the access faults.  A byte written over a slot ends the slot's life
  as a pointer.  A derivation starts from any pointer, tagged or not, and adds any offset.
\<close>

inductive prog_step :: "config \<Rightarrow> 'w runtime \<Rightarrow> 'w program \<Rightarrow> 'w program \<Rightarrow> bool" for c rt where
  new_object: "object_bounds c b \<Longrightarrow>
     prog_step c rt s (s\<lparr> locals := (locals s)(x \<mapsto> (bnd_base b, b)), objects := insert b (objects s) \<rparr>)"
| assign: "locals s y = Some v \<Longrightarrow> prog_step c rt s (s\<lparr> locals := (locals s)(x \<mapsto> v) \<rparr>)"
| derive: "locals s y = Some (p, b) \<Longrightarrow>
     full_check_derive_ptr c rt pc (p + i) p b t (lib s) = Inr ((ok, q, b'), st') \<Longrightarrow>
     prog_step c rt s (s\<lparr> locals := (locals s)(x \<mapsto> (q, b')), derivations := (b, p + i) # derivations s,
        lib := st' \<rparr>)"
| store_ptr: "locals s z = Some (d, bz) \<Longrightarrow> \<not> libcrunch_is_trap_ptr c d \<Longrightarrow> shadow_slot d \<Longrightarrow>
     locals s y = Some (p, b) \<Longrightarrow> t \<noteq> 0 \<Longrightarrow>
     store_pointer_nonlocal c rt d p b t ((lib s)\<lparr> memory := store64 (memory (lib s)) d p \<rparr>) = Inr st' \<Longrightarrow>
     prog_step c rt s (s\<lparr> slots := (slots s)(d \<mapsto> b), accessed := insert d (accessed s), lib := st' \<rparr>)"
| load_ptr: "locals s z = Some (d, bz) \<Longrightarrow> \<not> libcrunch_is_trap_ptr c d \<Longrightarrow> d \<in> dom (slots s) \<Longrightarrow>
     p = load64 (memory (lib s)) d \<Longrightarrow> t \<noteq> 0 \<Longrightarrow>
     fetch_bounds_full c rt p p d t (lib s) = Inr (b, st') \<Longrightarrow>
     prog_step c rt s (s\<lparr> locals := (locals s)(x \<mapsto> (p, b)), accessed := insert d (accessed s), lib := st' \<rparr>)"
| read_byte: "locals s z = Some (d, bz) \<Longrightarrow> \<not> libcrunch_is_trap_ptr c d \<Longrightarrow>
     prog_step c rt s (s\<lparr> accessed := insert d (accessed s) \<rparr>)"
| write_byte: "locals s z = Some (d, bz) \<Longrightarrow> \<not> libcrunch_is_trap_ptr c d \<Longrightarrow>
     prog_step c rt s (s\<lparr> slots := slots s |` {a. ranges_disjoint a 8 d 1},
        accessed := insert d (accessed s), lib := (lib s)\<lparr> memory := (memory (lib s))(d := v) \<rparr> \<rparr>)"
| call: "list_all2 (\<lambda>y v. locals s y = Some v) ys args \<Longrightarrow> length xs = length args \<Longrightarrow>
     stack_room (16 * length args + 8) s \<Longrightarrow> unat callee < 2 ^ 47 \<Longrightarrow>
     enter_callee c callee args (lib s) = (params, st') \<Longrightarrow>
     prog_step c rt s (s\<lparr> locals := map_of (zip xs params),
        frames := (locals s, bounds_sp (lib s)) # frames s, lib := st' \<rparr>)"
| return: "frames s = (saved, sp) # fs \<Longrightarrow> locals s y = Some r \<Longrightarrow> stack_room 16 s \<Longrightarrow>
     leave_callee c sp r (lib s) = (r', st') \<Longrightarrow>
     prog_step c rt s (s\<lparr> locals := saved(x \<mapsto> r'), frames := fs, lib := st' \<rparr>)"

inductive_cases prog_stepE: "prog_step c rt s s'"

definition prog_reachable :: "config \<Rightarrow> 'w runtime \<Rightarrow> 'w crunch \<Rightarrow> 'w program \<Rightarrow> bool" where
  "prog_reachable c rt st s \<longleftrightarrow> (prog_step c rt)\<^sup>*\<^sup>* (initial_program st) s"

text \<open>A run is clean if none of its derivations met an address that had the tag already.\<close>

definition clean :: "config \<Rightarrow> 'w program \<Rightarrow> bool" where
  "clean c s \<longleftrightarrow> (\<forall>(b, d) \<in> set (derivations s). \<not> retags c b d)"

text \<open>The step from the first state to the second is a derivation of that kind.\<close>

definition strips_tag :: "config \<Rightarrow> 'w program \<Rightarrow> 'w program \<Rightarrow> bool" where
  "strips_tag c s s' \<longleftrightarrow> (case derivations s' of
     (b, d) # ds \<Rightarrow> ds = derivations s \<and> retags c b d
   | [] \<Rightarrow> False)"

lemma strips_tag_simps:
  "derivations s' = derivations s \<Longrightarrow> \<not> strips_tag c s s'"
  "derivations s' = (b, d) # derivations s \<Longrightarrow> strips_tag c s s' \<longleftrightarrow> retags c b d"
  by (auto simp: strips_tag_def split: list.splits)


subsection \<open>The typing\<close>

definition ptr_ok :: "config \<Rightarrow> bounds set \<Rightarrow> addr \<times> bounds \<Rightarrow> bool" where
  "ptr_ok c bs v \<longleftrightarrow> snd v \<in> bs \<and> object_bounds c (snd v) \<and> safe_ptr c (snd v) (fst v)"

definition env_ok :: "config \<Rightarrow> bounds set \<Rightarrow> env \<Rightarrow> bool" where
  "env_ok c bs e \<longleftrightarrow> (\<forall>v \<in> ran e. ptr_ok c bs v)"

text \<open>The slot holds a typed pointer, and its shadow holds the bounds that type it.\<close>

definition slot_ok :: "config \<Rightarrow> bounds set \<Rightarrow> mem \<Rightarrow> addr \<Rightarrow> bounds \<Rightarrow> bool" where
  "slot_ok c bs m a b \<longleftrightarrow> shadow_slot a \<and> ptr_ok c bs (load64 m a, b)
     \<and> (\<forall>v. v \<noteq> 0 \<longrightarrow> fetch_bounds_from_shadow_space c m v a = b)"

definition mem_ok :: "config \<Rightarrow> bounds set \<Rightarrow> mem \<Rightarrow> (addr \<Rightarrow> bounds option) \<Rightarrow> bool" where
  "mem_ok c bs m sl \<longleftrightarrow> (\<forall>a b. sl a = Some b \<longrightarrow> slot_ok c bs m a b)"

definition in_objects :: "bounds set \<Rightarrow> addr \<Rightarrow> bool" where
  "in_objects bs a \<longleftrightarrow> (\<exists>b \<in> bs. admits b a)"

definition prog_ok :: "config \<Rightarrow> 'w program \<Rightarrow> bool" where
  "prog_ok c s \<longleftrightarrow> env_ok c (objects s) (locals s)
     \<and> (\<forall>f \<in> set (frames s). env_ok c (objects s) (fst f))
     \<and> mem_ok c (objects s) (memory (lib s)) (slots s)
     \<and> (\<forall>a \<in> accessed s. in_objects (objects s) a)"

lemma program_configD:
  assumes "program_config c"
  shows "split_config c" "has_shadow_space c" "stack_config c" "traps_on c" "long_config c"
    "\<not> no_shadow_space c"
  using assms split_traps by (auto simp: program_config_def stack_config_def has_shadow_space_def)

lemma shipped_program_configs:
  "\<forall>c \<in> set [config_m, config_M, config_p, config_P, config_t]. program_config c"
  using shipped_split
  by (simp add: program_config_def has_shadow_space_def stack_config_def long_config_def
      bounds_stack_off_def config_defs)

lemma env_ok_upd: "env_ok c bs e \<Longrightarrow> ptr_ok c bs v \<Longrightarrow> env_ok c bs (e(x \<mapsto> v))"
  by (auto simp: env_ok_def ran_def)

lemma env_okD: "env_ok c bs e \<Longrightarrow> e x = Some v \<Longrightarrow> ptr_ok c bs v"
  unfolding env_ok_def ran_def by blast

lemma ptr_okD:
  assumes "ptr_ok c bs (p, b)"
  shows "b \<in> bs" "object_bounds c b" "safe_ptr c b p" "user_bounds b" "representable c b"
    "bnd_size b \<noteq> 0"
  using assms by (auto simp: ptr_ok_def object_bounds_def user_bounds_def)

lemma ptr_ok_mono: "bs \<subseteq> bs' \<Longrightarrow> ptr_ok c bs v \<Longrightarrow> ptr_ok c bs' v"
  by (auto simp: ptr_ok_def)

lemma env_ok_mono: "bs \<subseteq> bs' \<Longrightarrow> env_ok c bs e \<Longrightarrow> env_ok c bs' e"
  using ptr_ok_mono by (auto simp: env_ok_def)

lemma mem_ok_mono: "bs \<subseteq> bs' \<Longrightarrow> mem_ok c bs m sl \<Longrightarrow> mem_ok c bs' m sl"
  using ptr_ok_mono unfolding mem_ok_def slot_ok_def by blast

lemma in_objects_mono: "bs \<subseteq> bs' \<Longrightarrow> in_objects bs a \<Longrightarrow> in_objects bs' a"
  by (auto simp: in_objects_def)

text \<open>A pointer that does not trap is inside its object.\<close>

lemma untagged_admitted:
  assumes "ptr_ok c bs (p, b)" "\<not> libcrunch_is_trap_ptr c p"
  shows "admits b p"
  using safe_untagged_admits[OF ptr_okD(4)[OF assms(1)] assms(2)] ptr_okD(3)[OF assms(1)] by simp

lemma untagged_in_objects:
  "ptr_ok c bs (p, b) \<Longrightarrow> \<not> libcrunch_is_trap_ptr c p \<Longrightarrow> in_objects bs p"
  using untagged_admitted ptr_okD(1) unfolding in_objects_def by blast

lemma ptr_ok_nonnull:
  assumes "ptr_ok c bs (p, b)"
  shows "p \<noteq> 0"
proof
  assume p: "p = 0"
  have "\<not> libcrunch_is_trap_ptr c 0" by (simp add: user_ptr_def)
  then have "verdict_of b 0 = InBounds" using ptr_okD(3)[OF assms] p by (simp add: safe_ptr_def)
  moreover have "unat (bnd_base b) \<noteq> 0"
    using ptr_okD(2)[OF assms] by (simp add: object_bounds_def unat_eq_zero)
  ultimately show False by (simp add: verdict_of_def split: if_split_asm)
qed


subsection \<open>Memory outside the bytes that a step writes\<close>

lemma slot_ok_cong:
  assumes "program_config c" "slot_ok c bs m a b" "load64 m' a = load64 m a"
    and "load64 m' (libcrunch_base_stored_loc a) = load64 m (libcrunch_base_stored_loc a)"
    and "load32 m' (libcrunch_size_stored_loc a) = load32 m (libcrunch_size_stored_loc a)"
  shows "slot_ok c bs m' a b"
  using assms program_configD(2)[OF assms(1)] by (auto simp: slot_ok_def fetch_unfold shadow_slot_def)

lemma slot_ok_outside:
  assumes "program_config c" "slot_ok c bs m a b" "same_outside r n m m'"
    and "within_region user_slots r n" "ranges_disjoint a 8 r n"
  shows "slot_ok c bs m' a b"
proof -
  have a: "shadow_slot a" using assms(2) by (simp add: slot_ok_def)
  have "ranges_disjoint (libcrunch_base_stored_loc a) 8 r n"
    "ranges_disjoint (libcrunch_size_stored_loc a) 4 r n"
    using within_disjoint_regions[OF shadow_regions_disjoint(2) assms(4) slot_base_within[OF a]]
      within_disjoint_regions[OF shadow_regions_disjoint(3) assms(4) slot_size_within[OF a]]
      ranges_disjoint_sym by blast+
  then show ?thesis
    using assms(5) same_outside_load[OF assms(3)]
    by (intro slot_ok_cong[OF assms(1,2)]) (simp_all add: load64_def load32_def)
qed

lemma mem_ok_outside:
  assumes "program_config c" "mem_ok c bs m sl" "same_outside r n m m'" "within_region user_slots r n"
    and "\<forall>a \<in> dom sl. ranges_disjoint a 8 r n"
  shows "mem_ok c bs m' sl"
  using assms slot_ok_outside unfolding mem_ok_def by blast

text \<open>Storing a pointer: the slot takes the new bounds, the other slots keep theirs.\<close>

lemma slot_ok_stored:
  assumes "program_config c" "shadow_slot d" "t \<noteq> 0" "ptr_ok c bs (p, b)"
  shows "slot_ok c bs (shadow_store_bounds_for c (store64 m d p) d b t) d b"
  using assms(2,4) data_unchanged[OF assms(2,2)] ptr_okD(5)[OF assms(4)]
    fetch_store_same[OF program_configD(2)[OF assms(1)] _ assms(3,2)]
  by (simp add: slot_ok_def mem_simps)

lemma slot_ok_store_other:
  assumes "program_config c" "slot_ok c bs m a b'" "shadow_slot d" "a \<noteq> d"
  shows "slot_ok c bs (shadow_store_bounds_for c (store64 m d p) d b t) a b'"
proof -
  have a: "shadow_slot a" using assms(2) by (simp add: slot_ok_def)
  have dis: "ranges_disjoint a 8 d 8" "ranges_disjoint (libcrunch_base_stored_loc a) 8 d 8"
    "ranges_disjoint (libcrunch_size_stored_loc a) 4 d 8"
    using distinct_slots_disjoint(3)[OF a assms(3,4)] slots_disjoint(2,3)[OF assms(3) a]
      ranges_disjoint_sym by blast+
  have "slot_ok c bs (store64 m d p) a b'"
    using dis by (intro slot_ok_cong[OF assms(1,2)]) (simp_all add: mem_simps)
  then show ?thesis
    using data_unchanged[OF a assms(3)]
      fetch_store_other[OF program_configD(2)[OF assms(1)] _ assms(3) a] assms(4)
    by (simp add: slot_ok_def)
qed

text \<open>The bytes of an object are user memory.\<close>

lemma admitted_within:
  assumes "object_bounds c b" "admits b a"
  shows "within_region user_slots a 1"
proof -
  have "within_region user_slots (bnd_base b) (unat (bnd_size b))"
    using assms(1) by (simp add: object_bounds_def)
  moreover have "unat (bnd_base b) \<le> unat a \<and> unat a < unat (bnd_base b) + unat (bnd_size b)"
    using assms verdict_sub(1)[of b a]
    by (auto simp: object_bounds_def admits_def austin_def verdict_of_def split: if_split_asm)
  ultimately obtain lo hi where "(lo, hi) \<in> set user_slots" "unat lo \<le> unat a" "unat a + 1 \<le> unat hi"
    by (auto simp: within_region_def)
  then show ?thesis by (auto simp: within_region_def)
qed

lemma fun_upd_same_outside: "same_outside a 1 m (m(a := v))"
  by (auto simp: same_outside_def)


subsection \<open>The bounds stack only writes its own bytes\<close>

lemma same_outside_pushes:
  assumes "stack_config c" "16 * length bs < 2 ^ 63"
  shows "bounds_sp (foldr (push_bounds c) bs st) = bounds_sp st - of_nat (16 * length bs)
    \<and> same_outside (bounds_sp st - of_nat (16 * length bs)) (16 * length bs)
        (memory st) (memory (foldr (push_bounds c) bs st))"
  using assms(2)
proof (induction bs)
  case Nil
  then show ?case by (simp add: same_outside_def)
next
  case (Cons b bs)
  let ?r = "bounds_sp st - of_nat (16 * length bs)" and ?s = "foldr (push_bounds c) bs st"
  have IH: "bounds_sp ?s = ?r" "same_outside ?r (16 * length bs) (memory st) (memory ?s)"
    using Cons by simp_all
  have "same_outside (?r - of_nat 16) (16 * length bs + 16) (memory st)
      (memcpy_bounds_to c (memory ?s) (?r - of_nat 16) b)"
    using Cons.prems by (intro same_outside_trans[OF IH(2) same_outside_memcpy[OF assms(1)]]) simp
  moreover have "?r - of_nat 16 = bounds_sp st - of_nat (16 * length (b # bs))"
    by (simp add: algebra_simps)
  moreover have "16 * length bs + 16 = 16 * length (b # bs)" by simp
  moreover have "foldr (push_bounds c) (b # bs) st = ?s\<lparr> bounds_sp := ?r - of_nat 16,
      memory := memcpy_bounds_to c (memory ?s) (?r - of_nat 16) b \<rparr>"
    using push_bounds_unfold[OF assms(1), of b ?s] IH(1) by simp
  ultimately show ?case by (simp add: algebra_simps)
qed

lemma tweak_memory:
  assumes "stack_config c" "tweak_argument_bounds_cookie c callee st = (ok, st')"
  shows "same_outside (bounds_sp st) 8 (memory st) (memory st')"
  using assms same_outside_store64
  by (auto simp: tweak_argument_bounds_cookie_def stack_config_def same_outside_def split: if_split_asm)

lemma enter_callee_spec:
  assumes "stack_config c" "16 * length args + 8 < 2 ^ 32" "unat callee < 2 ^ 47"
    and "enter_callee c callee args st = (params, st')"
  shows "params = args"
    and "same_outside (bounds_sp st - of_nat (16 * length args + 8)) (16 * length args + 8)
           (memory st) (memory st')"
proof -
  let ?bs = "map snd args" and ?n = "16 * length args"
  define st1 where "st1 = foldr (push_local_argument_bounds c) ?bs st"
  define st2 where "st2 = push_argument_bounds_cookie c callee st1"
  obtain ok st3 where t: "tweak_argument_bounds_cookie c callee st2 = (ok, st3)" by force
  have e: "params = map (\<lambda>i. (fst (args ! i), peek_argument_bounds c ok (of_nat i) (fst (args ! i)) st3))
      [0..<length args]" "st' = st3"
    using assms(4) t by (auto simp: enter_callee_def st1_def st2_def)
  have "peek_argument_bounds c ok (of_nat i) p st3 = snd (args ! i)" if "i < length args" for i p
    using call_convention[OF assms(1) _ assms(3), of ?bs p st] t that assms(2)
    by (auto simp: st1_def st2_def)
  then show "params = args" using e(1) by (auto intro: nth_equalityI)
  have s1: "bounds_sp st1 = bounds_sp st - of_nat ?n"
    "same_outside (bounds_sp st1) ?n (memory st) (memory st1)"
    using same_outside_pushes[OF assms(1), of ?bs st] assms(2)
    by (simp_all add: st1_def foldr_push_local[OF assms(1)])
  have "same_outside (bounds_sp st1 - of_nat 8) 8 (memory st1) (memory st3)"
    using tweak_memory[OF assms(1) t] same_outside_store64[of "bounds_sp st1 - 8" "memory st1" callee]
    by (simp add: st2_def push_cookie_unfold[OF assms(1)] same_outside_def)
  from same_outside_trans[OF s1(2) this] assms(2) s1(1) e(2)
  show "same_outside (bounds_sp st - of_nat (?n + 8)) (?n + 8) (memory st) (memory st')"
    by (simp add: algebra_simps)
qed

lemma leave_callee_spec:
  assumes "stack_config c" "leave_callee c sp r st = (r', st')"
  shows "r' = r" "same_outside (bounds_sp st - 16) 16 (memory st) (memory st')"
    "bounds_sp st' = sp"
  using assms stack_configD[OF assms(1)] same_outside_memcpy[OF assms(1)]
  by (auto simp: leave_callee_def Let_def push_local_result_bounds_def peek_result_bounds_def
      push_bounds_unfold memcpy_roundtrip cleanup_bounds_stack_def prod_eq_iff)


subsection \<open>The library leaves memory alone\<close>

lemma store_returns:
  "bnd_size b \<noteq> 0 \<Longrightarrow> \<exists>st'. store_pointer_nonlocal c rt d p b t st = Inr st'"
  by (simp add: store_pointer_nonlocal_def bounds_for_store_def libcrunch_bounds_invalid_def Let_def)

text \<open>What a derivation of a typed state can end in.\<close>

definition derivation_outcome :: "config \<Rightarrow> bounds \<Rightarrow> addr \<Rightarrow> addr \<Rightarrow> 'a outcome \<Rightarrow> bool" where
  "derivation_outcome c b d p r \<longleftrightarrow>
     (if verdict_of b d = InBounds \<and> libcrunch_is_trap_ptr c p then r = Inl Unreachable
      else if verdict_of b d \<noteq> InBounds \<and> verdict_of b (libcrunch_detrap c d) = OutOfBounds
        \<and> abort_on_invalid_derive c then r = Inl Aborted
      else \<exists>v. r = Inr v)"

text \<open>
  What the program relies on when a check fails: the report does not write to memory, and it
  returns in the states in which the library is ready.
\<close>

locale error_reporter =
  fixes rt :: "'w runtime"
    and ready :: "'w crunch \<Rightarrow> bool"
  assumes report_keeps_memory:
    "rt_bounds_error rt pc derived derivedfrom b st = Inr st' \<Longrightarrow> memory st' = memory st"
    and report_returns: "ready st \<Longrightarrow> \<exists>st'. rt_bounds_error rt pc derived derivedfrom b st = Inr st'"
begin

lemma derive_spec:
  assumes "program_config c" "user_bounds b"
    and "full_check_derive_ptr c rt pc d p b t st = Inr ((ok, q, b'), st')"
  shows "b' = b" "safe_ptr c b q \<longleftrightarrow> \<not> retags c b d" "memory st' = memory st"
proof -
  note sc = program_configD(1)[OF assms(1)]
  show "b' = b" "safe_ptr c b q \<longleftrightarrow> \<not> retags c b d" by (rule derived_safe_iff[OF sc assms(2,3)])+
  show "memory st' = memory st"
    using assms(3) report_keeps_memory unfolding split_verdict[OF sc assms(2)]
    by (cases "verdict_of b d = InBounds"; cases "verdict_of b (libcrunch_detrap c d)")
      (auto split: if_split_asm)
qed

lemma store_spec:
  assumes "program_config c" "ptr_ok c bs (p, b)" "mem_ok c bs (memory st) sl" "shadow_slot d" "t \<noteq> 0"
    and "store_pointer_nonlocal c rt d p b t (st\<lparr> memory := store64 (memory st) d p \<rparr>) = Inr st'"
  shows "mem_ok c bs (memory st') (sl(d \<mapsto> b))"
proof -
  have "memory st' = shadow_store_bounds_for c (store64 (memory st) d p) d b t"
    using assms(6) program_configD(6)[OF assms(1)] ptr_okD(6)[OF assms(2)]
    by (auto simp: store_pointer_nonlocal_def bounds_for_store_def libcrunch_bounds_invalid_def
        count_ptr_store_def Let_def split: if_split_asm)
  then show ?thesis
    using assms(3) slot_ok_stored[OF assms(1,4,5,2)] slot_ok_store_other[OF assms(1) _ assms(4)]
    by (simp add: mem_ok_def)
qed

lemma load_spec:
  assumes "program_config c" "mem_ok c bs (memory st) sl" "sl d = Some b" "t \<noteq> 0"
  shows "fetch_bounds_full c rt (load64 (memory st) d) q d t st = Inr (b, st)"
    and "ptr_ok c bs (load64 (memory st) d, b)"
proof -
  have s: "slot_ok c bs (memory st) d b" using assms(2,3) by (simp add: mem_ok_def)
  then show p: "ptr_ok c bs (load64 (memory st) d, b)" by (simp add: slot_ok_def)
  show "fetch_bounds_full c rt (load64 (memory st) d) q d t st = Inr (b, st)"
    using s assms(4) ptr_ok_nonnull[OF p] ptr_okD(6)[OF p]
    by (simp add: fetch_bounds_full_def fetch_bounds_inl_def slot_ok_def libcrunch_bounds_invalid_def)
qed

lemma write_spec:
  assumes "program_config c" "ptr_ok c bs (d, bz)" "\<not> libcrunch_is_trap_ptr c d" "mem_ok c bs m sl"
  shows "mem_ok c bs (m(d := v)) (sl |` {a. ranges_disjoint a 8 d 1})"
proof (rule mem_ok_outside[OF assms(1) _ fun_upd_same_outside])
  show "mem_ok c bs m (sl |` {a. ranges_disjoint a 8 d 1})"
    using assms(4) by (simp add: mem_ok_def restrict_map_def)
  show "within_region user_slots d 1"
    using admitted_within[OF ptr_okD(2)[OF assms(2)] untagged_admitted[OF assms(2,3)]] .
qed (simp add: restrict_map_def dom_def)

lemma store_step:
  assumes "program_config c" "prog_ok c s" "locals s z = Some (d, bz)" "\<not> libcrunch_is_trap_ptr c d"
    and "shadow_slot d" "locals s y = Some (p, b)" "t \<noteq> 0"
    and "store_pointer_nonlocal c rt d p b t ((lib s)\<lparr> memory := store64 (memory (lib s)) d p \<rparr>) = Inr st'"
  shows "prog_ok c (s\<lparr> slots := (slots s)(d \<mapsto> b), accessed := insert d (accessed s), lib := st' \<rparr>)"
proof -
  have "ptr_ok c (objects s) (d, bz)" "ptr_ok c (objects s) (p, b)"
    "mem_ok c (objects s) (memory (lib s)) (slots s)"
    using assms(2,3,6) by (auto simp: prog_ok_def dest: env_okD)
  from store_spec[OF assms(1) this(2,3) assms(5,7,8)] untagged_in_objects[OF this(1) assms(4)]
    assms(2)
  show ?thesis by (auto simp: prog_ok_def)
qed

lemma load_step:
  assumes "program_config c" "prog_ok c s" "locals s z = Some (d, bz)" "\<not> libcrunch_is_trap_ptr c d"
    and "d \<in> dom (slots s)" "p = load64 (memory (lib s)) d" "t \<noteq> 0"
    and "fetch_bounds_full c rt p p d t (lib s) = Inr (b, st')"
  shows "prog_ok c (s\<lparr> locals := (locals s)(x \<mapsto> (p, b)), accessed := insert d (accessed s), lib := st' \<rparr>)"
proof -
  obtain b0 where b0: "slots s d = Some b0" using assms(5) by blast
  have d: "ptr_ok c (objects s) (d, bz)" and m: "mem_ok c (objects s) (memory (lib s)) (slots s)"
    using assms(2,3) by (auto simp: prog_ok_def dest: env_okD)
  from load_spec[OF assms(1) m b0 assms(7)] untagged_in_objects[OF d assms(4)] assms(2,6,8)
  show ?thesis by (auto simp: prog_ok_def intro!: env_ok_upd)
qed

lemma call_step:
  assumes "program_config c" "prog_ok c s" "list_all2 (\<lambda>y v. locals s y = Some v) ys args"
    and "length xs = length args" "stack_room (16 * length args + 8) s" "unat callee < 2 ^ 47"
    and "enter_callee c callee args (lib s) = (params, st')"
  shows "prog_ok c (s\<lparr> locals := map_of (zip xs params),
    frames := (locals s, bounds_sp (lib s)) # frames s, lib := st' \<rparr>)"
proof -
  note room = assms(5)[unfolded stack_room_def]
  from enter_callee_spec[OF program_configD(3)[OF assms(1)] _ assms(6,7)] room
  have p: "params = args" and m: "same_outside (bounds_sp (lib s) - of_nat (16 * length args + 8))
      (16 * length args + 8) (memory (lib s)) (memory st')" by auto
  have "env_ok c (objects s) (map_of (zip xs params))"
    using assms(2,3,4) p by (auto simp: env_ok_def prog_ok_def ran_def list_all2_conv_all_nth
        in_set_zip dest!: map_of_SomeD) metis
  moreover have "mem_ok c (objects s) (memory st') (slots s)"
    using mem_ok_outside[OF assms(1) _ m] room assms(2) by (auto simp: prog_ok_def)
  ultimately show ?thesis using assms(2) by (auto simp: prog_ok_def)
qed

lemma return_step:
  assumes "program_config c" "prog_ok c s" "frames s = (saved, sp) # fs" "locals s y = Some r"
    and "stack_room 16 s" "leave_callee c sp r (lib s) = (r', st')"
  shows "prog_ok c (s\<lparr> locals := saved(x \<mapsto> r'), frames := fs, lib := st' \<rparr>)"
proof -
  note room = assms(5)[unfolded stack_room_def]
  from leave_callee_spec[OF program_configD(3)[OF assms(1)] assms(6)]
  have r: "r' = r" and m: "same_outside (bounds_sp (lib s) - of_nat 16) 16 (memory (lib s)) (memory st')"
    by simp_all
  have "mem_ok c (objects s) (memory st') (slots s)"
    using mem_ok_outside[OF assms(1) _ m] room assms(2) by (auto simp: prog_ok_def)
  then show ?thesis
    using assms(2-4) r by (auto simp: prog_ok_def intro!: env_ok_upd dest: env_okD)
qed

text \<open>A derivation keeps the typing exactly if it is not one of those that strip a tag.\<close>

lemma derive_step:
  assumes "program_config c" "prog_ok c s" "locals s y = Some (p, b)"
    and "full_check_derive_ptr c rt pc (p + i) p b t (lib s) = Inr ((ok, q, b'), st')"
  shows "prog_ok c (s\<lparr> locals := (locals s)(x \<mapsto> (q, b')), derivations := (b, p + i) # derivations s,
      lib := st' \<rparr>) \<longleftrightarrow> \<not> retags c b (p + i)" (is "prog_ok c ?s' \<longleftrightarrow> _")
proof -
  have k: "ptr_ok c (objects s) (p, b)" using assms(2,3) by (auto simp: prog_ok_def dest: env_okD)
  note d = derive_spec[OF assms(1) ptr_okD(4)[OF k] assms(4)]
  have q: "ptr_ok c (objects s) (q, b') \<longleftrightarrow> \<not> retags c b (p + i)"
    using ptr_okD(1,2)[OF k] d(1,2) by (simp add: ptr_ok_def)
  moreover have "prog_ok c ?s' \<longleftrightarrow> ptr_ok c (objects s) (q, b')"
    using assms(2) d(3) by (auto simp: prog_ok_def intro!: env_ok_upd dest: env_okD[of _ _ _ x])
  ultimately show ?thesis by simp
qed

lemma step_preserves:
  assumes "program_config c" "prog_step c rt s s'" "prog_ok c s"
  shows "prog_ok c s' \<longleftrightarrow> \<not> strips_tag c s s'"
  using assms(2)
proof (cases rule: prog_step.cases)
  case (new_object b x)
  let ?bs = "insert b (objects s)"
  have ok: "ptr_ok c ?bs (bnd_base b, b)"
    using new_object(2) by (auto simp: ptr_ok_def object_bounds_def safe_ptr_def
        user_bounds_def verdict_of_def unat_gt_0)
  have "objects s \<subseteq> ?bs" by blast
  from env_ok_mono[OF this] mem_ok_mono[OF this] in_objects_mono[OF this] ok assms(3)
  show ?thesis unfolding new_object(1) by (auto simp: prog_ok_def strips_tag_simps intro!: env_ok_upd)
next
  case (assign y v x)
  then show ?thesis
    using assms(3) by (auto simp: prog_ok_def strips_tag_simps intro!: env_ok_upd dest: env_okD)
next
  case (derive y p b pc i t ok q b' st' x)
  then show ?thesis using derive_step[OF assms(1,3) derive(2,3), of x] by (simp add: strips_tag_simps)
next
  case (store_ptr z d bz y p b t st')
  show ?thesis
    using store_step[OF assms(1,3) store_ptr(2-7)] unfolding store_ptr(1) by (simp add: strips_tag_simps)
next
  case (load_ptr z d bz p t b st' x)
  show ?thesis
    using load_step[OF assms(1,3) load_ptr(2-7)] unfolding load_ptr(1) by (simp add: strips_tag_simps)
next
  case (read_byte z d bz)
  have "ptr_ok c (objects s) (d, bz)" using read_byte(2) assms(3) by (auto simp: prog_ok_def dest: env_okD)
  from untagged_in_objects[OF this read_byte(3)] assms(3)
  show ?thesis unfolding read_byte(1) by (simp add: prog_ok_def strips_tag_simps)
next
  case (write_byte z d bz v)
  have "ptr_ok c (objects s) (d, bz)" "mem_ok c (objects s) (memory (lib s)) (slots s)"
    using write_byte(2) assms(3) by (auto simp: prog_ok_def dest: env_okD)
  from write_spec[OF assms(1) this(1) write_byte(3) this(2)] untagged_in_objects[OF this(1) write_byte(3)]
    assms(3)
  show ?thesis unfolding write_byte(1) by (auto simp: prog_ok_def strips_tag_simps)
next
  case (call ys args xs callee params st')
  show ?thesis using call_step[OF assms(1,3) call(2-6)] unfolding call(1) by (simp add: strips_tag_simps)
next
  case (return saved sp fs y r r' st' x)
  show ?thesis
    using return_step[OF assms(1,3) return(2-5)] unfolding return(1) by (simp add: strips_tag_simps)
qed

text \<open>Derivations are only added, so a clean run was clean all the way.\<close>

lemma clean_step:
  assumes "prog_step c rt s s'"
  shows "clean c s' \<longleftrightarrow> clean c s \<and> \<not> strips_tag c s s'"
  using assms by (cases rule: prog_step.cases) (auto simp: clean_def strips_tag_simps)

lemma reachable_ok:
  assumes "program_config c" "prog_reachable c rt st s" "clean c s"
  shows "prog_ok c s"
  using assms(2,3) unfolding prog_reachable_def
proof (induction rule: rtranclp_induct)
  case base
  then show ?case by (simp add: initial_program_def prog_ok_def env_ok_def mem_ok_def)
next
  case (step s s')
  have "clean c s" "\<not> strips_tag c s s'"
    using clean_step[OF step(2)] step(4) by blast+
  then show ?case using step_preserves[OF assms(1) step(2)] step(3) by blast
qed

lemma operations_return:
  assumes "program_config c" "prog_ok c s" "t \<noteq> 0"
  shows "slots s d = Some b \<Longrightarrow>
      fetch_bounds_full c rt (load64 (memory (lib s)) d) q d t (lib s) = Inr (b, lib s)"
    and "locals s y = Some (p, b) \<Longrightarrow> \<exists>st'. store_pointer_nonlocal c rt d p b t st1 = Inr st'"
    and "locals s y = Some (p, b) \<Longrightarrow> ready (lib s) \<Longrightarrow>
      derivation_outcome c b (p + i) p (full_check_derive_ptr c rt pc (p + i) p b t (lib s))"
proof -
  have m: "mem_ok c (objects s) (memory (lib s)) (slots s)" using assms(2) by (simp add: prog_ok_def)
  note cc = program_configD[OF assms(1)]
  show "fetch_bounds_full c rt (load64 (memory (lib s)) d) q d t (lib s) = Inr (b, lib s)"
    if "slots s d = Some b"
    using load_spec(1)[OF assms(1) m that assms(3)] .
  have k: "ptr_ok c (objects s) (p, b)" if "locals s y = Some (p, b)"
    using assms(2) that by (auto simp: prog_ok_def dest: env_okD)
  show "\<exists>st'. store_pointer_nonlocal c rt d p b t st1 = Inr st'" if "locals s y = Some (p, b)"
    using store_returns[OF ptr_okD(6)[OF k[OF that]]] .
  assume y: "locals s y = Some (p, b)" and r: "ready (lib s)"
  from report_returns[OF r, of pc "p + i" p b]
  show "derivation_outcome c b (p + i) p (full_check_derive_ptr c rt pc (p + i) p b t (lib s))"
    unfolding split_verdict[OF cc(1) ptr_okD(4)[OF k[OF y]]] derivation_outcome_def
    by (cases "verdict_of b (p + i) = InBounds"; cases "verdict_of b (libcrunch_detrap c (p + i))") auto
qed

end


subsection \<open>Both libraries report that way\<close>

lemma load_suppression_words_memory:
  "load_suppression_words ws st = Inr (ss, st') \<Longrightarrow> memory st' = memory st"
  by (induction ws arbitrary: st ss) (auto simp: debug_println_def split: if_split_asm)

lemma load_suppressions_memory: "load_suppressions e st = Inr st' \<Longrightarrow> memory st' = memory st"
  by (auto simp: load_suppressions_def dest: load_suppression_words_memory split: option.splits)

lemma global_init_memory: "libcrunch_global_init la st = Inr (n, st') \<Longrightarrow> memory st' = memory st"
proof -
  assume a: "libcrunch_global_init la st = Inr (n, st')"
  let ?st = "st\<lparr> tried_to_initialize := True, world := ensure_init la (world st) \<rparr>"
  show ?thesis
  proof (cases "is_initialized st \<or> tried_to_initialize st")
    case True
    then show ?thesis using a by (auto simp: libcrunch_global_init_def split: if_split_asm)
  next
    case False
    with a obtain st3 where "load_suppressions (getenv la ''LIBCRUNCH_SUPPRESSIONS'') ?st = Inr st3"
        "memory st' = memory st3"
      by (auto simp: libcrunch_global_init_def Let_def clear_mem_refbits_def install_segv_handler_def
          debug_println_def split: if_split_asm)
    then show ?thesis using load_suppressions_memory[of _ ?st] by simp
  qed
qed

lemma check_init_memory: "check_init la st = Inr st' \<Longrightarrow> memory st' = memory st"
  by (auto simp: check_init_def libcrunch_check_init_def config_defs dest: global_init_memory
      split: if_split_asm)

lemma report_failure_memory: "memory (report_failure site k f st) = memory st"
  by (simp add: report_failure_def report_repeat_failure_summary_def debug_println_def Let_def)

lemma should_report_memory:
  "should_report_failure_at la site t a st = Inr (yes, st') \<Longrightarrow> memory st' = memory st"
  by (auto simp: should_report_failure_at_def is_suppressed_def split: if_split_asm option.splits)

lemma report_memory:
  "report_failure_if_necessary la site k f t a st = Inr st' \<Longrightarrow> memory st' = memory st"
  by (auto simp: report_failure_if_necessary_def report_failure_memory dest!: should_report_memory
      split: if_split_asm)

text \<open>A report without a type is never matched against a pattern, so no suppression stops it.\<close>

lemma find_suppression_no_type: "find_suppression la ss None site at = Inr False"
  by (induction ss) (simp_all add: suppression_matches_def prefix_pattern_matches_def)

lemma untyped_not_suppressed: "is_suppressed la 0 site a st = Inr (False, st)"
  by (simp add: is_suppressed_def typestr_of_def find_suppression_no_type split: option.splits)

lemma untyped_report_returns: "\<exists>st'. report_failure_if_necessary la site k f 0 a st = Inr st'"
  by (simp add: report_failure_if_necessary_def should_report_failure_at_def untyped_not_suppressed
      del: omap_eq_Inr obind_eq_Inr)

interpretation real_reporter: error_reporter "real_runtime c la" is_initialized
  for c and la :: "'w liballocs"
proof
  fix pc derived derivedfrom b and st st' :: "'w crunch"
  assume "rt_bounds_error (real_runtime c la) pc derived derivedfrom b st = Inr st'"
  then show "memory st' = memory st"
    by (auto simp: real_runtime_def libcrunch_bounds_error_def libcrunch_bounds_error_at_def
        dest!: check_init_memory report_memory)
next
  fix pc derived derivedfrom b and st :: "'w crunch"
  assume "is_initialized st"
  then show "\<exists>st'. rt_bounds_error (real_runtime c la) pc derived derivedfrom b st = Inr st'"
    using untyped_report_returns[of la pc DERIVED_PTR_VALID 0 0 st]
    by (auto simp: real_runtime_def libcrunch_bounds_error_def libcrunch_bounds_error_at_def
        check_init_done)
qed

interpretation stub_reporter: error_reporter "stub_runtime c" "\<lambda>st. True" for c
  by unfold_locales (simp_all add: stub_runtime_def stub_bounds_error_def)


subsection \<open>Whole programs\<close>

text \<open>A run of three steps: an object, a pointer into its middle, and that pointer stored to its start.\<close>

abbreviation (input) ex_bounds :: bounds where "ex_bounds \<equiv> \<lparr> bnd_base = 0x1000, bnd_size = 40 \<rparr>"

lemma ex_object: "object_bounds config_m ex_bounds"
  by (simp add: object_bounds_def user_bounds_def representable_def size_survives_def config_defs
      bounds_defs within_region_def user_slots_def)

lemma ex_slot: "shadow_slot 0x1000"
  by (simp add: shadow_slot_def in_regions_def user_ranges_def unshadowed_gaps_def)

lemma ex_program_config: "program_config config_m"
  using shipped_program_configs by simp

lemma ex_traps: "traps_on config_m"
  by (rule program_configD(4)[OF ex_program_config])

text \<open>One derivation from a new object, with any library: inside, and one past the end.\<close>

lemma ex_derive:
  assumes "unat i < 40 \<and> q = 0x1000 + i \<or> i = 40 \<and> q = libcrunch_trap config_m 0x1028 TRAP_ONE_PAST"
  shows "prog_reachable config_m rt st ((initial_program st)\<lparr>
      locals := [''x'' \<mapsto> (0x1000, ex_bounds), ''y'' \<mapsto> (q, ex_bounds)], objects := {ex_bounds},
      derivations := [(ex_bounds, 0x1000 + i)] \<rparr>)" (is "prog_reachable _ _ _ ?s2")
proof -
  let ?s0 = "initial_program st"
  let ?s1 = "?s0\<lparr> locals := (locals ?s0)(''x'' \<mapsto> (bnd_base ex_bounds, ex_bounds)),
    objects := insert ex_bounds (objects ?s0) \<rparr>"
  have 1: "prog_step config_m rt ?s0 ?s1" by (rule prog_step.new_object[OF ex_object])
  have i: "unat (0x1000 + i) = 0x1000 + unat i" using assms by (subst unat_add_nowrap) auto
  have u: "user_bounds ex_bounds" "user_ptr (0x1000 + i)" "user_ptr 0x1000"
    using assms by (auto simp: user_bounds_def user_ptr_def i)
  have "full_check_derive_ptr config_m rt 0 (0x1000 + i) 0x1000 ex_bounds ex_int (lib ?s1)
      = Inr ((True, q, ex_bounds), lib ?s1)"
    using split_untagged[OF program_configD(1)[OF ex_program_config] u, of rt 0 ex_int "lib ?s1"] assms
    by (auto simp: verdict_of_def i)
  from prog_step.derive[of _ "''x''", OF _ this, of "''y''"]
  have "prog_step config_m rt ?s1 ?s2" by (simp add: initial_program_def)
  with 1 show ?thesis
    unfolding prog_reachable_def by (meson rtranclp.rtrancl_refl rtranclp.rtrancl_into_rtrancl)
qed

lemma ex_clean:
  assumes "unat i < 40 \<or> i = 40" "derivations s = [(ex_bounds, 0x1000 + i)]"
  shows "clean config_m s"
proof -
  have "unat (0x1000 + i) = 0x1000 + unat i" using assms(1) by (subst unat_add_nowrap) auto
  then have "user_ptr (0x1000 + i)" using assms(1) by (auto simp: user_ptr_def)
  then show ?thesis using retags_user(1)[OF ex_traps] assms(2) by (simp add: clean_def)
qed

lemma ex_run:
  "\<exists>s. prog_reachable config_m (stub_runtime config_m) ex_st s \<and> clean config_m s
     \<and> locals s ''x'' = Some (0x1000, ex_bounds) \<and> locals s ''y'' = Some (0x1008, ex_bounds)
     \<and> slots s 0x1000 = Some ex_bounds \<and> accessed s = {0x1000} \<and> objects s = {ex_bounds}"
proof -
  let ?rt = "stub_runtime config_m :: ex_world runtime"
  let ?s2 = "(initial_program ex_st)\<lparr>
      locals := [''x'' \<mapsto> (0x1000, ex_bounds), ''y'' \<mapsto> (0x1008, ex_bounds)], objects := {ex_bounds},
      derivations := [(ex_bounds, 0x1000 + 8)] \<rparr>"
  have 2: "prog_reachable config_m ?rt ex_st ?s2" by (rule ex_derive) simp
  obtain st3 where st3: "store_pointer_nonlocal config_m ?rt 0x1000 0x1008 ex_bounds ex_int
      ((lib ?s2)\<lparr> memory := store64 (memory (lib ?s2)) 0x1000 0x1008 \<rparr>) = Inr st3"
    using store_returns[of ex_bounds] by fastforce
  let ?s3 = "?s2\<lparr> slots := (slots ?s2)(0x1000 \<mapsto> ex_bounds), accessed := insert 0x1000 (accessed ?s2),
    lib := st3 \<rparr>"
  have "\<not> libcrunch_is_trap_ptr config_m 0x1000" by (simp add: user_ptr_def)
  then have 3: "prog_step config_m ?rt ?s2 ?s3"
    by (intro prog_step.store_ptr[where z = "''x''" and y = "''y''", OF _ _ ex_slot _ _ st3]) simp_all
  have "prog_reachable config_m ?rt ex_st ?s3"
    using 2 3 unfolding prog_reachable_def by (rule rtranclp.rtrancl_into_rtrancl)
  moreover have "clean config_m ?s3" by (rule ex_clean[of 8]) simp_all
  ultimately show ?thesis by (intro exI[of _ ?s3]) (simp add: initial_program_def)
qed

text \<open>
  (C1) Instrumented programs are spatially safe as long as no tag is stripped.  The configuration has
  trap pointers, the split path, the shadow space and the bounds stack, and either library is linked.
  The program does any sequence of these steps: it creates an object (a non-null user-space range
  whose bounds the shadow space can represent) and gets a pointer to its start; copies a pointer
  variable; derives a pointer from any pointer, tagged or not, by any offset; stores a pointer to a
  shadowed slot and loads it back from there unless it was overwritten; reads or writes a byte; calls
  and returns, with room on the bounds stack.  Accesses go through pointers without a tag.  If none of
  the derivations met an address that already had the tag which the check toggles on it, the address
  of every access (its first byte, which is what the checks look at) is inside an object of the
  program, and every pointer variable that does not trap is inside the object whose bounds it carries.
\<close>

theorem instrumented_programs_are_spatially_safe:
  assumes "program_config c" "rt = real_runtime c la \<or> rt = stub_runtime c"
    and "prog_reachable c rt st s" "clean c s"
  shows "(\<forall>a \<in> accessed s. \<exists>b \<in> objects s. admits b a)
    \<and> (\<forall>x p b. locals s x = Some (p, b) \<and> \<not> libcrunch_is_trap_ptr c p \<longrightarrow> b \<in> objects s \<and> admits b p)"
proof -
  have ok: "prog_ok c s"
    using assms real_reporter.reachable_ok stub_reporter.reachable_ok by blast
  then have "ptr_ok c (objects s) (p, b)" if "locals s x = Some (p, b)" for x p b
    using that by (auto simp: prog_ok_def dest: env_okD)
  then have "b \<in> objects s \<and> admits b p"
    if "locals s x = Some (p, b)" "\<not> libcrunch_is_trap_ptr c p" for x p b
    using that untagged_admitted ptr_okD(1) by blast
  with ok show ?thesis by (auto simp: prog_ok_def in_objects_def)
qed

theorem instrumented_programs_are_spatially_safe_witness:
  "\<exists>s. prog_reachable config_m (stub_runtime config_m) ex_st s \<and> accessed s = {0x1000}
     \<and> (\<exists>b \<in> objects s. admits b 0x1000)"
proof -
  obtain s where s: "prog_reachable config_m (stub_runtime config_m) ex_st s" "clean config_m s"
      "accessed s = {0x1000}"
    using ex_run by blast
  then show ?thesis
    using instrumented_programs_are_spatially_safe[OF ex_program_config _ s(1,2), of ex_la] by auto
qed

text \<open>
  (C5) Which steps keep the pointer typing.  In a typed state every variable, saved frame and pointer
  slot holds a pointer that is tagged or inside the object its bounds describe, the shadow of every
  slot holds the bounds of the pointer in the slot, and all accesses were inside objects.  Whichever
  library is linked, a step from a typed state leads to a typed state if and only if it is not a
  derivation of an address, out of bounds without its tag, that already carries the tag which the
  check toggles on it.
\<close>

theorem pointer_typing_is_preserved:
  assumes "program_config c" "rt = real_runtime c la \<or> rt = stub_runtime c"
    and "prog_ok c s" "prog_step c rt s s'"
  shows "prog_ok c s' \<longleftrightarrow> \<not> strips_tag c s s'"
  using assms real_reporter.step_preserves stub_reporter.step_preserves by blast

theorem pointer_typing_is_preserved_witness:
  "prog_ok config_m ((initial_program ex_st)\<lparr> locals := (\<lambda>_. None)(''x'' \<mapsto> (0x1000, ex_bounds)),
     objects := {ex_bounds} \<rparr>)"
proof -
  have "prog_ok config_m (initial_program ex_st :: ex_world program)"
    by (simp add: initial_program_def prog_ok_def env_ok_def mem_ok_def)
  from pointer_typing_is_preserved[OF ex_program_config disjI2[OF refl] this
      prog_step.new_object[OF ex_object, of _ _ "''x''"]]
  show ?thesis by (simp add: initial_program_def strips_tag_def)
qed



end
