(* ===== verification/Leonardo_Heaps.thy ===== *)
theory Leonardo_Heaps
  imports Main "HOL-Library.Multiset"
begin

text \<open>
  The algorithm behind \<^verbatim>\<open>frontend/c/shadowprov/qsort.c\<close>, on arrays of elements: Leonardo trees laid out
  in an array, a forest of them given by the list of their orders (rightmost tree first), and the
  operations \<open>sift_elems\<close>, \<open>trinkle_elems\<close> and the two phases of smoothsort in terms of them.  The
  lemmas show that sifting restores the heap property, that trinkling restores the order of the
  roots, and that the two phases sort.  The theory \<open>Smoothsort\<close> shows that the C code, on bytes,
  pointers and a bit vector of orders, implements these operations.  An array is a function from
  indices; only a prefix of it is used.
\<close>

text \<open>The sizes of the trees: the Leonardo numbers.\<close>

fun leo :: "nat \<Rightarrow> nat" where
  "leo 0 = 1"
| "leo (Suc 0) = 1"
| "leo (Suc (Suc k)) = leo k + leo (Suc k) + 1"

text \<open>
  What a comparison function must satisfy: swapping the arguments swaps the sign, and not being
  greater is transitive.
\<close>

definition comparator :: "('e \<Rightarrow> 'e \<Rightarrow> int) \<Rightarrow> bool" where
  "comparator f \<longleftrightarrow> (\<forall>x y. f x y \<ge> 0 \<longleftrightarrow> f y x \<le> 0)
     \<and> (\<forall>x y z. f x y \<le> 0 \<longrightarrow> f y z \<le> 0 \<longrightarrow> f x z \<le> 0)"

text \<open>
  A tree of order \<open>k\<close> with root at \<open>r\<close> occupies the \<open>leo k\<close> places up to \<open>r\<close>: the left subtree, of order
  \<open>k - 1\<close>, then the right one, of order \<open>k - 2\<close>, then the root.
\<close>

definition right_son :: "nat \<Rightarrow> nat" where
  "right_son r = r - 1"

definition left_son :: "nat \<Rightarrow> nat \<Rightarrow> nat" where
  "left_son r k = r - 1 - leo (k - 2)"

fun heap :: "('e \<Rightarrow> 'e \<Rightarrow> int) \<Rightarrow> (nat \<Rightarrow> 'e) \<Rightarrow> nat \<Rightarrow> nat \<Rightarrow> bool" where
  "heap f a r 0 = True"
| "heap f a r (Suc 0) = True"
| "heap f a r (Suc (Suc k)) =
     (f (a (right_son r)) (a r) \<le> 0 \<and> f (a (left_son r (Suc (Suc k)))) (a r) \<le> 0
      \<and> heap f a (right_son r) k \<and> heap f a (left_son r (Suc (Suc k))) (Suc k))"

lemma heap_unfold:
  "heap f a r k \<longleftrightarrow> (k \<le> 1 \<or> (f (a (right_son r)) (a r) \<le> 0 \<and> f (a (left_son r k)) (a r) \<le> 0
     \<and> heap f a (right_son r) (k - 2) \<and> heap f a (left_son r k) (k - 1)))"
  by (cases k rule: leo.cases) simp_all

text \<open>Both subtrees are heaps; the root need not dominate them.\<close>

definition sons_heap :: "('e \<Rightarrow> 'e \<Rightarrow> int) \<Rightarrow> (nat \<Rightarrow> 'e) \<Rightarrow> nat \<Rightarrow> nat \<Rightarrow> bool" where
  "sons_heap f a r k \<longleftrightarrow> k \<le> 1 \<or> (heap f a (right_son r) (k - 2) \<and> heap f a (left_son r k) (k - 1))"

text \<open>Rotation: each place takes the next one's element, the last one takes \<open>v\<close>.\<close>

fun rotate_in :: "'e \<Rightarrow> (nat \<Rightarrow> 'e) \<Rightarrow> nat list \<Rightarrow> nat \<Rightarrow> 'e" where
  "rotate_in v a [] = a"
| "rotate_in v a [i] = a(i := v)"
| "rotate_in v a (i # j # js) = rotate_in v (a(i := a j)) (j # js)"

text \<open>The places that an element \<open>v\<close> sinking from the root \<open>r\<close> passes.\<close>

fun sift_path :: "('e \<Rightarrow> 'e \<Rightarrow> int) \<Rightarrow> (nat \<Rightarrow> 'e) \<Rightarrow> 'e \<Rightarrow> nat \<Rightarrow> nat \<Rightarrow> nat list" where
  "sift_path f a v r k =
     (if k \<le> 1 then []
      else if f v (a (left_son r k)) \<ge> 0 \<and> f v (a (right_son r)) \<ge> 0 then []
      else if f (a (left_son r k)) (a (right_son r)) \<ge> 0
      then left_son r k # sift_path f a v (left_son r k) (k - 1)
      else right_son r # sift_path f a v (right_son r) (k - 2))"

declare sift_path.simps [simp del]

definition sift_elems :: "('e \<Rightarrow> 'e \<Rightarrow> int) \<Rightarrow> (nat \<Rightarrow> 'e) \<Rightarrow> nat \<Rightarrow> nat \<Rightarrow> nat \<Rightarrow> 'e" where
  "sift_elems f a r k = rotate_in (a r) a (r # sift_path f a (a r) r k)"

text \<open>
  The roots that an element \<open>v\<close> at the root \<open>r\<close> of the last tree passes on its way left; the result is
  the path, the tree where it stops and whether that tree is known to be a heap.
\<close>

fun trinkle_path :: "('e \<Rightarrow> 'e \<Rightarrow> int) \<Rightarrow> (nat \<Rightarrow> 'e) \<Rightarrow> 'e \<Rightarrow> nat \<Rightarrow> nat \<Rightarrow> nat list \<Rightarrow> bool \<Rightarrow>
    nat list \<times> nat \<times> nat \<times> bool" where
  "trinkle_path f a v r k [] trusty = ([], r, k, trusty)"
| "trinkle_path f a v r k (k' # ks) trusty =
     (let stepson = r - leo k
      in if f (a stepson) v \<le> 0 then ([], r, k, trusty)
         else if \<not> trusty \<and> k > 1
                \<and> (f (a (right_son r)) (a stepson) \<ge> 0 \<or> f (a (left_son r k)) (a stepson) \<ge> 0)
         then ([], r, k, trusty)
         else case trinkle_path f a v stepson k' ks False of
                (path, r', k1, t) \<Rightarrow> (stepson # path, r', k1, t))"

definition trinkle_elems ::
  "('e \<Rightarrow> 'e \<Rightarrow> int) \<Rightarrow> (nat \<Rightarrow> 'e) \<Rightarrow> nat \<Rightarrow> nat \<Rightarrow> nat list \<Rightarrow> bool \<Rightarrow> nat \<Rightarrow> 'e" where
  "trinkle_elems f a r k ks trusty =
     (case trinkle_path f a (a r) r k ks trusty of
        (path, r', k', t) \<Rightarrow> if t then a else sift_elems f (rotate_in (a r) a (r # path)) r' k')"


subsection \<open>Comparisons and sizes\<close>

lemma comparatorD:
  assumes "comparator f"
  shows "f x y \<ge> 0 \<longleftrightarrow> f y x \<le> 0" "f x y \<le> 0 \<Longrightarrow> f y z \<le> 0 \<Longrightarrow> f x z \<le> 0" "f x y \<le> 0 \<or> f y x \<le> 0"
    "\<not> f x y \<le> 0 \<Longrightarrow> f y x \<le> 0" "f x x \<le> 0"
proof -
  show 1: "f x y \<ge> 0 \<longleftrightarrow> f y x \<le> 0" for x y using assms by (simp add: comparator_def)
  show "f x y \<le> 0 \<Longrightarrow> f y z \<le> 0 \<Longrightarrow> f x z \<le> 0" using assms unfolding comparator_def by blast
  show t: "f x y \<le> 0 \<or> f y x \<le> 0" for x y using 1[of x y] by linarith
  show "\<not> f x y \<le> 0 \<Longrightarrow> f y x \<le> 0" using t by blast
  show "f x x \<le> 0" using t by blast
qed

lemma leo_pos [simp]: "0 < leo k"
  by (induction k rule: leo.induct) simp_all

lemma leo_ge_1 [simp]: "Suc 0 \<le> leo k"
  using leo_pos[of k] by linarith

lemma leo_split: "2 \<le> k \<Longrightarrow> leo k = leo (k - 2) + leo (k - 1) + 1"
  by (cases k rule: leo.cases) simp_all

lemma leo_mono: "j \<le> k \<Longrightarrow> leo j \<le> leo k"
proof (induction k rule: leo.induct)
  case (3 k)
  show ?case
  proof (cases "j \<le> Suc k")
    case True
    then show ?thesis using 3 by simp
  next
    case False
    then have "j = Suc (Suc k)" using 3 by simp
    then show ?thesis by simp
  qed
qed (auto simp: le_Suc_eq)

text \<open>Where the sons of a tree are that starts at \<open>lo\<close>.\<close>

lemma sons_layout:
  assumes "2 \<le> k" "r + 1 = lo + leo k"
  shows "right_son r + 1 = (lo + leo (k - 1)) + leo (k - 2)" "left_son r k + 1 = lo + leo (k - 1)"
    "r = right_son r + 1"
  using assms leo_split[OF assms(1)] leo_pos[of "k - 1"] leo_pos[of "k - 2"]
  by (simp_all add: right_son_def left_son_def)


subsection \<open>Rotations permute\<close>

lemma mset_fun_upd:
  assumes "i < n"
  shows "mset (map (a(i := x)) [0..<n]) + {# a i #} = mset (map a [0..<n]) + {# x #}"
proof -
  have "map (a(i := x)) [0..<n] = (map a [0..<n])[i := x]"
    by (rule nth_equalityI) (auto simp: nth_list_update)
  then show ?thesis using assms by (simp add: mset_update)
qed

lemma mset_exchange:
  fixes A B C x y z :: "'e multiset"
  assumes "A + x = B + y" "B + z = C + x"
  shows "A + z = C + y"
proof -
  have "A + z + x = (A + x) + z" by (simp only: ac_simps)
  also have "\<dots> = (B + z) + y" by (simp only: assms(1) ac_simps)
  also have "\<dots> = C + y + x" by (simp only: assms(2) ac_simps)
  finally show ?thesis by (rule add_right_imp_eq)
qed

lemma rotate_in_mset:
  assumes "set (i # is) \<subseteq> {..<n}"
  shows "mset (map (rotate_in v a (i # is)) [0..<n]) + {# a i #} = mset (map a [0..<n]) + {# v #}"
  using assms
proof (induction "is" arbitrary: i a)
  case Nil
  then have "i < n" by simp
  from mset_fun_upd[OF this] show ?case by (simp only: rotate_in.simps)
next
  case (Cons j js)
  let ?a = "a(i := a j)"
  have aj: "?a j = a j" by simp
  have js: "set (j # js) \<subseteq> {..<n}" using Cons.prems by simp
  have "mset (map (rotate_in v ?a (j # js)) [0..<n]) + {# a j #} = mset (map ?a [0..<n]) + {# v #}"
    using Cons.IH[OF js, of ?a] by (simp only: aj)
  moreover have "mset (map ?a [0..<n]) + {# a i #} = mset (map a [0..<n]) + {# a j #}"
    using Cons.prems by (intro mset_fun_upd) simp
  ultimately show ?case unfolding rotate_in.simps(3) by (rule mset_exchange)
qed

lemma rotate_in_other: "i \<notin> set is \<Longrightarrow> rotate_in v a is i = a i"
  by (induction v a "is" rule: rotate_in.induct) auto

lemma rotate_in_cong:
  assumes "\<And>i. i < n \<Longrightarrow> a i = b i" "set is \<subseteq> {..<n}" "i < n"
  shows "rotate_in v a is i = rotate_in v b is i"
  using assms
proof (induction v a "is" arbitrary: b rule: rotate_in.induct)
  case (3 v a i' j js)
  have "rotate_in v (a(i' := a j)) (j # js) i = rotate_in v (b(i' := b j)) (j # js) i"
    using 3(2-4) by (intro 3(1)) auto
  then show ?case by simp
qed auto


subsection \<open>Sifting\<close>

lemma heap_cong:
  assumes "r + 1 = lo + leo k" "\<And>i. lo \<le> i \<Longrightarrow> i \<le> r \<Longrightarrow> a i = b i"
  shows "heap f a r k = heap f b r k"
  using assms
proof (induction k arbitrary: r lo rule: less_induct)
  case (less k)
  show ?case
  proof (cases "k \<le> 1")
    case True
    then show ?thesis by (simp add: heap_unfold[of f _ r])
  next
    case False
    then have k: "2 \<le> k" "k - 1 < k" "k - 2 < k" by simp_all
    note lay = sons_layout[OF k(1) less.prems(1)] and pos = leo_pos[of "k - 2"] leo_pos[of "k - 1"]
    have "heap f a (right_son r) (k - 2) = heap f b (right_son r) (k - 2)"
      using lay by (intro less.IH[OF k(3) lay(1)] less.prems(2)) linarith+
    moreover have "heap f a (left_son r k) (k - 1) = heap f b (left_son r k) (k - 1)"
      using lay by (intro less.IH[OF k(2) lay(2)] less.prems(2)) linarith+
    moreover have "a r = b r" "a (right_son r) = b (right_son r)" "a (left_son r k) = b (left_son r k)"
      using lay pos by (intro less.prems(2); linarith)+
    ultimately show ?thesis by (simp only: heap_unfold[of f _ r k])
  qed
qed

lemma sons_heap_cong:
  assumes "r + 1 = lo + leo k" "\<And>i. lo \<le> i \<Longrightarrow> i < r \<Longrightarrow> a i = b i"
  shows "sons_heap f a r k = sons_heap f b r k"
proof (cases "k \<le> 1")
  case False
  then have k: "2 \<le> k" by simp
  note lay = sons_layout[OF k assms(1)]
  have "heap f a (right_son r) (k - 2) = heap f b (right_son r) (k - 2)"
    using lay by (intro heap_cong[OF lay(1)] assms(2)) linarith+
  moreover have "heap f a (left_son r k) (k - 1) = heap f b (left_son r k) (k - 1)"
    using lay by (intro heap_cong[OF lay(2)] assms(2)) linarith+
  ultimately show ?thesis by (simp add: sons_heap_def)
qed (simp add: sons_heap_def)

lemma heap_sons: "heap f a r k \<Longrightarrow> sons_heap f a r k"
  by (auto simp: sons_heap_def heap_unfold[of f a r k])

lemma sift_path_cong:
  assumes "r + 1 = lo + leo k" "\<And>i. lo \<le> i \<Longrightarrow> i < r \<Longrightarrow> a i = b i"
  shows "sift_path f a v r k = sift_path f b v r k"
  using assms
proof (induction k arbitrary: r lo rule: less_induct)
  case (less k)
  show ?case
  proof (cases "k \<le> 1")
    case True
    then show ?thesis by (simp add: sift_path.simps[of f _ v r k])
  next
    case False
    then have k: "2 \<le> k" "k - 1 < k" "k - 2 < k" by simp_all
    note lay = sons_layout[OF k(1) less.prems(1)] and pos = leo_pos[of "k - 2"] leo_pos[of "k - 1"]
    have "sift_path f a v (right_son r) (k - 2) = sift_path f b v (right_son r) (k - 2)"
      using lay by (intro less.IH[OF k(3) lay(1)] less.prems(2)) linarith+
    moreover have "sift_path f a v (left_son r k) (k - 1) = sift_path f b v (left_son r k) (k - 1)"
      using lay by (intro less.IH[OF k(2) lay(2)] less.prems(2)) linarith+
    moreover have "a (right_son r) = b (right_son r)" "a (left_son r k) = b (left_son r k)"
      using lay pos by (intro less.prems(2); linarith)+
    ultimately show ?thesis by (simp only: sift_path.simps[of f _ v r k])
  qed
qed

lemma sift_path_range:
  assumes "r + 1 = lo + leo k" "i \<in> set (sift_path f a v r k)"
  shows "lo \<le> i \<and> i < r"
  using assms
proof (induction k arbitrary: r lo rule: less_induct)
  case (less k)
  show ?case
  proof (cases "k \<le> 1")
    case True
    then show ?thesis using less.prems(2) by (simp add: sift_path.simps[of f _ v r k])
  next
    case False
    then have k: "2 \<le> k" "k - 1 < k" "k - 2 < k" by simp_all
    note lay = sons_layout[OF k(1) less.prems(1)] and pos = leo_pos[of "k - 2"] leo_pos[of "k - 1"]
    from less.prems(2) consider "i = left_son r k" | "i \<in> set (sift_path f a v (left_son r k) (k - 1))"
      | "i = right_son r" | "i \<in> set (sift_path f a v (right_son r) (k - 2))"
      by (subst (asm) sift_path.simps) (auto split: if_split_asm)
    then show ?thesis
      using less.IH[OF k(2) lay(2)] less.IH[OF k(3) lay(1)] lay pos by cases linarith+
  qed
qed

text \<open>What one sift does to a tree whose sons are heaps, the root being replaced by \<open>v\<close>.\<close>

definition sifted :: "('e \<Rightarrow> 'e \<Rightarrow> int) \<Rightarrow> (nat \<Rightarrow> 'e) \<Rightarrow> 'e \<Rightarrow> nat \<Rightarrow> nat \<Rightarrow> nat \<Rightarrow> (nat \<Rightarrow> 'e) \<Rightarrow> bool" where
  "sifted f a v lo r k b \<longleftrightarrow> heap f b r k \<and> (\<forall>i. i < lo \<or> r < i \<longrightarrow> b i = a i) \<and> f v (b r) \<le> 0
     \<and> (2 \<le> k \<longrightarrow> f (a (right_son r)) (b r) \<le> 0 \<and> f (a (left_son r k)) (b r) \<le> 0)
     \<and> (\<forall>x. f v x \<le> 0 \<longrightarrow> (2 \<le> k \<longrightarrow> f (a (right_son r)) x \<le> 0 \<and> f (a (left_son r k)) x \<le> 0) \<longrightarrow> f (b r) x \<le> 0)"

lemma sifted_stop:
  assumes "comparator f" "r + 1 = lo + leo k" "sons_heap f a r k"
    and "2 \<le> k \<Longrightarrow> f (a (right_son r)) v \<le> 0 \<and> f (a (left_son r k)) v \<le> 0"
  shows "sifted f a v lo r k (a(r := v))"
proof -
  have sh: "sons_heap f (a(r := v)) r k" using assms(3) sons_heap_cong[OF assms(2), of a "a(r := v)" f] by simp
  have "heap f (a(r := v)) r k"
  proof (cases "k \<le> 1")
    case False
    then have k: "2 \<le> k" by simp
    note lay = sons_layout[OF k assms(2)]
    then have "right_son r \<noteq> r" "left_son r k \<noteq> r" by linarith+
    with sh assms(4)[OF k] False show ?thesis by (simp add: heap_unfold[of f _ r k] sons_heap_def)
  qed (simp add: heap_unfold[of f _ r k])
  moreover have "lo \<le> r" using assms(2) leo_pos[of k] by linarith
  ultimately show ?thesis using assms(4) comparatorD(5)[OF assms(1)] by (auto simp: sifted_def)
qed

text \<open>Moving a son up and sifting \<open>v\<close> into its tree.\<close>

lemma sifted_move:
  assumes "comparator f" "r + 1 = lo + leo k" "2 \<le> k" "sons_heap f a r k"
    and "(s, j, lo', s') = (left_son r k, k - 1, lo, right_son r)
       \<or> (s, j, lo', s') = (right_son r, k - 2, lo + leo (k - 1), left_son r k)"
    and "f (a s') (a s) \<le> 0" "f v (a s) \<le> 0" "sifted f (a(r := a s)) v lo' s j b"
  shows "sifted f a v lo r k b"
proof -
  note lay = sons_layout[OF assms(3,2)] and pos = leo_pos[of "k - 2"] leo_pos[of "k - 1"]
  have s: "s < r" "s' < r" "lo' \<le> s" "lo \<le> lo'" "s' < lo' \<or> s < s'" "s + 1 = lo' + leo j"
    using assms(5) lay pos by (elim disjE; simp; linarith)+
  have other: "b i = a i" if "i < lo' \<or> s < i" "i \<noteq> r" for i
    using assms(8) that by (auto simp: sifted_def)
  have br: "b r = a s" using assms(8) s by (auto simp: sifted_def)
  have bs': "b s' = a s'" using other s by auto
  have hs: "heap f a s j" using assms(3-5) by (auto simp: sons_heap_def)
  have bs: "f (b s) (a s) \<le> 0"
  proof -
    have "2 \<le> j \<longrightarrow> f (a (right_son s)) (a s) \<le> 0 \<and> f (a (left_son s j)) (a s) \<le> 0"
      using hs by (auto simp: heap_unfold[of f a s j])
    moreover have "2 \<le> j \<longrightarrow> right_son s \<noteq> r \<and> left_son s j \<noteq> r"
      using sons_layout[OF _ s(6)] s(1) leo_pos[of "j - 1"] leo_pos[of "j - 2"] by fastforce
    ultimately show ?thesis using assms(7,8) unfolding sifted_def by simp
  qed
  have "heap f b r k"
  proof -
    have "heap f b (right_son r) (k - 2) \<and> heap f b (left_son r k) (k - 1)"
      using assms(5)
    proof (elim disjE)
      assume e: "(s, j, lo', s') = (left_son r k, k - 1, lo, right_son r)"
      then have "heap f b (right_son r) (k - 2) = heap f a (right_son r) (k - 2)"
        using lay s by (intro heap_cong[OF lay(1)] other) auto
      then show ?thesis using e assms(3,4,8) by (auto simp: sons_heap_def sifted_def)
    next
      assume e: "(s, j, lo', s') = (right_son r, k - 2, lo + leo (k - 1), left_son r k)"
      then have "heap f b (left_son r k) (k - 1) = heap f a (left_son r k) (k - 1)"
        using lay s by (intro heap_cong[OF lay(2)] other) auto
      then show ?thesis using e assms(3,4,8) by (auto simp: sons_heap_def sifted_def)
    qed
    moreover have "f (b (right_son r)) (b r) \<le> 0 \<and> f (b (left_son r k)) (b r) \<le> 0"
      using assms(5,6) br bs bs' by auto
    ultimately show ?thesis by (simp add: heap_unfold[of f b r k])
  qed
  moreover have "\<forall>i. i < lo \<or> r < i \<longrightarrow> b i = a i" using other s by auto
  moreover have "f (a (right_son r)) (b r) \<le> 0 \<and> f (a (left_son r k)) (b r) \<le> 0"
    using assms(5,6) br comparatorD(5)[OF assms(1)] by auto
  ultimately show ?thesis using assms(3,5,7) br by (auto simp: sifted_def)
qed

lemma sift_hole:
  assumes "comparator f" "r + 1 = lo + leo k" "sons_heap f a r k"
  shows "sifted f a v lo r k (rotate_in v a (r # sift_path f a v r k))"
  using assms(2,3)
proof (induction k arbitrary: r lo a rule: less_induct)
  case (less k)
  note cmp = comparatorD[OF assms(1)]
  let ?l = "left_son r k" and ?r = "right_son r"
  show ?case
  proof (cases "k \<le> 1 \<or> f v (a ?l) \<ge> 0 \<and> f v (a ?r) \<ge> 0")
    case True
    then have "sift_path f a v r k = []" by (subst sift_path.simps) auto
    moreover have "sifted f a v lo r k (a(r := v))"
      using True cmp(1) by (intro sifted_stop[OF assms(1) less.prems]) auto
    ultimately show ?thesis by (simp only: rotate_in.simps)
  next
    case False
    then have k: "2 \<le> k" "k - 1 < k" "k - 2 < k" by simp_all
    note lay = sons_layout[OF k(1) less.prems(1)] and pos = leo_pos[of "k - 2"] leo_pos[of "k - 1"]
    have h: "heap f a ?r (k - 2)" "heap f a ?l (k - 1)" using less.prems(2) k by (auto simp: sons_heap_def)
    show ?thesis
    proof (cases "f (a ?l) (a ?r) \<ge> 0")
      case True
      let ?a = "a(r := a ?l)"
      have eq: "sift_path f a v r k = ?l # sift_path f ?a v ?l (k - 1)"
        using False True sift_path_cong[OF lay(2), of a ?a f v] lay by (subst sift_path.simps) auto
      have "sons_heap f ?a ?l (k - 1)"
        using heap_sons[OF h(2)] sons_heap_cong[OF lay(2), of a ?a f] lay by auto
      from less.IH[OF k(2) lay(2) this]
      have "sifted f ?a v lo ?l (k - 1) (rotate_in v a (r # sift_path f a v r k))"
        by (simp only: eq rotate_in.simps)
      moreover have "f (a ?r) (a ?l) \<le> 0" using True cmp(1) by blast
      moreover from this have "f v (a ?l) \<le> 0" using False cmp by (metis linear)
      ultimately show ?thesis using sifted_move[OF assms(1) less.prems(1) k(1) less.prems(2)] by blast
    next
      case left: False
      let ?a = "a(r := a ?r)"
      have eq: "sift_path f a v r k = ?r # sift_path f ?a v ?r (k - 2)"
        using False left sift_path_cong[OF lay(1), of a ?a f v] lay by (subst sift_path.simps) auto
      have "sons_heap f ?a ?r (k - 2)"
        using heap_sons[OF h(1)] sons_heap_cong[OF lay(1), of a ?a f] lay by auto
      from less.IH[OF k(3) lay(1) this]
      have "sifted f ?a v (lo + leo (k - 1)) ?r (k - 2) (rotate_in v a (r # sift_path f a v r k))"
        by (simp only: eq rotate_in.simps)
      moreover have "f (a ?l) (a ?r) \<le> 0" using left by simp
      moreover from this have "f v (a ?r) \<le> 0" using False cmp by (metis linear)
      ultimately show ?thesis using sifted_move[OF assms(1) less.prems(1) k(1) less.prems(2)] by blast
    qed
  qed
qed


subsection \<open>Trinkling\<close>

text \<open>The number of elements of a forest; its rightmost root is at the last of them.\<close>

definition leos :: "nat list \<Rightarrow> nat" where
  "leos ks = sum_list (map leo ks)"

lemma leos_simps [simp]: "leos [] = 0" "leos (k # ks) = leo k + leos ks"
  by (simp_all add: leos_def)

lemma last_root: "leos (k # ks) - 1 < leos (k # ks)" "leos (k # ks) - 1 + 1 = leos ks + leo k"
  using leo_pos[of k] unfolding leos_simps by linarith+

lemma next_root:
  assumes "r + 1 = leo k + leos (k' # ks)"
  shows "r - leo k < r" "r - leo k + 1 = leo k' + leos ks" "r - leo k = leos (k' # ks) - 1"
  using assms leo_pos[of k] leo_pos[of k'] unfolding leos_simps by linarith+

fun forest :: "('e \<Rightarrow> 'e \<Rightarrow> int) \<Rightarrow> (nat \<Rightarrow> 'e) \<Rightarrow> nat list \<Rightarrow> bool" where
  "forest f a [] = True"
| "forest f a (k # ks) = (heap f a (leos (k # ks) - 1) k \<and> forest f a ks)"

fun roots_sorted :: "('e \<Rightarrow> 'e \<Rightarrow> int) \<Rightarrow> (nat \<Rightarrow> 'e) \<Rightarrow> nat list \<Rightarrow> bool" where
  "roots_sorted f a [] = True"
| "roots_sorted f a [k] = True"
| "roots_sorted f a (k # k' # ks) =
     (f (a (leos (k' # ks) - 1)) (a (leos (k # k' # ks) - 1)) \<le> 0 \<and> roots_sorted f a (k' # ks))"

lemma forest_cong:
  "(\<And>i. i < leos ks \<Longrightarrow> a i = b i) \<Longrightarrow> forest f a ks = forest f b ks"
proof (induction ks)
  case (Cons k ks)
  have "heap f a (leos (k # ks) - 1) k = heap f b (leos (k # ks) - 1) k"
    using last_root[of k ks] by (intro heap_cong[of _ "leos ks"] Cons.prems) linarith+
  then show ?case using Cons by simp
qed simp

lemma roots_sorted_cong:
  "(\<And>i. i < leos ks \<Longrightarrow> a i = b i) \<Longrightarrow> roots_sorted f a ks = roots_sorted f b ks"
proof (induction ks rule: induct_list012)
  case (3 k k' ks)
  have "leos (k' # ks) - 1 < leos (k # k' # ks)" "leos (k # k' # ks) - 1 < leos (k # k' # ks)"
    using last_root(1)[of k' ks] last_root(1)[of k "k' # ks"] unfolding leos_simps by linarith+
  then show ?case using 3 by simp
qed simp_all

lemma roots_sorted_tl: "roots_sorted f a (k # ks) \<Longrightarrow> roots_sorted f a ks"
  by (cases ks) simp_all

text \<open>The element at \<open>r\<close> being \<open>v\<close>, the array after trinkling.\<close>

definition trinkle_hole ::
  "('e \<Rightarrow> 'e \<Rightarrow> int) \<Rightarrow> (nat \<Rightarrow> 'e) \<Rightarrow> 'e \<Rightarrow> nat \<Rightarrow> nat \<Rightarrow> nat list \<Rightarrow> bool \<Rightarrow> nat \<Rightarrow> 'e" where
  "trinkle_hole f a v r k ks trusty =
     (case trinkle_path f a v r k ks trusty of
        (path, r', k', t) \<Rightarrow> if t then a(r := v)
          else let b = rotate_in v a (r # path) in rotate_in v b (r' # sift_path f b v r' k'))"

lemma rotate_in_last: "is \<noteq> [] \<Longrightarrow> rotate_in v a is (last is) = v"
  by (induction v a "is" rule: rotate_in.induct) auto

lemma trinkle_path_last:
  "trinkle_path f a v r k ks trusty = (path, r', k', t) \<Longrightarrow> r' = last (r # path) \<and> (t \<longrightarrow> trusty)"
  by (induction f a v r k ks trusty arbitrary: path rule: trinkle_path.induct)
     (auto simp: Let_def split: if_split_asm prod.splits)

lemma trinkle_elems_hole: "trinkle_elems f a r k ks trusty = trinkle_hole f a (a r) r k ks trusty"
proof -
  obtain path r' k' t where p: "trinkle_path f a (a r) r k ks trusty = (path, r', k', t)"
    by (cases "trinkle_path f a (a r) r k ks trusty")
  have r': "r' = last (r # path)" using trinkle_path_last[OF p] by blast
  have "rotate_in (a r) a (r # path) r' = a r"
    unfolding r' by (rule rotate_in_last) simp
  then show ?thesis
    unfolding trinkle_elems_def trinkle_hole_def p sift_elems_def Let_def prod.case fun_upd_triv by simp
qed

lemma trinkle_path_cong:
  assumes "r + 1 = leo k + leos ks" "\<And>i. i < r \<Longrightarrow> a i = b i"
  shows "trinkle_path f a v r k ks trusty = trinkle_path f b v r k ks trusty"
  using assms
proof (induction ks arbitrary: r k trusty)
  case (Cons k' ks)
  have s: "r - leo k < r" "r - leo k + 1 = leo k' + leos ks"
    using next_root[OF Cons.prems(1)] by blast+
  have "trinkle_path f a v (r - leo k) k' ks False = trinkle_path f b v (r - leo k) k' ks False"
    using s Cons.prems(2) by (intro Cons.IH) simp_all
  moreover have "a (r - leo k) = b (r - leo k)" using s Cons.prems(2) by simp
  moreover have "a (right_son r) = b (right_son r)" "a (left_son r k) = b (left_son r k)"
    using s by (auto intro!: Cons.prems(2) simp: right_son_def left_son_def)
  ultimately show ?case by (simp only: trinkle_path.simps Let_def)
qed simp

lemma trinkle_hole_go:
  assumes "r + 1 = leo k + leos (k' # ks)" "\<not> f (a (r - leo k)) v \<le> 0"
    and "trusty \<or> k \<le> 1 \<or> \<not> (f (a (right_son r)) (a (r - leo k)) \<ge> 0 \<or> f (a (left_son r k)) (a (r - leo k)) \<ge> 0)"
  shows "trinkle_hole f a v r k (k' # ks) trusty
    = trinkle_hole f (a(r := a (r - leo k))) v (r - leo k) k' ks False"
proof -
  let ?s = "r - leo k" and ?a = "a(r := a (r - leo k))"
  have s: "?s < r" "?s + 1 = leo k' + leos ks" using next_root[OF assms(1)] by blast+
  obtain path r' k1 t where p: "trinkle_path f a v ?s k' ks False = (path, r', k1, t)"
    by (cases "trinkle_path f a v ?s k' ks False")
  then have "trinkle_path f a v r k (k' # ks) trusty = (?s # path, r', k1, t)"
    using assms(2,3) by (auto simp: Let_def)
  moreover have "trinkle_path f ?a v ?s k' ks False = (path, r', k1, t)"
    using trinkle_path_cong[OF s(2), of a ?a f v False] s(1) p by simp
  moreover have "\<not> t" using trinkle_path_last[OF p] by simp
  ultimately show ?thesis by (simp only: trinkle_hole_def prod.case if_False rotate_in.simps)
qed

lemma roots_sorted_Cons:
  "ks \<noteq> [] \<Longrightarrow> roots_sorted f a (k # ks)
    \<longleftrightarrow> f (a (leos ks - 1)) (a (leos (k # ks) - 1)) \<le> 0 \<and> roots_sorted f a ks"
  by (cases ks) simp_all

text \<open>Where the element stops, sifting makes the forest good.\<close>

lemma sift_in_forest:
  assumes "r + 1 = leo k + leos ks" "sifted f a v (leos ks) r k b" "forest f a ks" "roots_sorted f a ks"
    and "ks \<noteq> [] \<Longrightarrow> f (a (r - leo k)) (b r) \<le> 0"
  shows "forest f b (k # ks) \<and> roots_sorted f b (k # ks)"
proof -
  have r: "leos (k # ks) - 1 = r" using assms(1) by simp
  have same: "b i = a i" if "i < leos ks" for i using assms(2) that by (simp add: sifted_def)
  have f: "forest f b ks" "roots_sorted f b ks"
    using assms(3,4) forest_cong[of ks b a f] roots_sorted_cong[of ks b a f] same by simp_all
  have "forest f b (k # ks)" using f(1) assms(2) unfolding forest.simps r by (simp add: sifted_def)
  moreover have "roots_sorted f b (k # ks)"
  proof (cases ks)
    case (Cons k' ks')
    have "r - leo k = leos ks - 1" using next_root(3)[of r k k' ks'] assms(1) Cons by simp
    moreover have "b (leos ks - 1) = a (leos ks - 1)" using last_root(1)[of k' ks'] Cons by (intro same) simp
    ultimately show ?thesis using assms(5) f(2) Cons r by (simp add: roots_sorted_Cons)
  qed simp
  ultimately show ?thesis ..
qed

lemma rotate_in_overwrite:
  assumes "r \<notin> set path"
  shows "rotate_in v (a(r := w)) (r # path) = rotate_in v a (r # path)"
  using assms by (cases path) (simp_all only: rotate_in.simps fun_upd_upd fun_upd_other list.set, simp_all)

lemma trinkle_hole_stop:
  assumes "comparator f" "r + 1 = leo k + leos ks" "sons_heap f a r k"
    and "trusty \<Longrightarrow> 2 \<le> k \<Longrightarrow> f (a (right_son r)) v \<le> 0 \<and> f (a (left_son r k)) v \<le> 0"
    and "trinkle_path f a v r k ks trusty = ([], r, k, trusty)"
  shows "sifted f a v (leos ks) r k (trinkle_hole f a v r k ks trusty)"
proof (cases trusty)
  case True
  have r: "r + 1 = leos ks + leo k" using assms(2) by simp
  from True show ?thesis
    using sifted_stop[OF assms(1) r assms(3) assms(4)[OF True]] assms(5)
    by (simp only: trinkle_hole_def prod.case if_True)
next
  case False
  have r: "r + 1 = leos ks + leo k" using assms(2) by simp
  let ?b = "a(r := v)"
  have p: "sift_path f ?b v r k = sift_path f a v r k" by (rule sift_path_cong[OF r]) simp
  have nin: "r \<notin> set (sift_path f a v r k)" using sift_path_range[OF r, of r] by fastforce
  have "trinkle_hole f a v r k ks trusty = rotate_in v a (r # sift_path f a v r k)"
    using False assms(5)
    by (simp only: trinkle_hole_def prod.case if_False rotate_in.simps Let_def p rotate_in_overwrite[OF nin])
  then show ?thesis using sift_hole[OF assms(1) r assms(3)] by simp
qed

text \<open>
  Trinkling, with the bound on the new root that the induction needs: nothing above the old root, its
  sons and the next root appears there.
\<close>

definition trinkled ::
  "('e \<Rightarrow> 'e \<Rightarrow> int) \<Rightarrow> (nat \<Rightarrow> 'e) \<Rightarrow> 'e \<Rightarrow> nat \<Rightarrow> nat \<Rightarrow> nat list \<Rightarrow> (nat \<Rightarrow> 'e) \<Rightarrow> bool" where
  "trinkled f a v r k ks b \<longleftrightarrow> forest f b (k # ks) \<and> roots_sorted f b (k # ks) \<and> (\<forall>i > r. b i = a i)
     \<and> (\<forall>x. f v x \<le> 0 \<longrightarrow> (2 \<le> k \<longrightarrow> f (a (right_son r)) x \<le> 0 \<and> f (a (left_son r k)) x \<le> 0)
          \<longrightarrow> (ks \<noteq> [] \<longrightarrow> f (a (r - leo k)) x \<le> 0) \<longrightarrow> f (b r) x \<le> 0)"

lemma trinkled_stop:
  assumes "comparator f" "r + 1 = leo k + leos ks" "sons_heap f a r k"
    and "trusty \<Longrightarrow> 2 \<le> k \<Longrightarrow> f (a (right_son r)) v \<le> 0 \<and> f (a (left_son r k)) v \<le> 0"
    and "forest f a ks" "roots_sorted f a ks"
    and "trinkle_path f a v r k ks trusty = ([], r, k, trusty)"
    and "ks \<noteq> [] \<Longrightarrow> f (a (r - leo k)) v \<le> 0
      \<or> (2 \<le> k \<and> (f (a (r - leo k)) (a (right_son r)) \<le> 0 \<or> f (a (r - leo k)) (a (left_son r k)) \<le> 0))"
  shows "trinkled f a v r k ks (trinkle_hole f a v r k ks trusty)"
proof -
  let ?b = "trinkle_hole f a v r k ks trusty"
  have s: "sifted f a v (leos ks) r k ?b" by (rule trinkle_hole_stop[OF assms(1-4,7)])
  have "ks \<noteq> [] \<Longrightarrow> f (a (r - leo k)) (?b r) \<le> 0"
    using assms(8) s comparatorD(2)[OF assms(1)] unfolding sifted_def by blast
  from sift_in_forest[OF assms(2) s assms(5,6) this] s
  show ?thesis by (auto simp: trinkled_def sifted_def)
qed

lemma sons_below:
  assumes "2 \<le> k" "r + 1 = lo + leo k"
  shows "right_son r < r" "left_son r k < r" "lo \<le> right_son r" "lo \<le> left_son r k"
  using sons_layout[OF assms] leo_pos[of "k - 1"] leo_pos[of "k - 2"] by linarith+

lemma heap_of_sons:
  assumes "sons_heap f a r k" "2 \<le> k \<Longrightarrow> f (a (right_son r)) (a r) \<le> 0 \<and> f (a (left_son r k)) (a r) \<le> 0"
  shows "heap f a r k"
  using assms by (cases "k \<le> 1") (auto simp: sons_heap_def heap_unfold[of f a r k])

lemma trinkled_go:
  assumes "comparator f" "r + 1 = leo k + leos (k' # ks)" "sons_heap f a r k"
    and "2 \<le> k \<Longrightarrow> f (a (right_son r)) (a (r - leo k)) \<le> 0 \<and> f (a (left_son r k)) (a (r - leo k)) \<le> 0"
    and "forest f a (k' # ks)" "roots_sorted f a (k' # ks)" "f v (a (r - leo k)) \<le> 0"
    and "trinkled f (a(r := a (r - leo k))) v (r - leo k) k' ks b"
  shows "trinkled f a v r k (k' # ks) b"
proof -
  let ?s = "r - leo k" and ?a = "a(r := a (r - leo k))"
  note nr = next_root[OF assms(2)]
  have lo: "r + 1 = leos (k' # ks) + leo k" using assms(2) by simp
  have ls: "?s + 1 = leos ks + leo k'" using nr(2) by simp
  have above: "b i = ?a i" if "?s < i" for i using assms(8) that by (simp add: trinkled_def)
  then have br: "b r = a ?s" using nr(1) by simp
  have same: "b i = a i" if "leos (k' # ks) \<le> i" "i < r" for i
    using above[of i] that nr(2) by simp
  have "sons_heap f b r k" using assms(3) sons_heap_cong[OF lo, of b a f] same by blast
  moreover have "b (right_son r) = a (right_son r)" "b (left_son r k) = a (left_son r k)" if "2 \<le> k"
    using sons_below[OF that lo] by (auto intro!: same)
  ultimately have hr: "heap f b r k" using assms(4) br by (intro heap_of_sons) simp_all
  have hs: "heap f a ?s k'" using assms(5) nr(3) by simp
  have "2 \<le> k' \<longrightarrow> f (?a (right_son ?s)) (a ?s) \<le> 0 \<and> f (?a (left_son ?s k')) (a ?s) \<le> 0"
    using hs sons_below[OF _ ls] nr(1) by (auto simp: heap_unfold[of f a ?s k'])
  moreover have "ks \<noteq> [] \<longrightarrow> f (?a (?s - leo k')) (a ?s) \<le> 0"
  proof (cases ks)
    case (Cons k1 ks')
    have "?s - leo k' = leos ks - 1" "?s - leo k' < r"
      using next_root[of ?s k' k1 ks'] nr Cons by simp_all
    then show ?thesis using assms(6) nr(3) Cons by (simp add: roots_sorted_Cons)
  qed simp
  ultimately have bs: "f (b ?s) (b r) \<le> 0"
    using assms(7,8) unfolding trinkled_def br by blast
  have rs: "leos (k # k' # ks) - 1 = r" "leos (k' # ks) - 1 = ?s" using assms(2) nr(3) by simp_all
  have "roots_sorted f b (k # k' # ks)"
    using assms(8) bs unfolding roots_sorted.simps rs by (simp add: trinkled_def)
  moreover have "forest f b (k # k' # ks)"
    using assms(8) hr unfolding forest.simps(2)[of _ _ k] rs by (simp add: trinkled_def)
  moreover have "\<forall>i > r. b i = a i" using above nr(1) by simp
  ultimately show ?thesis using br by (simp add: trinkled_def)
qed

lemma trinkle_hole_spec:
  assumes "comparator f" "r + 1 = leo k + leos ks" "sons_heap f a r k"
    and "trusty \<Longrightarrow> 2 \<le> k \<Longrightarrow> f (a (right_son r)) v \<le> 0 \<and> f (a (left_son r k)) v \<le> 0"
    and "forest f a ks" "roots_sorted f a ks"
  shows "trinkled f a v r k ks (trinkle_hole f a v r k ks trusty)"
  using assms(2-6)
proof (induction ks arbitrary: a r k trusty)
  case Nil
  then show ?case by (intro trinkled_stop[OF assms(1)]) simp_all
next
  case (Cons k' ks)
  note cmp = comparatorD[OF assms(1)]
  let ?s = "r - leo k" and ?a = "a(r := a (r - leo k))"
  let ?stop = "\<not> trusty \<and> k > 1 \<and> (f (a (right_son r)) (a ?s) \<ge> 0 \<or> f (a (left_son r k)) (a ?s) \<ge> 0)"
  show ?case
  proof (cases "f (a ?s) v \<le> 0 \<or> ?stop")
    case True
    then have "trinkle_path f a v r k (k' # ks) trusty = ([], r, k, trusty)" by (auto simp: Let_def)
    then show ?thesis using True cmp(1) by (intro trinkled_stop[OF assms(1) Cons.prems]) auto
  next
    case False
    note nr = next_root[OF Cons.prems(1)]
    have ls: "?s + 1 = leos ks + leo k'" using nr(2) by simp
    have sh: "sons_heap f ?a ?s k'"
      using heap_sons[of f a ?s k'] Cons.prems(4) nr sons_heap_cong[OF ls, of a ?a f] by simp
    have fa: "forest f ?a ks" "roots_sorted f ?a ks"
      using Cons.prems(4,5) roots_sorted_tl forest_cong[of ks a ?a f] roots_sorted_cong[of ks a ?a f] nr(1,2)
      by auto
    have t: "trinkled f ?a v ?s k' ks (trinkle_hole f ?a v ?s k' ks False)"
      by (rule Cons.IH[OF nr(2) sh _ fa]) simp
    have vs: "f v (a ?s) \<le> 0" using False cmp(4) by blast
    have "f (a (right_son r)) (a ?s) \<le> 0 \<and> f (a (left_son r k)) (a ?s) \<le> 0" if "2 \<le> k"
      using False that Cons.prems(3) vs cmp(2) by (cases trusty) (blast, auto)
    from trinkled_go[OF assms(1) Cons.prems(1,2) this Cons.prems(4,5) vs t]
    show ?thesis using False by (subst trinkle_hole_go[OF Cons.prems(1)]) auto
  qed
qed

end
