(* ===== verification/Smoothsort_Phases.thy ===== *)
theory Smoothsort_Phases
  imports Leonardo_Heaps
begin

text \<open>
  The two phases of smoothsort on arrays of elements.  \<open>grow\<close> builds the forest from left to right:
  a tree that will become a subtree of a larger one is only sifted, the others are trinkled into the
  order of the roots.  \<open>shrink\<close> takes the forest apart from the right, where the largest element is.
  The lemmas show that the first phase ends with all trees heaps and all roots in order, although most
  trees are never trinkled, and that the second leaves the array sorted.
\<close>

definition grow_step ::
  "('e \<Rightarrow> 'e \<Rightarrow> int) \<Rightarrow> (nat \<Rightarrow> 'e) \<Rightarrow> nat \<Rightarrow> nat \<Rightarrow> nat \<Rightarrow> nat list \<Rightarrow> (nat \<Rightarrow> 'e) \<times> nat list" where
  "grow_step f a n r k ks =
     (if ks \<noteq> [] \<and> hd ks = k + 1 then (sift_elems f a r k, (k + 2) # tl ks)
      else (if leo (k - 1) \<ge> n - 1 - r then trinkle_elems f a r k ks False else sift_elems f a r k,
            if k = 1 then 0 # k # ks else 1 # k # ks))"

function grow ::
  "('e \<Rightarrow> 'e \<Rightarrow> int) \<Rightarrow> (nat \<Rightarrow> 'e) \<Rightarrow> nat \<Rightarrow> nat \<Rightarrow> nat list \<Rightarrow> (nat \<Rightarrow> 'e) \<times> nat \<times> nat list" where
  "grow f a n r ks =
     (if r + 1 < n
      then case grow_step f a n r (hd ks) (tl ks) of (a', ks') \<Rightarrow> grow f a' n (r + 1) ks'
      else (a, r, ks))"
  by pat_completeness auto
termination by (relation "measure (\<lambda>(f, a, n, r, ks). n - r)") auto

declare grow.simps [simp del]

definition split_step ::
  "('e \<Rightarrow> 'e \<Rightarrow> int) \<Rightarrow> (nat \<Rightarrow> 'e) \<Rightarrow> nat \<Rightarrow> nat \<Rightarrow> nat list \<Rightarrow> nat \<Rightarrow> 'e" where
  "split_step f a r k ks =
     trinkle_elems f (trinkle_elems f a (left_son r k) (k - 1) ks True) (right_son r) (k - 2) ((k - 1) # ks) True"

function shrink :: "('e \<Rightarrow> 'e \<Rightarrow> int) \<Rightarrow> (nat \<Rightarrow> 'e) \<Rightarrow> nat \<Rightarrow> nat list \<Rightarrow> nat \<Rightarrow> 'e" where
  "shrink f a r [] = a"
| "shrink f a r (k # ks) =
     (if k # ks = [1] then a
      else if k \<le> 1 then shrink f a (r - 1) ks
      else shrink f (split_step f a r k ks) (r - 1) ((k - 2) # (k - 1) # ks))"
  by pat_completeness auto
termination
proof (relation "measure (\<lambda>(f, a, r, ks). leos ks)")
  fix f :: "'e \<Rightarrow> 'e \<Rightarrow> int" and a r k ks
  assume "\<not> k \<le> (1 :: nat)"
  then show "((f, split_step f a r k ks, r - 1, (k - 2) # (k - 1) # ks), (f, a, r, k # ks))
      \<in> measure (\<lambda>(f, a, r, ks). leos ks)"
    using leo_split[of k] by simp
qed simp_all

declare shrink.simps [simp del]

definition smoothsort :: "('e \<Rightarrow> 'e \<Rightarrow> int) \<Rightarrow> (nat \<Rightarrow> 'e) \<Rightarrow> nat \<Rightarrow> nat \<Rightarrow> 'e" where
  "smoothsort f a n =
     (case grow f a n 0 [1] of
        (a', r, ks) \<Rightarrow> shrink f (trinkle_elems f a' r (hd ks) (tl ks) False) r ks)"


subsection \<open>Both operations permute\<close>

abbreviation elems :: "(nat \<Rightarrow> 'e) \<Rightarrow> nat \<Rightarrow> 'e multiset" where
  "elems a n \<equiv> mset (map a [0..<n])"

lemma rotate_own_mset:
  "set (r # path) \<subseteq> {..<n} \<Longrightarrow> elems (rotate_in (a r) a (r # path)) n = elems a n"
  using rotate_in_mset[of r path n "a r" a] by simp

lemma sift_elems_mset:
  assumes "r + 1 = lo + leo k" "r < n"
  shows "elems (sift_elems f a r k) n = elems a n"
proof -
  have "set (r # sift_path f a (a r) r k) \<subseteq> {..<n}"
    using sift_path_range[OF assms(1), of _ f a "a r"] assms(2) by fastforce
  then show ?thesis unfolding sift_elems_def by (rule rotate_own_mset)
qed

lemma trinkle_path_fits:
  assumes "r + 1 = leo k + leos ks" "trinkle_path f a v r k ks trusty = (path, r', k', t)"
  shows "set path \<subseteq> {..<r} \<and> r' \<le> r \<and> (\<exists>lo. r' + 1 = lo + leo k')"
  using assms
proof (induction ks arbitrary: r k trusty path)
  case (Cons j ks)
  note nr = next_root[OF Cons.prems(1)]
  show ?case
  proof (cases "path = []")
    case True
    then show ?thesis
      using Cons.prems trinkle_path_last[OF Cons.prems(2)]
      by (auto simp: Let_def split: if_split_asm prod.splits intro: exI[of _ "leos (j # ks)"])
  next
    case False
    then obtain path' where p: "path = (r - leo k) # path'"
        "trinkle_path f a v (r - leo k) j ks False = (path', r', k', t)"
      using Cons.prems(2) by (auto simp: Let_def split: if_split_asm prod.splits)
    from Cons.IH[OF nr(2) p(2)] nr(1) p(1) show ?thesis by auto
  qed
qed (auto intro: exI[of _ 0])

lemma trinkle_elems_mset:
  assumes "r + 1 = leo k + leos ks" "r < n"
  shows "elems (trinkle_elems f a r k ks trusty) n = elems a n"
proof -
  obtain path r' k' t where p: "trinkle_path f a (a r) r k ks trusty = (path, r', k', t)"
    by (cases "trinkle_path f a (a r) r k ks trusty")
  note fit = trinkle_path_fits[OF assms(1) p]
  obtain lo where "r' + 1 = lo + leo k'" using fit by blast
  moreover have "set (r # path) \<subseteq> {..<n}" "r' < n" using fit assms(2) by auto
  ultimately have "elems (sift_elems f (rotate_in (a r) a (r # path)) r' k') n = elems a n"
    by (simp only: sift_elems_mset rotate_own_mset)
  then show ?thesis by (simp only: trinkle_elems_def p prod.case split: if_split) simp
qed

lemma trinkle_elems_spec:
  assumes "comparator f" "r + 1 = leo k + leos ks" "sons_heap f a r k" "trusty \<Longrightarrow> heap f a r k"
    and "forest f a ks" "roots_sorted f a ks"
  shows "forest f (trinkle_elems f a r k ks trusty) (k # ks)"
    and "roots_sorted f (trinkle_elems f a r k ks trusty) (k # ks)"
    and "r < i \<Longrightarrow> trinkle_elems f a r k ks trusty i = a i"
proof -
  have "trinkled f a (a r) r k ks (trinkle_elems f a r k ks trusty)"
    unfolding trinkle_elems_hole
    using assms(4) by (intro trinkle_hole_spec[OF assms(1-3) _ assms(5,6)]) (auto simp: heap_unfold[of f a r k])
  then show "forest f (trinkle_elems f a r k ks trusty) (k # ks)"
    "roots_sorted f (trinkle_elems f a r k ks trusty) (k # ks)"
    "r < i \<Longrightarrow> trinkle_elems f a r k ks trusty i = a i" by (simp_all add: trinkled_def)
qed

lemma sift_elems_spec:
  assumes "comparator f" "r + 1 = lo + leo k" "sons_heap f a r k"
  shows "heap f (sift_elems f a r k) r k" "i < lo \<or> r < i \<Longrightarrow> sift_elems f a r k i = a i"
  using sift_hole[OF assms, of "a r"] unfolding sift_elems_def sifted_def by blast+


subsection \<open>The shape of the forest\<close>

text \<open>
  Orders increase to the left, by two and more except at the rightmost tree; a tree of order 0 has
  one of order 1 to its left.
\<close>

fun spaced :: "nat list \<Rightarrow> bool" where
  "spaced [] = True"
| "spaced [k] = True"
| "spaced (k # k' # ks) = (k + 2 \<le> k' \<and> spaced (k' # ks))"

definition shape :: "nat \<Rightarrow> nat list \<Rightarrow> bool" where
  "shape k ks \<longleftrightarrow> spaced ks \<and> (ks \<noteq> [] \<longrightarrow> k < hd ks) \<and> (k = 0 \<longrightarrow> ks \<noteq> [] \<and> hd ks = 1)"

text \<open>
  The trees that are not followed by enough elements to become part of a larger tree have their
  roots in order with the next tree's.
\<close>

fun settled :: "('e \<Rightarrow> 'e \<Rightarrow> int) \<Rightarrow> (nat \<Rightarrow> 'e) \<Rightarrow> nat \<Rightarrow> nat list \<Rightarrow> bool" where
  "settled f a n [] = True"
| "settled f a n [k] = True"
| "settled f a n (k # k' # ks) =
     ((n - leos (k # k' # ks) \<le> leo (k - 1) \<longrightarrow> f (a (leos (k' # ks) - 1)) (a (leos (k # k' # ks) - 1)) \<le> 0)
      \<and> settled f a n (k' # ks))"

lemma settled_cong:
  "(\<And>i. i < leos ks \<Longrightarrow> a i = b i) \<Longrightarrow> settled f a n ks = settled f b n ks"
proof (induction ks rule: induct_list012)
  case (3 k k' ks)
  have "leos (k' # ks) - 1 < leos (k # k' # ks)" "leos (k # k' # ks) - 1 < leos (k # k' # ks)"
    using last_root(1)[of k' ks] last_root(1)[of k "k' # ks"] unfolding leos_simps by linarith+
  moreover have "settled f a n (k' # ks) = settled f b n (k' # ks)" using 3 by simp
  ultimately show ?case using 3(3) by (simp only: settled.simps)
qed simp_all

lemma roots_sorted_settled: "roots_sorted f a ks \<Longrightarrow> settled f a n ks"
  by (induction ks rule: induct_list012) simp_all

lemma settled_Cons:
  "settled f a n ks \<Longrightarrow> leo (k - 1) < n - leos (k # ks) \<Longrightarrow> settled f a n (k # ks)"
  by (cases ks) (simp_all del: leos_simps)

lemma leo_next: "1 \<le> k \<Longrightarrow> leo (k - 1) + leo k + 1 = leo (k + 1)"
  by (cases k) simp_all

text \<open>If no tree waits for more elements, all roots are in order.\<close>

lemma settled_sorted:
  assumes "settled f a n (k # ks)" "spaced (k # ks)" "1 \<le> k" "n - leos (k # ks) \<le> leo (k - 1)"
  shows "roots_sorted f a (k # ks)"
  using assms
proof (induction ks arbitrary: k)
  case (Cons k' ks)
  have "n - leos (k' # ks) \<le> leo (k - 1) + leo k" using Cons.prems(4) by simp
  also have "\<dots> < leo (k + 1)" using leo_next[OF Cons.prems(3)] by linarith
  also have "\<dots> \<le> leo (k' - 1)" using Cons.prems(2) unfolding spaced.simps by (intro leo_mono) linarith
  finally have "n - leos (k' # ks) \<le> leo (k' - 1)" by simp
  then have "roots_sorted f a (k' # ks)" using Cons.prems by (intro Cons.IH) simp_all
  then show ?case using Cons.prems(1,4) by simp
qed simp

lemma rest_sorted:
  assumes "settled f a n ks" "shape k ks" "n - leos (k # ks) \<le> b" "ks \<noteq> [] \<Longrightarrow> b + leo k \<le> leo (hd ks - 1)"
  shows "roots_sorted f a ks"
proof (cases ks)
  case (Cons k' ks')
  have "n - leos ks \<le> b + leo k" using assms(3) by simp
  also have "\<dots> \<le> leo (k' - 1)" using assms(4) Cons by simp
  finally show ?thesis using settled_sorted[of f a n k' ks'] assms(1,2) Cons by (simp add: shape_def)
qed simp


subsection \<open>The first phase\<close>

definition grow_inv :: "('e \<Rightarrow> 'e \<Rightarrow> int) \<Rightarrow> (nat \<Rightarrow> 'e) \<Rightarrow> nat \<Rightarrow> nat \<Rightarrow> nat \<Rightarrow> nat list \<Rightarrow> bool" where
  "grow_inv f a n r k ks \<longleftrightarrow> r + 1 = leo k + leos ks \<and> shape k ks \<and> sons_heap f a r k
     \<and> forest f a ks \<and> settled f a n ks"

lemma grow_inv_start: "grow_inv f a n 0 (Suc 0) []"
  by (simp add: grow_inv_def shape_def sons_heap_def)

lemma spaced_tl: "spaced (k # ks) \<Longrightarrow> spaced ks"
  by (cases ks) simp_all

lemma grow_inv_sift_rest:
  assumes "comparator f" "grow_inv f a n r k ks"
  shows "forest f (sift_elems f a r k) ks" "settled f (sift_elems f a r k) n ks"
    "heap f (sift_elems f a r k) r k"
proof -
  have lo: "r + 1 = leos ks + leo k" and sh: "sons_heap f a r k"
    using assms(2) by (simp_all add: grow_inv_def)
  note s = sift_elems_spec[OF assms(1) lo sh]
  show "forest f (sift_elems f a r k) ks" "settled f (sift_elems f a r k) n ks"
    using assms(2) forest_cong[of ks "sift_elems f a r k" a f] settled_cong[of ks "sift_elems f a r k" a f n] s(2)
    by (simp_all add: grow_inv_def)
  show "heap f (sift_elems f a r k) r k" by (rule s(1))
qed

text \<open>Two trees of neighbouring orders and the next element form a tree.\<close>

lemma grow_inv_merge:
  assumes "comparator f" "grow_inv f a n r k ((k + 1) # ks)"
  shows "grow_inv f (sift_elems f a r k) n (r + 1) (k + 2) ks"
proof -
  let ?a = "sift_elems f a r k"
  note g = grow_inv_sift_rest[OF assms]
  have r: "r + 1 = leo k + leos ((k + 1) # ks)" using assms(2) by (simp only: grow_inv_def)
  have "right_son (r + 1) = r" "left_son (r + 1) (k + 2) = leos ((k + 1) # ks) - 1"
    using r by (simp_all add: right_son_def left_son_def)
  moreover have "heap f ?a (leos ((k + 1) # ks) - 1) (k + 1)" using g(1) by simp
  ultimately have "sons_heap f ?a (r + 1) (k + 2)" using g(3) by (simp add: sons_heap_def)
  moreover have "settled f ?a n ks" using g(2) by (cases ks) simp_all
  moreover have "shape (k + 2) ks" using assms(2) by (cases ks) (auto simp: grow_inv_def shape_def)
  moreover have "r + 1 + 1 = leo (k + 2) + leos ks" using r by simp
  ultimately show ?thesis using g(1) by (simp add: grow_inv_def)
qed

text \<open>Otherwise the next element starts a tree of its own.\<close>

lemma grow_inv_add:
  assumes "comparator f" "grow_inv f a n r k ks" "ks = [] \<or> hd ks \<noteq> k + 1"
  shows "grow_inv f (fst (grow_step f a n r k ks)) n (r + 1) (if k = 1 then 0 else 1) (k # ks)"
proof -
  let ?a = "fst (grow_step f a n r k ks)"
  have i: "r + 1 = leo k + leos ks" "shape k ks" "sons_heap f a r k" "forest f a ks" "settled f a n ks"
    using assms(2) by (simp_all add: grow_inv_def)
  have k: "1 \<le> k" "ks \<noteq> [] \<Longrightarrow> k + 2 \<le> hd ks" using i(2) assms(3) by (auto simp: shape_def)
  have sh: "shape (if k = 1 then 0 else 1) (k # ks)"
    using i(2) k by (cases ks) (auto simp: shape_def)
  have rt: "leos (k # ks) - 1 = r" using i(1) by simp
  have "forest f ?a (k # ks) \<and> settled f ?a n (k # ks)"
  proof (cases "leo (k - 1) \<ge> n - 1 - r")
    case True
    have "roots_sorted f a ks"
    proof (rule rest_sorted[OF i(5,2)])
      show "n - leos (k # ks) \<le> leo (k - 1)" using True i(1) by simp
      show "leo (k - 1) + leo k \<le> leo (hd ks - 1)" if "ks \<noteq> []"
        using leo_next[OF k(1)] leo_mono[of "k + 1" "hd ks - 1"] k(2)[OF that] by linarith
    qed
    from trinkle_elems_spec[OF assms(1) i(1,3) _ i(4) this, of False] True assms(3)
    show ?thesis using roots_sorted_settled by (auto simp: grow_step_def)
  next
    case False
    then have a: "?a = sift_elems f a r k" using assms(3) by (auto simp: grow_step_def)
    note g = grow_inv_sift_rest[OF assms(1,2)]
    have "settled f ?a n (k # ks)" using False i(1) g(2) unfolding a by (intro settled_Cons) simp_all
    moreover have "forest f ?a (k # ks)" using g(1,3) unfolding a forest.simps rt by simp
    ultimately show ?thesis by simp
  qed
  moreover have "sons_heap f ?a (r + 1) (if k = 1 then 0 else 1)" by (simp add: sons_heap_def)
  moreover have "r + 1 + 1 = leo (if k = 1 then 0 else 1) + leos (k # ks)" using i(1) by simp
  ultimately show ?thesis using sh by (simp only: grow_inv_def)
qed

lemma grow_step_mset:
  assumes "r + 1 = leo k + leos ks" "r < m"
  shows "elems (fst (grow_step f a n r k ks)) m = elems a m"
proof -
  have "r + 1 = leos ks + leo k" using assms(1) by simp
  from sift_elems_mset[OF this assms(2), of f a] trinkle_elems_mset[OF assms, of f a False]
  show ?thesis by (simp only: grow_step_def fst_conv split: if_split) simp
qed

lemma grow_step_inv:
  assumes "comparator f" "grow_inv f a n r k ks" "grow_step f a n r k ks = (a', ks')"
  shows "grow_inv f a' n (r + 1) (hd ks') (tl ks') \<and> ks' \<noteq> []"
proof (cases "ks \<noteq> [] \<and> hd ks = k + 1")
  case True
  then obtain ks1 where ks: "ks = (k + 1) # ks1" by (metis list.collapse)
  then have "a' = sift_elems f a r k" "ks' = (k + 2) # ks1" using assms(3) by (auto simp: grow_step_def)
  with grow_inv_merge[OF assms(1) assms(2)[unfolded ks]] show ?thesis by simp
next
  case False
  then have "ks' = (if k = 1 then 0 else 1) # k # ks" "a' = fst (grow_step f a n r k ks)"
    using assms(3) by (auto simp: grow_step_def split: if_split_asm)
  with grow_inv_add[OF assms(1,2)] False show ?thesis by auto
qed

lemma grow_spec:
  assumes "comparator f" "grow_inv f a n r (hd ks) (tl ks)" "ks \<noteq> []" "r < n" "grow f a n r ks = (a', r', ks')"
  shows "grow_inv f a' n r' (hd ks') (tl ks') \<and> ks' \<noteq> [] \<and> r' + 1 = n \<and> elems a' n = elems a n"
  using assms(2-5)
proof (induction "n - r" arbitrary: a r ks rule: less_induct)
  case less
  show ?case
  proof (cases "r + 1 < n")
    case True
    obtain a1 ks1 where st: "grow_step f a n r (hd ks) (tl ks) = (a1, ks1)" by force
    have i: "grow_inv f a1 n (r + 1) (hd ks1) (tl ks1)" "ks1 \<noteq> []"
      using grow_step_inv[OF assms(1) less.prems(1) st] by blast+
    have "grow f a1 n (r + 1) ks1 = (a', r', ks')"
      using less.prems(4) True st by (subst (asm) grow.simps) simp
    moreover have "elems a1 n = elems a n"
      using grow_step_mset[of r "hd ks" "tl ks" n f a n] less.prems(1,3) st by (simp add: grow_inv_def)
    ultimately show ?thesis using less.hyps[OF _ i True] True by simp
  next
    case False
    then show ?thesis using less.prems by (subst (asm) grow.simps) auto
  qed
qed


subsection \<open>The second phase\<close>

lemma heap_max:
  assumes "comparator f" "r + 1 = lo + leo k" "heap f a r k" "lo \<le> i" "i \<le> r"
  shows "f (a i) (a r) \<le> 0"
  using assms(2-5)
proof (induction k arbitrary: r lo rule: less_induct)
  case (less k)
  note cmp = comparatorD[OF assms(1)]
  show ?case
  proof (cases "k \<le> 1")
    case True
    then have "leo k = 1" by (cases k rule: leo.cases) simp_all
    with less.prems have "i = r" by linarith
    then show ?thesis using cmp(5) by simp
  next
    case False
    then have k: "2 \<le> k" "k - 1 < k" "k - 2 < k" by simp_all
    note lay = sons_layout[OF k(1) less.prems(1)]
    have h: "f (a (right_son r)) (a r) \<le> 0" "f (a (left_son r k)) (a r) \<le> 0"
      "heap f a (right_son r) (k - 2)" "heap f a (left_son r k) (k - 1)"
      using less.prems(2) False by (auto simp: heap_unfold[of f a r k])
    consider "i = r" | "lo + leo (k - 1) \<le> i" "i \<le> right_son r" | "i \<le> left_son r k"
      using less.prems(3,4) lay by linarith
    then show ?thesis
    proof cases
      case 1
      then show ?thesis using cmp(5) by simp
    next
      case 2
      then show ?thesis using less.IH[OF k(3) lay(1) h(3)] h(1) cmp(2) by blast
    next
      case 3
      then show ?thesis using less.IH[OF k(2) lay(2) h(4) less.prems(3)] h(2) cmp(2) by blast
    qed
  qed
qed

lemma forest_max:
  assumes "comparator f" "forest f a ks" "roots_sorted f a ks" "i < leos ks"
  shows "f (a i) (a (leos ks - 1)) \<le> 0"
  using assms(2-4)
proof (induction ks)
  case (Cons k ks)
  show ?case
  proof (cases "i < leos ks")
    case True
    then have ne: "ks \<noteq> []" by auto
    have "f (a i) (a (leos ks - 1)) \<le> 0"
      using Cons True roots_sorted_tl by (intro Cons.IH) auto
    moreover have "f (a (leos ks - 1)) (a (leos (k # ks) - 1)) \<le> 0"
      using Cons.prems(2) roots_sorted_Cons[OF ne, of f a k] by blast
    ultimately show ?thesis by (rule comparatorD(2)[OF assms(1)])
  next
    case False
    have "i \<le> leos (k # ks) - 1" using Cons.prems(3) by linarith
    then show ?thesis
      using heap_max[OF assms(1) last_root(2)] Cons.prems(1) False by (simp del: leos_simps)
  qed
qed simp

text \<open>A dominated prefix stays dominated when it is permuted.\<close>

lemma permuted_below:
  assumes "elems b n = elems a n" "\<And>i. i < n \<Longrightarrow> f (a i) x \<le> 0" "i < n"
  shows "f (b i) x \<le> 0"
proof -
  have "b i \<in># elems b n" using assms(3) by auto
  then have "b i \<in># elems a n" using assms(1) by (simp only:)
  then show ?thesis using assms(2) by auto
qed

definition sorted_upto :: "('e \<Rightarrow> 'e \<Rightarrow> int) \<Rightarrow> (nat \<Rightarrow> 'e) \<Rightarrow> nat \<Rightarrow> bool" where
  "sorted_upto f a n \<longleftrightarrow> (\<forall>i j. i < j \<longrightarrow> j < n \<longrightarrow> f (a i) (a j) \<le> 0)"

lemma sorted_upto_Suc:
  assumes "sorted_upto f b n" "\<And>i. i < n \<Longrightarrow> f (b i) (b n) \<le> 0"
  shows "sorted_upto f b (Suc n)"
  using assms by (auto simp: sorted_upto_def less_Suc_eq)

lemma elems_Suc: "elems a n = elems b n \<Longrightarrow> a n = b n \<Longrightarrow> elems a (Suc n) = elems b (Suc n)"
  by simp

text \<open>Splitting the rightmost tree keeps the forest good, and its root is not below anything left of it.\<close>

lemma split_step_spec:
  assumes "comparator f" "r + 1 = leo k + leos ks" "2 \<le> k" "forest f a (k # ks)" "roots_sorted f a (k # ks)"
  shows "forest f (split_step f a r k ks) ((k - 2) # (k - 1) # ks)"
    and "roots_sorted f (split_step f a r k ks) ((k - 2) # (k - 1) # ks)"
    and "r \<le> i \<Longrightarrow> split_step f a r k ks i = a i"
    and "elems (split_step f a r k ks) r = elems a r"
proof -
  let ?a1 = "trinkle_elems f a (left_son r k) (k - 1) ks True"
  have lo: "r + 1 = leos ks + leo k" using assms(2) by simp
  note lay = sons_layout[OF assms(3) lo] and below = sons_below[OF assms(3) lo]
  have rt: "leos (k # ks) - 1 = r" using assms(2) by simp
  have h: "heap f a (left_son r k) (k - 1)" "heap f a (right_son r) (k - 2)"
    using assms(3,4) unfolding forest.simps rt by (auto simp: heap_unfold[of f a r k])
  have ll: "left_son r k + 1 = leo (k - 1) + leos ks" using lay(2) by simp
  have rr: "right_son r + 1 = leo (k - 2) + leos ((k - 1) # ks)" using lay(1) by simp
  note t1 = trinkle_elems_spec[OF assms(1) ll heap_sons[OF h(1)] h(1) _ roots_sorted_tl[OF assms(5)],
      where trusty = True]
  have t1: "forest f ?a1 ((k - 1) # ks)" "roots_sorted f ?a1 ((k - 1) # ks)"
      "\<And>i. left_son r k < i \<Longrightarrow> ?a1 i = a i"
    using t1 assms(4) by simp_all
  have h2: "heap f ?a1 (right_son r) (k - 2)"
    using h(2) heap_cong[OF lay(1), of ?a1 a f] t1(3) lay(2) by simp
  note t2 = trinkle_elems_spec[OF assms(1) rr heap_sons[OF h2] h2 t1(1,2), where trusty = True]
  show "forest f (split_step f a r k ks) ((k - 2) # (k - 1) # ks)"
    "roots_sorted f (split_step f a r k ks) ((k - 2) # (k - 1) # ks)"
    unfolding split_step_def by (rule t2(1,2))+
  show "split_step f a r k ks i = a i" if "r \<le> i"
    unfolding split_step_def using t2(3) t1(3) below(1,2) that by simp
  have "elems ?a1 r = elems a r" by (rule trinkle_elems_mset[OF ll below(2)])
  then show "elems (split_step f a r k ks) r = elems a r"
    unfolding split_step_def trinkle_elems_mset[OF rr below(1)] .
qed

text \<open>The second phase sorts.  Orders increase to the left; a tree of order 0 has one of order 1 next to it.\<close>

definition shrink_shape :: "nat list \<Rightarrow> bool" where
  "shrink_shape ks \<longleftrightarrow> sorted_wrt (<) ks \<and> (ks \<noteq> [] \<and> hd ks = 0 \<longrightarrow> tl ks \<noteq> [] \<and> hd (tl ks) = 1)"

lemma shrink_shape_split:
  assumes "shrink_shape (k # ks)" "2 \<le> k"
  shows "shrink_shape ((k - 2) # (k - 1) # ks)"
  using assms by (auto simp: shrink_shape_def)

lemma shrink_shape_tl:
  assumes "shrink_shape (k # ks)"
  shows "shrink_shape ks"
  using assms by (cases ks) (auto simp: shrink_shape_def)

text \<open>One round of the second phase: the greatest element is in place, and the forest below it is in order.\<close>

lemma shrink_round:
  assumes "comparator f" "r + 1 = leos ks" "forest f a ks" "roots_sorted f a ks" "shrink_shape ks"
    and "\<not> (\<exists>k \<le> 1. ks = [k])"
  shows "\<exists>a' ks'. shrink f a r ks = shrink f a' (r - 1) ks' \<and> r = leos ks' \<and> 0 < r \<and> forest f a' ks'
    \<and> roots_sorted f a' ks' \<and> shrink_shape ks' \<and> elems a' r = elems a r \<and> (\<forall>i. r \<le> i \<longrightarrow> a' i = a i)"
proof -
  obtain k rest where ks: "ks = k # rest" using assms(2) by (cases ks) simp_all
  show ?thesis
  proof (cases "k \<le> 1")
    case True
    then have "leo k = 1" by (cases k rule: leo.cases) simp_all
    then have r: "r = leos rest" using assms(2) ks by simp
    obtain k' ks' where "rest = k' # ks'" using assms(6) True ks by (cases rest) simp_all
    then have "0 < r" using r leo_pos[of k'] by simp
    moreover have "shrink f a r ks = shrink f a (r - 1) rest"
      using True assms(6) unfolding ks by (subst shrink.simps) simp
    moreover have "forest f a rest" "roots_sorted f a rest" "shrink_shape rest"
      using assms(3-5) roots_sorted_tl shrink_shape_tl unfolding ks by auto
    ultimately show ?thesis using r by blast
  next
    case False
    then have k2: "2 \<le> k" by simp
    have rr: "r + 1 = leo k + leos rest" using assms(2) ks by simp
    have r: "r = leos ((k - 2) # (k - 1) # rest)" using rr leo_split[OF k2] by simp
    have "0 < r" using r leo_pos[of "k - 2"] by simp
    moreover have "shrink f a r ks = shrink f (split_step f a r k rest) (r - 1) ((k - 2) # (k - 1) # rest)"
      using False unfolding ks by (subst shrink.simps) simp
    ultimately show ?thesis
      using r split_step_spec[OF assms(1) rr k2 assms(3,4)[unfolded ks]]
        shrink_shape_split[OF assms(5)[unfolded ks] k2] by blast
  qed
qed

lemma shrink_spec:
  assumes "comparator f" "r + 1 = leos ks" "forest f a ks" "roots_sorted f a ks" "shrink_shape ks"
  shows "sorted_upto f (shrink f a r ks) (r + 1) \<and> elems (shrink f a r ks) (r + 1) = elems a (r + 1)
    \<and> (\<forall>i > r. shrink f a r ks i = a i)"
  using assms(2-5)
proof (induction "leos ks" arbitrary: a r ks rule: less_induct)
  case less
  have max: "f (a i) (a r) \<le> 0" if "i < r" for i
    using forest_max[OF assms(1) less.prems(2,3), of i] less.prems(1) that
    by (metis add_diff_cancel_right' trans_less_add1)
  show ?case
  proof (cases "\<exists>k \<le> 1. ks = [k]")
    case True
    then obtain k where k: "ks = [k]" "leo k = 1" by (metis leo.simps(1,2) le_Suc_eq le_zero_eq One_nat_def)
    with True have "r = 0" "shrink f a r ks = a" using less.prems(1) by (auto simp: shrink.simps)
    then show ?thesis by (simp add: sorted_upto_def)
  next
    case False
    obtain a' ks' where n: "shrink f a r ks = shrink f a' (r - 1) ks'" "r = leos ks'" "0 < r" "forest f a' ks'"
        "roots_sorted f a' ks'" "shrink_shape ks'" "elems a' r = elems a r" "\<forall>i. r \<le> i \<longrightarrow> a' i = a i"
      using shrink_round[OF assms(1) less.prems False] by blast
    let ?b = "shrink f a' (r - 1) ks'"
    have IH: "sorted_upto f ?b r" "elems ?b r = elems a' r" "\<And>i. r \<le> i \<Longrightarrow> ?b i = a' i"
      using less.hyps[of ks' "r - 1" a'] n(2-6) less.prems(1) by simp_all
    have br: "?b r = a r" using IH(3) n(8) by simp
    have e: "elems ?b r = elems a r" using IH(2) n(7) by simp
    have "sorted_upto f ?b (Suc r)"
      using permuted_below[OF e, of f "a r"] max br by (intro sorted_upto_Suc[OF IH(1)]) (simp only:)
    moreover have "elems ?b (Suc r) = elems a (Suc r)" by (rule elems_Suc[OF e br])
    ultimately show ?thesis using n(1,8) IH(3) by simp
  qed
qed

text \<open>Smoothsort sorts.\<close>

lemma spaced_sorted: "spaced ks \<Longrightarrow> sorted_wrt (<) ks"
proof (induction ks rule: spaced.induct)
  case (3 k k' ks)
  then show ?case by auto
qed simp_all

lemma shape_shrink_shape: "shape k ks \<Longrightarrow> shrink_shape (k # ks)"
proof -
  assume s: "shape k ks"
  then have "sorted_wrt (<) ks" using spaced_sorted by (simp add: shape_def)
  with s show ?thesis by (cases ks) (auto simp: shape_def shrink_shape_def)
qed

lemma smoothsort_sorts:
  assumes "comparator f" "0 < n"
  shows "sorted_upto f (smoothsort f a n) n \<and> elems (smoothsort f a n) n = elems a n"
proof -
  obtain a1 r ks where g: "grow f a n 0 [1] = (a1, r, ks)" by (cases "grow f a n 0 [1]")
  have i: "grow_inv f a1 n r (hd ks) (tl ks)" "ks \<noteq> []" "r + 1 = n" "elems a1 n = elems a n"
    using grow_spec[OF assms(1) _ _ assms(2) g] grow_inv_start[of f a n] by simp_all
  then obtain k rest where ks: "ks = k # rest" by (cases ks) simp_all
  have inv: "r + 1 = leo k + leos rest" "shape k rest" "sons_heap f a1 r k" "forest f a1 rest" "settled f a1 n rest"
    using i(1) ks by (simp_all add: grow_inv_def)
  have sr: "roots_sorted f a1 rest"
  proof (rule rest_sorted[OF inv(5,2), of 0])
    show "n - leos (k # rest) \<le> 0" using inv(1) i(3) by simp
    show "0 + leo k \<le> leo (hd rest - 1)" if "rest \<noteq> []"
    proof -
      have "k < hd rest" using inv(2) that by (simp add: shape_def)
      then have "k \<le> hd rest - 1" by linarith
      then show ?thesis using leo_mono by simp
    qed
  qed
  let ?b = "trinkle_elems f a1 r k rest False"
  have "sorted_upto f (shrink f ?b r ks) (r + 1) \<and> elems (shrink f ?b r ks) (r + 1) = elems ?b (r + 1)"
    using shrink_spec[OF assms(1) _ trinkle_elems_spec(1,2)[OF assms(1) inv(1,3) _ inv(4) sr]
        shape_shrink_shape[OF inv(2)], of r False] inv(1) unfolding ks leos_simps by blast
  then have "sorted_upto f (shrink f ?b r ks) n" "elems (shrink f ?b r ks) n = elems ?b n"
    unfolding i(3) by blast+
  moreover have "elems ?b n = elems a1 n" using i(3) by (intro trinkle_elems_mset[OF inv(1)]) simp
  moreover have "smoothsort f a n = shrink f ?b r ks" unfolding smoothsort_def g by (simp add: ks)
  ultimately show ?thesis using i(4) by (simp only:)
qed

end
