(* ===== verification/Smoothsort_Code.thy ===== *)
theory Smoothsort_Code
  imports Smoothsort_Phases Crunch_Prelude
begin

text \<open>
  The sort that the provenance instrumentation links in place of the C library's
  (\<^verbatim>\<open>frontend/c/shadowprov/qsort.c\<close>, smoothsort), as it is written: on bytes and pointers, with the
  orders of the trees in a vector of two words and the sizes of the trees, in bytes, in a table.
  The comparison function is a parameter that reads memory through the pointers it is given.  The
  code's fixed arrays are lists with the code's capacity: \<open>BadIndex\<close> is an access outside of them,
  \<open>BadShift\<close> a shift by the width of the word or more.  A list \<open>ar\<close> is the part of the array \<^verbatim>\<open>ar\<close>
  that is filled, so that \<^verbatim>\<open>i\<close> is its length.
\<close>

type_synonym cmpfun = "mem \<Rightarrow> addr \<Rightarrow> addr \<Rightarrow> int"

text \<open>The capacities of the arrays \<^verbatim>\<open>ar\<close> and \<^verbatim>\<open>lp\<close>.\<close>

abbreviation (input) ar_size :: nat where "ar_size \<equiv> 14 * 8 + 1"
abbreviation (input) lp_size :: nat where "lp_size \<equiv> 12 * 8"

text \<open>The instruction \<^verbatim>\<open>bsf\<close>: the index of the lowest set bit; the result for 0 is undefined.\<close>

definition a_ctz_l :: "u64 \<Rightarrow> nat outcome" where
  "a_ctz_l x = (if x = 0 then Inl UninitRead else Inr (length (takeWhile (\<lambda>i. \<not> bit x i) [0..<64])))"

definition pntz :: "u64 \<times> u64 \<Rightarrow> nat outcome" where
  "pntz p =
     obind (a_ctz_l (fst p - 1)) (\<lambda>r.
       if r \<noteq> 0 then Inr r
       else obind (a_ctz_l (snd p)) (\<lambda>z.
         let r = 8 * 8 + z in if r \<noteq> 8 * 8 then Inr r else Inr 0))"

text \<open>One round of the loop of \<^verbatim>\<open>cycle\<close>: the pieces move one place on, the first through \<^verbatim>\<open>tmp\<close>.\<close>

fun cycle_round :: "mem \<Rightarrow> addr list \<Rightarrow> u8 list \<Rightarrow> nat \<Rightarrow> mem" where
  "cycle_round m [] tmp l = m"
| "cycle_round m [a] tmp l = store_bytes m a tmp"
| "cycle_round m (a # b # as) tmp l = cycle_round (store_bytes m a (load_bytes m b l)) (b # as) tmp l"

function cycle_loop :: "mem \<Rightarrow> addr list \<Rightarrow> nat \<Rightarrow> mem" where
  "cycle_loop m ar width =
     (if width = 0 then m
      else let l = (if 256 < width then 256 else width);
               tmp = load_bytes m (ar ! 0) l
           in cycle_loop (cycle_round m ar tmp l) (map (\<lambda>a. a + of_nat l) ar) (width - l))"
  by pat_completeness auto
termination by (relation "measure (\<lambda>(m, ar, width). width)") auto

declare cycle_loop.simps [simp del]

text \<open>The code puts \<^verbatim>\<open>tmp\<close> behind the \<open>n\<close> pointers, in \<^verbatim>\<open>ar[n]\<close>.\<close>

definition cycle :: "mem \<Rightarrow> u64 \<Rightarrow> addr list \<Rightarrow> mem outcome" where
  "cycle m width ar =
     (if length ar < 2 then Inr m
      else if ar_size \<le> length ar then Inl BadIndex
      else Inr (cycle_loop m ar (unat width)))"

text \<open>
  Shifts of the vector by \<open>n\<close> places.  For \<open>n\<close> a multiple of 64 the code shifts a word by 64.
\<close>

definition shl :: "u64 \<times> u64 \<Rightarrow> nat \<Rightarrow> (u64 \<times> u64) outcome" where
  "shl p n0 =
     (let (p0, p1, n) = (if 64 \<le> n0 then (0, fst p, n0 - 64) else (fst p, snd p, n0))
      in if n = 0 \<or> 64 \<le> n then Inl BadShift
         else Inr (push_bit n p0, push_bit n p1 OR drop_bit (64 - n) p0))"

definition shr :: "u64 \<times> u64 \<Rightarrow> nat \<Rightarrow> (u64 \<times> u64) outcome" where
  "shr p n0 =
     (let (p0, p1, n) = (if 64 \<le> n0 then (snd p, 0, n0 - 64) else (fst p, snd p, n0))
      in if n = 0 \<or> 64 \<le> n then Inl BadShift
         else Inr (drop_bit n p0 OR push_bit (64 - n) p1, drop_bit n p1))"

text \<open>The loop of \<^verbatim>\<open>sift\<close>, which collects the places to rotate.\<close>

function sift_ar ::
  "cmpfun \<Rightarrow> mem \<Rightarrow> u64 \<Rightarrow> u64 list \<Rightarrow> addr \<Rightarrow> nat \<Rightarrow> addr list \<Rightarrow> addr list outcome" where
  "sift_ar cmp m width lp head pshift ar =
     (if pshift > 1 then
       (if length lp \<le> pshift - 2 then Inl BadIndex
        else let rt = head - width;
                 lf = head - width - lp ! (pshift - 2)
             in if cmp m (ar ! 0) lf \<ge> 0 \<and> cmp m (ar ! 0) rt \<ge> 0 then Inr ar
                else if ar_size \<le> length ar then Inl BadIndex
                else if cmp m lf rt \<ge> 0 then sift_ar cmp m width lp lf (pshift - 1) (ar @ [lf])
                else sift_ar cmp m width lp rt (pshift - 2) (ar @ [rt]))
      else Inr ar)"
  by pat_completeness auto
termination by (relation "measure (\<lambda>(cmp, m, width, lp, head, pshift, ar). pshift)") auto

declare sift_ar.simps [simp del]

definition sift :: "cmpfun \<Rightarrow> mem \<Rightarrow> u64 \<Rightarrow> u64 list \<Rightarrow> addr \<Rightarrow> nat \<Rightarrow> mem outcome" where
  "sift cmp m width lp head pshift =
     obind (sift_ar cmp m width lp head pshift [head]) (\<lambda>ar. cycle m width ar)"

text \<open>The loop of \<^verbatim>\<open>trinkle\<close>; it cannot run longer than \<^verbatim>\<open>ar\<close> has room.\<close>

function trinkle_ar ::
  "cmpfun \<Rightarrow> mem \<Rightarrow> u64 \<Rightarrow> u64 list \<Rightarrow> addr \<Rightarrow> u64 \<times> u64 \<Rightarrow> nat \<Rightarrow> bool \<Rightarrow> addr list \<Rightarrow>
     (addr list \<times> addr \<times> nat \<times> bool) outcome" where
  "trinkle_ar cmp m width lp head p pshift trusty ar =
     (if p \<noteq> (1, 0) then
       (if length lp \<le> pshift then Inl BadIndex
        else let stepson = head - lp ! pshift;
                 rt = head - width;
                 lf = head - width - lp ! (pshift - 2)
             in if cmp m stepson (ar ! 0) \<le> 0 then Inr (ar, head, pshift, trusty)
                else if \<not> trusty \<and> pshift > 1 \<and> (cmp m rt stepson \<ge> 0 \<or> cmp m lf stepson \<ge> 0)
                then Inr (ar, head, pshift, trusty)
                else if ar_size \<le> length ar then Inl BadIndex
                else obind (pntz p) (\<lambda>trail. obind (shr p trail) (\<lambda>p.
                       trinkle_ar cmp m width lp stepson p (pshift + trail) False (ar @ [stepson]))))
      else Inr (ar, head, pshift, trusty))"
  by pat_completeness auto
termination
  by (relation "measure (\<lambda>(cmp, m, width, lp, head, p, pshift, trusty, ar). ar_size - length ar)") auto

declare trinkle_ar.simps [simp del]

definition trinkle ::
  "cmpfun \<Rightarrow> mem \<Rightarrow> u64 \<Rightarrow> u64 list \<Rightarrow> addr \<Rightarrow> u64 \<times> u64 \<Rightarrow> nat \<Rightarrow> bool \<Rightarrow> mem outcome" where
  "trinkle cmp m width lp head pp pshift trusty =
     obind (trinkle_ar cmp m width lp head pp pshift trusty [head]) (\<lambda>(ar, head, pshift, trusty).
       if \<not> trusty then obind (cycle m width ar) (\<lambda>m. sift cmp m width lp head pshift) else Inr m)"

text \<open>The table of Leonardo numbers, scaled by the width.\<close>

function lp_loop :: "u64 \<Rightarrow> u64 \<Rightarrow> u64 list \<Rightarrow> u64 list outcome" where
  "lp_loop width sz lp =
     (if lp_size \<le> length lp then Inl BadIndex
      else let x = lp ! (length lp - 2) + lp ! (length lp - 1) + width
           in if x < sz then lp_loop width sz (lp @ [x]) else Inr (lp @ [x]))"
  by pat_completeness auto
termination by (relation "measure (\<lambda>(width, sz, lp). lp_size - length lp)") auto

declare lp_loop.simps [simp del]

text \<open>The body of the first loop of \<^verbatim>\<open>qsort\<close>, up to the common end.\<close>

definition grow_body ::
  "cmpfun \<Rightarrow> u64 \<Rightarrow> u64 list \<Rightarrow> addr \<Rightarrow> mem \<Rightarrow> addr \<Rightarrow> u64 \<times> u64 \<Rightarrow> nat \<Rightarrow> (mem \<times> (u64 \<times> u64) \<times> nat) outcome" where
  "grow_body cmp width lp high m head p pshift =
     (if fst p AND 3 = 3 then
        obind (sift cmp m width lp head pshift) (\<lambda>m.
          obind (shr p 2) (\<lambda>p. Inr (m, p, pshift + 2)))
      else
        obind (if pshift = 0 \<or> length lp \<le> pshift - 1 then Inl BadIndex
               else if lp ! (pshift - 1) \<ge> high - head
               then trinkle cmp m width lp head p pshift False
               else sift cmp m width lp head pshift) (\<lambda>m.
          if pshift = 1 then obind (shl p 1) (\<lambda>p. Inr (m, p, 0))
          else obind (shl p (pshift - 1)) (\<lambda>p. Inr (m, p, 1))))"

fun grow_loop ::
  "nat \<Rightarrow> cmpfun \<Rightarrow> u64 \<Rightarrow> u64 list \<Rightarrow> addr \<Rightarrow> mem \<Rightarrow> addr \<Rightarrow> u64 \<times> u64 \<Rightarrow> nat \<Rightarrow>
     (mem \<times> addr \<times> (u64 \<times> u64) \<times> nat) outcome" where
  "grow_loop 0 cmp width lp high m head p pshift =
     (if head < high then Inl NonTermination else Inr (m, head, p, pshift))"
| "grow_loop (Suc fuel) cmp width lp high m head p pshift =
     (if head < high
      then obind (grow_body cmp width lp high m head p pshift) (\<lambda>(m, p, pshift).
             grow_loop fuel cmp width lp high m (head + width) (fst p OR 1, snd p) pshift)
      else Inr (m, head, p, pshift))"

text \<open>The body of the second loop.\<close>

definition shrink_body ::
  "cmpfun \<Rightarrow> u64 \<Rightarrow> u64 list \<Rightarrow> mem \<Rightarrow> addr \<Rightarrow> u64 \<times> u64 \<Rightarrow> nat \<Rightarrow> (mem \<times> (u64 \<times> u64) \<times> nat) outcome" where
  "shrink_body cmp width lp m head p pshift =
     (if pshift \<le> 1 then
        obind (pntz p) (\<lambda>trail. obind (shr p trail) (\<lambda>p. Inr (m, p, pshift + trail)))
      else
        obind (shl p 2) (\<lambda>p.
          let pshift = pshift - 2 in
          obind (shr (fst p XOR 7, snd p) 1) (\<lambda>p.
            if length lp \<le> pshift then Inl BadIndex
            else obind (trinkle cmp m width lp (head - lp ! pshift - width) p (pshift + 1) True) (\<lambda>m.
              obind (shl p 1) (\<lambda>p.
                let p = (fst p OR 1, snd p) in
                obind (trinkle cmp m width lp (head - width) p pshift True) (\<lambda>m.
                  Inr (m, p, pshift)))))))"

fun shrink_loop ::
  "nat \<Rightarrow> cmpfun \<Rightarrow> u64 \<Rightarrow> u64 list \<Rightarrow> mem \<Rightarrow> addr \<Rightarrow> u64 \<times> u64 \<Rightarrow> nat \<Rightarrow> mem outcome" where
  "shrink_loop 0 cmp width lp m head p pshift =
     (if pshift \<noteq> 1 \<or> fst p \<noteq> 1 \<or> snd p \<noteq> 0 then Inl NonTermination else Inr m)"
| "shrink_loop (Suc fuel) cmp width lp m head p pshift =
     (if pshift \<noteq> 1 \<or> fst p \<noteq> 1 \<or> snd p \<noteq> 0
      then obind (shrink_body cmp width lp m head p pshift) (\<lambda>(m, p, pshift).
             shrink_loop fuel cmp width lp m (head - width) p pshift)
      else Inr m)"

definition qsort :: "nat \<Rightarrow> mem \<Rightarrow> addr \<Rightarrow> u64 \<Rightarrow> u64 \<Rightarrow> cmpfun \<Rightarrow> mem outcome" where
  "qsort fuel m base nel width cmp =
     (let size = width * nel
      in if size = 0 then Inr m
         else let high = base + size - width in
           obind (lp_loop width size [width, width]) (\<lambda>lp.
             obind (grow_loop fuel cmp width lp high m base (1, 0) 1) (\<lambda>(m, head, p, pshift).
               obind (trinkle cmp m width lp head p pshift False) (\<lambda>m.
                 shrink_loop fuel cmp width lp m head p pshift))))"

end
