(* ===== verification/Order_Vector.thy ===== *)
theory Order_Vector
  imports Smoothsort_Code
begin

text \<open>
  The vector of orders of \<^verbatim>\<open>qsort.c\<close>: bit \<open>j\<close> of \<^verbatim>\<open>p\<close> says that the forest has a tree of order
  \<^verbatim>\<open>pshift + j\<close>.  \<open>orders p k ks\<close> relates it to the list of orders, for orders below 64, where only
  the first word is in use.  The lemmas show what each use of the vector in the code does to the list,
  and that with trees exactly 64 orders apart \<^verbatim>\<open>pntz\<close> finds the wrong distance.
\<close>

definition orders :: "u64 \<times> u64 \<Rightarrow> nat \<Rightarrow> nat list \<Rightarrow> bool" where
  "orders p k ks \<longleftrightarrow> snd p = 0 \<and> (\<forall>j. bit (fst p) j \<longleftrightarrow> k + j \<in> set (k # ks))
     \<and> sorted_wrt (<) (k # ks) \<and> (\<forall>x \<in> set (k # ks). x \<le> 63)"

lemma ordersD:
  assumes "orders p k ks"
  shows "snd p = 0" "bit (fst p) j \<longleftrightarrow> k + j \<in> set (k # ks)" "sorted_wrt (<) (k # ks)"
    "x \<in> set (k # ks) \<Longrightarrow> x \<le> 63" "x \<in> set ks \<Longrightarrow> k < x" "bit (fst p) 0"
    "bit (fst p) j \<Longrightarrow> k + j \<le> 63"
  using assms by (auto simp: orders_def)

lemma orders_start: "orders (1, 0) 1 []"
  by (simp add: orders_def bit_1_iff)

lemma orders_one:
  assumes "orders p k ks"
  shows "p = (1, 0) \<longleftrightarrow> ks = []"
proof
  assume p: "p = (1, 0)"
  show "ks = []"
  proof (rule ccontr)
    assume "ks \<noteq> []"
    then obtain x where x: "x \<in> set ks" by (cases ks) auto
    then have "bit (fst p) (x - k)" using ordersD(2)[OF assms, of "x - k"] ordersD(5)[OF assms x] by simp
    then show False using p ordersD(5)[OF assms x] by (simp add: bit_1_iff)
  qed
next
  assume "ks = []"
  then have "fst p = 1"
    using ordersD(2)[OF assms] by (intro bit_word_eqI) (simp add: bit_1_iff)
  then show "p = (1, 0)" using ordersD(1)[OF assms] by (simp add: prod_eq_iff)
qed

text \<open>The lowest set bit.\<close>

lemma a_ctz_l_lowest:
  assumes "bit x n" "\<And>i. i < n \<Longrightarrow> \<not> bit x i"
  shows "a_ctz_l x = Inr n"
proof -
  have n: "n < 64" using assms(1) bit_imp_le_length[of x n] by simp
  have "takeWhile (\<lambda>i. \<not> bit x i) [0..<64] = takeWhile (\<lambda>i. \<not> bit x i) ([0..<n] @ n # [Suc n..<64])"
    using n by (metis upt_add_eq_append upt_conv_Cons le_add_diff_inverse less_imp_le_nat zero_le)
  also have "\<dots> = [0..<n]" using assms by (subst takeWhile_append2) simp_all
  finally show ?thesis using assms(1) by (auto simp: a_ctz_l_def)
qed

text \<open>Subtracting one clears the lowest bit of an odd word.\<close>

lemma odd_minus_one_bit:
  fixes w :: u64
  assumes "bit w 0"
  shows "bit (w - 1) j \<longleftrightarrow> j \<noteq> 0 \<and> bit w j"
proof -
  let ?v = "w AND NOT 1"
  have "?v AND 1 = 0" by (rule bit_word_eqI) (auto simp: bit_simps)
  then have "?v + 1 = ?v OR 1" by (simp add: disjunctive_add_eq_or)
  also have "\<dots> = w" using assms by (intro bit_word_eqI) (auto simp: bit_simps)
  finally have "w - 1 = ?v" by (metis add_diff_cancel_right')
  then show ?thesis by (auto simp: bit_and_iff bit_not_iff bit_1_iff dest: bit_imp_le_length)
qed

text \<open>Shifts by less than a word, when the second word is not needed.\<close>

lemma shr_low:
  assumes "0 < n" "n < 64" "snd p = 0"
  shows "shr p n = Inr (drop_bit n (fst p), 0)"
  using assms by (simp add: shr_def)

lemma shl_low:
  assumes "0 < n" "n < 64" "snd p = 0" "\<And>j. bit (fst p) j \<Longrightarrow> j + n < 64"
  shows "shl p n = Inr (push_bit n (fst p), 0)"
proof -
  have "\<not> bit (fst p) (64 - n + j)" for j using assms(4)[of "64 - n + j"] assms(2) by auto
  then have "drop_bit (64 - n) (fst p) = 0" by (intro bit_word_eqI) (simp add: bit_drop_bit_eq)
  then show ?thesis using assms(1-3) by (simp add: shl_def)
qed

text \<open>Leaving the rightmost tree: the next one is \<open>pntz p\<close> orders higher.\<close>

lemma orders_next:
  assumes "orders p k (k' # ks)"
  shows "pntz p = Inr (k' - k)" "\<exists>p'. shr p (k' - k) = Inr p' \<and> orders p' k' ks"
proof -
  note d = ordersD[OF assms]
  have kk: "k < k'" "k' \<le> 63" using d(4)[of k'] d(5)[of k'] by simp_all
  have low: "bit (fst p - 1) j \<longleftrightarrow> j \<noteq> 0 \<and> k + j \<in> set (k' # ks)" for j
    using odd_minus_one_bit[OF d(6)] d(2)[of j] by auto
  have "\<not> bit (fst p - 1) i" if "i < k' - k" for i
    using low[of i] d(3) that by auto
  moreover have "bit (fst p - 1) (k' - k)" using low[of "k' - k"] kk by simp
  ultimately have "a_ctz_l (fst p - 1) = Inr (k' - k)" using a_ctz_l_lowest by blast
  then show "pntz p = Inr (k' - k)" using kk by (simp add: pntz_def)
  have "shr p (k' - k) = Inr (drop_bit (k' - k) (fst p), 0)" using kk d(1) by (intro shr_low) simp_all
  moreover have "orders (drop_bit (k' - k) (fst p), 0) k' ks"
  proof -
    have "bit (drop_bit (k' - k) (fst p)) j \<longleftrightarrow> k' + j \<in> set (k' # ks)" for j
      using d(2)[of "k' - k + j"] kk by (simp add: bit_drop_bit_eq)
    then show ?thesis using d(3,4) by (auto simp: orders_def)
  qed
  ultimately show "\<exists>p'. shr p (k' - k) = Inr p' \<and> orders p' k' ks" by blast
qed

text \<open>The test for a tree of the next order.\<close>

lemma and_3_bits: "(w :: u64) AND 3 = 3 \<longleftrightarrow> bit w 0 \<and> bit w 1"
proof
  assume h: "w AND 3 = 3"
  have "bit (3 :: u64) 0" "bit (3 :: u64) 1" by (simp_all add: bit_iff_odd)
  then show "bit w 0 \<and> bit w 1" using h by (metis bit_and_iff)
next
  assume h: "bit w 0 \<and> bit w 1"
  have three: "bit (3 :: u64) j \<longleftrightarrow> j = 0 \<or> j = 1" for j
    by (cases j) (simp_all add: bit_Suc bit_1_iff bit_0)
  show "w AND 3 = 3" by (rule bit_word_eqI) (unfold bit_and_iff three, use h in auto)
qed

lemma orders_and_3:
  assumes "orders p k ks"
  shows "fst p AND 3 = 3 \<longleftrightarrow> ks \<noteq> [] \<and> hd ks = k + 1"
proof -
  note d = ordersD[OF assms]
  have "fst p AND 3 = 3 \<longleftrightarrow> k + 1 \<in> set ks" using and_3_bits[of "fst p"] d(2)[of 1] d(6) by simp
  also have "\<dots> \<longleftrightarrow> ks \<noteq> [] \<and> hd ks = k + 1"
    using d(3) by (cases ks) fastforce+
  finally show ?thesis .
qed

lemma bit_or_1: "bit ((w :: u64) OR 1) j \<longleftrightarrow> bit w j \<or> j = 0"
  by (auto simp: bit_simps)

text \<open>Two trees become one.\<close>

lemma orders_merge:
  assumes "orders p k ((k + 1) # ks)" "k + 2 \<le> 63" "ks \<noteq> [] \<Longrightarrow> k + 2 < hd ks"
  shows "\<exists>p'. shr p 2 = Inr p' \<and> orders (fst p' OR 1, snd p') (k + 2) ks"
proof -
  note d = ordersD[OF assms(1)]
  have "shr p 2 = Inr (drop_bit 2 (fst p), 0)" using d(1) by (intro shr_low) simp_all
  moreover have "orders (drop_bit 2 (fst p) OR 1, 0) (k + 2) ks"
  proof -
    have "bit (drop_bit 2 (fst p) OR 1) j \<longleftrightarrow> k + 2 + j \<in> set ((k + 2) # ks)" for j
      using d(2)[of "2 + j"] by (auto simp: bit_or_1 bit_drop_bit_eq)
    moreover have "sorted_wrt (<) ((k + 2) # ks)" using d(3) assms(3) by (cases ks) auto
    ultimately show ?thesis using d(4) assms(2) by (auto simp: orders_def)
  qed
  ultimately show ?thesis by auto
qed

text \<open>A tree of one element joins on the right.\<close>

lemma orders_add:
  assumes "orders p k ks" "1 \<le> k" "j < k" "n = k - j"
  shows "\<exists>p'. shl p n = Inr p' \<and> orders (fst p' OR 1, snd p') j (k # ks)"
proof -
  note d = ordersD[OF assms(1)]
  have n: "0 < n" "n < 64" using assms(2-4) d(4)[of k] by simp_all
  have "i + n < 64" if "bit (fst p) i" for i using d(7)[OF that] assms(2-4) by simp
  then have "shl p n = Inr (push_bit n (fst p), 0)" by (rule shl_low[OF n d(1)])
  moreover have "orders (push_bit n (fst p) OR 1, 0) j (k # ks)"
  proof -
    have "bit (push_bit n (fst p) OR 1) i \<longleftrightarrow> j + i \<in> set (j # k # ks)" for i
      using d(2)[of "i - n"] d(4)[of "j + i"] d(5)[of "j + i"] assms(3,4) n
      by (auto simp: bit_or_1 bit_push_bit_iff add.commute)
    moreover have "j \<le> 63" using d(4)[of k] assms(3) by simp
    ultimately show ?thesis using d(3,4) assms(3) by (auto simp: orders_def)
  qed
  ultimately show ?thesis by auto
qed

text \<open>The rightmost tree splits into its subtrees, in two steps with a trinkle after each.\<close>

lemma bit_7: "bit (7 :: u64) j \<longleftrightarrow> j = 0 \<or> j = 1 \<or> j = 2"
proof -
  have m: "(7 :: u64) = mask 3" by (simp add: mask_eq_exp_minus_1)
  show ?thesis unfolding m bit_mask_iff by auto
qed

lemma orders_split:
  assumes "orders p k ks" "2 \<le> k"
  shows "\<exists>p1 p2 p3. shl p 2 = Inr p1 \<and> shr (fst p1 XOR 7, snd p1) 1 = Inr p2 \<and> orders p2 (k - 1) ks
      \<and> shl p2 1 = Inr p3 \<and> orders (fst p3 OR 1, snd p3) (k - 2) ((k - 1) # ks)"
proof -
  note d = ordersD[OF assms(1)]
  define q where "q = push_bit 2 (fst p) XOR 7"
  have up: "i + 2 < 64" if "bit (fst p) i" for i using d(7)[OF that] assms(2) by simp
  have 1: "shl p 2 = Inr (push_bit 2 (fst p), 0)" by (rule shl_low[OF _ _ d(1) up]) simp_all
  have 2: "shr (q, 0) 1 = Inr (drop_bit 1 q, 0)" by (simp add: shr_low)
  have bq: "bit q i \<longleftrightarrow> i = 0 \<or> i = 1 \<or> 2 < i \<and> bit (fst p) (i - 2)" for i
    unfolding q_def bit_xor_iff bit_7 bit_push_bit_iff using up[of "i - 2"] d(6) by auto
  have "bit (drop_bit 1 q) j \<longleftrightarrow> k - 1 + j \<in> set ((k - 1) # ks)" for j
    using bq[of "1 + j"] d(2)[of "j - 1"] d(5)[of "k - 1 + j"] assms(2)
    by (cases "j \<le> 1") (auto simp: bit_drop_bit_eq)
  moreover have "sorted_wrt (<) ((k - 1) # ks)" using d(3) assms(2) by auto
  moreover have "k - 1 \<le> 63" using d(4)[of k] by simp
  then have "\<forall>x \<in> set ((k - 1) # ks). x \<le> 63" using d(4) by auto
  ultimately have o: "orders (drop_bit 1 q, 0) (k - 1) ks"
    unfolding orders_def fst_conv snd_conv by blast
  obtain p3 where p3: "shl (drop_bit 1 q, 0) 1 = Inr p3" "orders (fst p3 OR 1, snd p3) (k - 2) ((k - 1) # ks)"
  proof -
    have "1 \<le> k - 1" "k - 2 < k - 1" "1 = k - 1 - (k - 2)" using assms(2) by linarith+
    from orders_add[OF o this] that show thesis by blast
  qed
  show ?thesis
    by (rule exI[of _ "(push_bit 2 (fst p), 0)"], rule exI[of _ "(drop_bit 1 q, 0)"], rule exI[of _ p3])
       (simp only: 1 2 o p3 fst_conv snd_conv q_def[symmetric])
qed

text \<open>
  Two trees whose orders differ by exactly 64 lie beyond what the code can handle: \<^verbatim>\<open>pntz\<close> mistakes
  the distance 64 for its own marker of an empty second word and answers 0, if the undefined result
  of \<^verbatim>\<open>bsf\<close> for the first word, which holds no further tree, lets it get there at all.
\<close>

lemma pntz_gap_64: "pntz (1, p1) = Inl UninitRead"
  by (simp add: pntz_def a_ctz_l_def)

lemma pntz_second_word:
  assumes "bit p1 0" "a_ctz_l (p0 - 1) = Inr 0"
  shows "pntz (p0, p1) = Inr 0"
  using assms a_ctz_l_lowest[of p1 0] by (simp add: pntz_def)

end
