(* ===== verification/Smoothsort.thy ===== *)
theory Smoothsort
  imports Order_Vector
begin

text \<open>
  The C code of \<^verbatim>\<open>qsort.c\<close> implements smoothsort.  The lemmas relate each operation on memory to the
  operation on elements: \<^verbatim>\<open>cycle\<close>, which moves elements through a small buffer, piece by piece, is
  rotation of whole elements; the vector of two words holds the orders of the forest; \<^verbatim>\<open>sift\<close>,
  \<^verbatim>\<open>trinkle\<close> and the two loops follow their counterparts.  The theorem is that \<^verbatim>\<open>qsort\<close> returns, for
  every array of fewer elements than the Leonardo tree of order 64, and leaves it sorted.
\<close>

subsection \<open>Elements in memory\<close>

definition place :: "addr \<Rightarrow> u64 \<Rightarrow> nat \<Rightarrow> addr" where
  "place base width i = base + of_nat (i * unat width)"

definition element :: "mem \<Rightarrow> addr \<Rightarrow> u64 \<Rightarrow> nat \<Rightarrow> u8 list" where
  "element m base width i = load_bytes m (place base width i) (unat width)"

text \<open>A byte range given by its offset from \<open>base\<close>.\<close>

lemma offset_in_range:
  fixes x base :: addr
  assumes "A + l \<le> 2 ^ 64" "0 < l"
  shows "unat (x - (base + of_nat A)) < l \<longleftrightarrow> A \<le> unat (x - base) \<and> unat (x - base) < A + l"
    and "A \<le> unat (x - base) \<Longrightarrow> unat (x - (base + of_nat A)) = unat (x - base) - A"
proof -
  have A: "unat (of_nat A :: u64) = A" using assms by (intro unat_of_nat_u64) simp
  have e: "x - (base + of_nat A) = (x - base) - of_nat A" by simp
  show sub: "unat (x - (base + of_nat A)) = unat (x - base) - A" if "A \<le> unat (x - base)"
    unfolding e using unat_sub_nowrap[of "of_nat A" "x - base"] that A by (simp add: word_le_nat_alt)
  show "unat (x - (base + of_nat A)) < l \<longleftrightarrow> A \<le> unat (x - base) \<and> unat (x - base) < A + l"
  proof (cases "A \<le> unat (x - base)")
    case True
    then show ?thesis using sub by auto
  next
    case False
    then have lt: "unat (x - base) < unat (of_nat A :: u64)" using A by simp
    then have "unat ((x - base) - of_nat A) = 2 ^ 64 + unat (x - base) - A"
      using unat_sub_if'[of "x - base" "of_nat A :: u64"] A by (simp add: word_le_nat_alt)
    with False assms(1) show ?thesis unfolding e by simp
  qed
qed

lemma place_offset:
  assumes "i < n" "c < unat width" "n * unat width \<le> 2 ^ 64"
  shows "unat (place base width i + of_nat c - base) = i * unat width + c"
proof -
  have "i * unat width + c < (i + 1) * unat width" using assms(2) by simp
  also have "\<dots> \<le> n * unat width" using assms(1) by (intro mult_le_mono1) simp
  finally have "i * unat width + c < 2 ^ 64" using assms(3) by simp
  then have "unat (of_nat (i * unat width + c) :: u64) = i * unat width + c" by (rule unat_of_nat_u64)
  moreover have "place base width i + of_nat c - base = of_nat (i * unat width + c)"
    by (simp add: place_def)
  ultimately show ?thesis by (simp only:)
qed

lemma index_split:
  fixes w :: nat
  assumes "p < w" "c + l \<le> w"
  shows "j * w + c \<le> i * w + p \<and> i * w + p < j * w + c + l \<longleftrightarrow> i = j \<and> c \<le> p \<and> p < c + l"
proof (cases i j rule: linorder_cases)
  case less
  then have "(i + 1) * w \<le> j * w" by (intro mult_le_mono1) simp
  with assms less show ?thesis by (simp add: algebra_simps)
next
  case greater
  then have "(j + 1) * w \<le> i * w" by (intro mult_le_mono1) simp
  with assms greater show ?thesis by (simp add: algebra_simps)
qed auto

lemma piece_fits:
  fixes w :: nat
  assumes "j < n" "c + l \<le> w"
  shows "j * w + c + l \<le> n * w"
proof -
  have "(j + 1) * w \<le> n * w" using assms(1) by (intro mult_le_mono1) simp
  with assms(2) show ?thesis by (simp add: algebra_simps)
qed

text \<open>Storing a piece of the element at \<open>j\<close> changes that piece and nothing else.\<close>

lemma store_piece:
  assumes "n * unat width \<le> 2 ^ 64" "j < n" "c + l \<le> unat width" "0 < l" "length bs = l"
  shows "i < n \<Longrightarrow> p < unat width \<Longrightarrow> store_bytes m (place base width j + of_nat c) bs (place base width i + of_nat p)
      = (if i = j \<and> c \<le> p \<and> p < c + l then bs ! (p - c) else m (place base width i + of_nat p))"
    and "n * unat width \<le> unat (x - base) \<Longrightarrow> store_bytes m (place base width j + of_nat c) bs x = m x"
proof -
  let ?w = "unat width" and ?A = "j * unat width + c"
  have A: "?A + l \<le> 2 ^ 64" using piece_fits[OF assms(2,3)] assms(1) by linarith
  have d: "place base width j + of_nat c = base + of_nat ?A" by (simp add: place_def)
  note r = offset_in_range[OF A assms(4)]
  show "store_bytes m (place base width j + of_nat c) bs (place base width i + of_nat p)
      = (if i = j \<and> c \<le> p \<and> p < c + l then bs ! (p - c) else m (place base width i + of_nat p))"
    if "i < n" "p < ?w"
  proof -
    let ?x = "place base width i + of_nat p"
    have x: "unat (?x - base) = i * ?w + p" using place_offset[OF that assms(1)] .
    have "unat (?x - (base + of_nat ?A)) < length bs \<longleftrightarrow> i = j \<and> c \<le> p \<and> p < c + l"
      using r(1)[of ?x base] index_split[OF that(2) assms(3), of j i] assms(5) unfolding x by simp
    moreover have "unat (?x - (base + of_nat ?A)) = p - c" if "i = j" "c \<le> p"
      using r(2)[of ?x base] that unfolding x by simp
    ultimately show ?thesis unfolding store_bytes_def d by simp
  qed
  show "store_bytes m (place base width j + of_nat c) bs x = m x" if "n * ?w \<le> unat (x - base)"
    unfolding store_bytes_def d using r(1)[of x base] piece_fits[OF assms(2,3)] that assms(5) by simp
qed


subsection \<open>Cycling is rotation\<close>

lemma load_piece:
  assumes "c \<le> p" "p < c + l"
  shows "load_bytes m (a + of_nat c) l ! (p - c) = m (a + of_nat p)"
proof -
  have "p - c < l" "c + (p - c) = p" using assms by simp_all
  then show ?thesis by (simp add: load_bytes_def add.assoc flip: of_nat_add)
qed

lemma rotate_in_image: "g (rotate_in v a is i) = rotate_in (g v) (\<lambda>i. g (a i)) is i"
proof (induction v a "is" rule: rotate_in.induct)
  case (3 v a i' j js)
  have "(\<lambda>i. g ((a(i' := a j)) i)) = (\<lambda>i. g (a i))(i' := g (a j))" by (simp add: fun_eq_iff)
  with 3 show ?case by (simp only: rotate_in.simps)
qed auto

lemma cycle_round_bytes:
  assumes "n * unat width \<le> 2 ^ 64" "set is \<subseteq> {..<n}" "c + l \<le> unat width" "0 < l" "length tmp = l"
  shows "i < n \<Longrightarrow> p < unat width \<Longrightarrow>
      cycle_round m (map (\<lambda>i. place base width i + of_nat c) is) tmp l (place base width i + of_nat p)
      = (if c \<le> p \<and> p < c + l
         then rotate_in (tmp ! (p - c)) (\<lambda>i. m (place base width i + of_nat p)) is i
         else m (place base width i + of_nat p))"
    and "n * unat width \<le> unat (x - base) \<Longrightarrow>
      cycle_round m (map (\<lambda>i. place base width i + of_nat c) is) tmp l x = m x"
proof -
  let ?at = "\<lambda>i q. place base width i + of_nat q"
  show "cycle_round m (map (\<lambda>i. ?at i c) is) tmp l x = m x" if "n * unat width \<le> unat (x - base)"
    using assms(2)
  proof (induction "is" arbitrary: m rule: induct_list012)
    case (2 i)
    then show ?case using store_piece(2)[OF assms(1) _ assms(3,4,5) that] by simp
  next
    case (3 i j js)
    then show ?case using store_piece(2)[OF assms(1) _ assms(3,4) _ that] by simp
  qed simp
  show "cycle_round m (map (\<lambda>i. ?at i c) is) tmp l (?at i p)
      = (if c \<le> p \<and> p < c + l then rotate_in (tmp ! (p - c)) (\<lambda>i. m (?at i p)) is i else m (?at i p))"
    if ip: "i < n" "p < unat width"
    using assms(2)
  proof (induction "is" arbitrary: m rule: induct_list012)
    case (2 j)
    then show ?case using store_piece(1)[OF assms(1) _ assms(3,4,5) ip] by simp
  next
    case (3 j j' js)
    let ?m = "store_bytes m (?at j c) (load_bytes m (?at j' c) l)"
    have col: "?m (?at i' p) = (if c \<le> p \<and> p < c + l then ((\<lambda>i. m (?at i p))(j := m (?at j' p))) i'
        else m (?at i' p))" if "i' < n" for i'
    proof -
      show ?thesis
        using store_piece(1)[OF assms(1) _ assms(3,4) _ that ip(2), of j "load_bytes m (?at j' c) l" m base] 3(3)
          load_piece[of c p l m "place base width j'"] by auto
    qed
    have "cycle_round m (map (\<lambda>i. ?at i c) (j # j' # js)) tmp l (?at i p)
        = cycle_round ?m (map (\<lambda>i. ?at i c) (j' # js)) tmp l (?at i p)" by simp
    also have "\<dots> = (if c \<le> p \<and> p < c + l then rotate_in (tmp ! (p - c)) (\<lambda>i. ?m (?at i p)) (j' # js) i
        else ?m (?at i p))" using 3 by simp
    also have "\<dots> = (if c \<le> p \<and> p < c + l
        then rotate_in (tmp ! (p - c)) (\<lambda>i. m (?at i p)) (j # j' # js) i else m (?at i p))"
      using col rotate_in_cong[of n "\<lambda>i. ?m (?at i p)" "(\<lambda>i. m (?at i p))(j := m (?at j' p))" "j' # js" i "tmp ! (p - c)"]
        3(3) ip(1) by (auto simp del: fun_upd_apply)
    finally show ?case .
  qed simp
qed

text \<open>The pieces that a round moves, and the pointers after it.\<close>

definition piece :: "nat \<Rightarrow> nat" where
  "piece rest = (if 256 < rest then 256 else rest)"

lemma piece_bounds: "0 < rest \<Longrightarrow> 0 < piece rest" "piece rest \<le> rest"
  by (simp_all add: piece_def)

lemma cycle_loop_step:
  assumes "0 < rest" "is \<noteq> []"
  shows "cycle_loop m (map (\<lambda>i. place base width i + of_nat c) is) rest
    = cycle_loop (cycle_round m (map (\<lambda>i. place base width i + of_nat c) is)
          (load_bytes m (place base width (hd is) + of_nat c) (piece rest)) (piece rest))
        (map (\<lambda>i. place base width i + of_nat (c + piece rest)) is) (rest - piece rest)"
  using assms by (subst cycle_loop.simps) (simp add: piece_def hd_conv_nth o_def add.assoc Let_def)

lemma cycle_loop_outside:
  assumes "n * unat width \<le> 2 ^ 64" "set is \<subseteq> {..<n}" "is \<noteq> []" "c + rest = unat width"
    and "n * unat width \<le> unat (x - base)"
  shows "cycle_loop m (map (\<lambda>i. place base width i + of_nat c) is) rest x = m x"
  using assms(4)
proof (induction rest arbitrary: m c rule: less_induct)
  case (less rest)
  show ?case
  proof (cases "rest = 0")
    case False
    then have l: "0 < piece rest" "c + piece rest \<le> unat width" "rest - piece rest < rest"
        "c + piece rest + (rest - piece rest) = unat width"
      using piece_bounds[of rest] less.prems by simp_all
    from False show ?thesis
      using less.IH[OF l(3,4)] cycle_round_bytes(2)[OF assms(1,2) l(2,1) _ assms(5)] cycle_loop_step[OF _ assms(3)]
      by simp
  qed (simp add: cycle_loop.simps)
qed

lemma cycle_loop_bytes:
  assumes "n * unat width \<le> 2 ^ 64" "set is \<subseteq> {..<n}" "is \<noteq> []" "c + rest = unat width"
    and "i < n" "p < unat width"
  shows "cycle_loop m (map (\<lambda>i. place base width i + of_nat c) is) rest (place base width i + of_nat p)
    = (if c \<le> p then rotate_in (m (place base width (hd is) + of_nat p)) (\<lambda>i. m (place base width i + of_nat p)) is i
       else m (place base width i + of_nat p))"
  using assms(4)
proof (induction rest arbitrary: m c rule: less_induct)
  case (less rest)
  let ?at = "\<lambda>i q. place base width i + of_nat q"
  show ?case
  proof (cases "rest = 0")
    case True
    then show ?thesis using less.prems assms(6) by (simp add: cycle_loop.simps)
  next
    case False
    define l where "l = piece rest"
    define m1 where "m1 = cycle_round m (map (\<lambda>i. ?at i c) is) (load_bytes m (?at (hd is) c) l) l"
    have l: "0 < l" "c + l \<le> unat width" "rest - l < rest" "c + l + (rest - l) = unat width"
      using False piece_bounds[of rest] less.prems by (simp_all add: l_def)
    have col: "m1 (?at i' p) = (if c \<le> p \<and> p < c + l then rotate_in (m (?at (hd is) p)) (\<lambda>i. m (?at i p)) is i'
        else m (?at i' p))" if "i' < n" for i'
      using cycle_round_bytes(1)[OF assms(1,2) l(2,1) _ that assms(6), of "load_bytes m (?at (hd is) c) l" m base]
        load_piece[of c p l m "place base width (hd is)"] by (simp add: m1_def)
    have hd: "hd is < n" using assms(2,3) by (metis hd_in_set lessThan_iff subsetD)
    have "cycle_loop m (map (\<lambda>i. ?at i c) is) rest (?at i p)
        = (if c + l \<le> p then rotate_in (m1 (?at (hd is) p)) (\<lambda>i. m1 (?at i p)) is i else m1 (?at i p))"
      using less.IH[OF l(3,4)] cycle_loop_step[OF _ assms(3)] False by (simp add: l_def m1_def)
    also have "\<dots> = (if c \<le> p then rotate_in (m (?at (hd is) p)) (\<lambda>i. m (?at i p)) is i else m (?at i p))"
      using col[OF hd] col[OF assms(5)] col
        rotate_in_cong[of n "\<lambda>i. m1 (?at i p)" "\<lambda>i. m (?at i p)" "is" i "m (?at (hd is) p)"] assms(2,5)
      by (cases "c + l \<le> p") auto
    finally show ?thesis .
  qed
qed

text \<open>On elements, \<^verbatim>\<open>cycle\<close> is a rotation; outside the array nothing changes.\<close>

definition same_elsewhere :: "addr \<Rightarrow> u64 \<Rightarrow> nat \<Rightarrow> mem \<Rightarrow> mem \<Rightarrow> bool" where
  "same_elsewhere base width n m m' \<longleftrightarrow> (\<forall>x. n * unat width \<le> unat (x - base) \<longrightarrow> m' x = m x)"

lemma length_element [simp]: "length (element m base width i) = unat width"
  by (simp add: element_def)

lemma element_nth: "p < unat width \<Longrightarrow> element m base width i ! p = m (place base width i + of_nat p)"
  by (simp add: element_def load_bytes_def)

lemma cycle_spec:
  assumes "n * unat width \<le> 2 ^ 64" "set is \<subseteq> {..<n}" "is \<noteq> []" "length is < ar_size"
  shows "\<exists>m'. cycle m width (map (place base width) is) = Inr m' \<and> same_elsewhere base width n m m'
    \<and> (\<forall>i < n. element m' base width i = rotate_in (element m base width (hd is)) (element m base width) is i)"
proof (cases "length is < 2")
  case True
  then obtain j where "is = [j]" using assms(3) by (cases "is") auto
  then show ?thesis by (auto simp: cycle_def same_elsewhere_def)
next
  case False
  let ?m = "cycle_loop m (map (\<lambda>i. place base width i + of_nat 0) is) (unat width)"
  have "cycle m width (map (place base width) is) = Inr ?m"
    using False assms(4) by (simp add: cycle_def)
  moreover have "same_elsewhere base width n m ?m"
    unfolding same_elsewhere_def using cycle_loop_outside[OF assms(1-3), of 0] by simp
  moreover have "element ?m base width i = rotate_in (element m base width (hd is)) (element m base width) is i"
    if "i < n" for i
  proof (rule nth_equalityI)
    show "length (element ?m base width i)
        = length (rotate_in (element m base width (hd is)) (element m base width) is i)"
      using rotate_in_image[of length "element m base width (hd is)" "element m base width" "is" i]
        rotate_in_image[of "\<lambda>_. unat width" "element m base width (hd is)" "element m base width" "is" i]
      by (simp only: length_element)
    fix p assume "p < length (element ?m base width i)"
    then have p: "p < unat width" by simp
    show "element ?m base width i ! p
        = rotate_in (element m base width (hd is)) (element m base width) is i ! p"
      using cycle_loop_bytes[OF assms(1-3) _ that p, of 0 "unat width" m base]
        rotate_in_image[of "\<lambda>e. e ! p" "element m base width (hd is)" "element m base width" "is" i]
      by (simp add: element_nth[OF p])
  qed
  ultimately show ?thesis by blast
qed


subsection \<open>Sifting\<close>

text \<open>
  What \<^verbatim>\<open>qsort\<close> is given: an array of \<open>n\<close> elements in user space, fewer than fill the Leonardo tree of
  order 64, and a comparison function that compares the elements its arguments point to.
\<close>

definition sorting :: "cmpfun \<Rightarrow> (u8 list \<Rightarrow> u8 list \<Rightarrow> int) \<Rightarrow> addr \<Rightarrow> u64 \<Rightarrow> nat \<Rightarrow> bool" where
  "sorting cmp f base width n \<longleftrightarrow> comparator f \<and> 0 < width \<and> unat base + n * unat width < 2 ^ 62 \<and> n < leo 64
     \<and> (\<forall>m x y. cmp m x y = f (load_bytes m x (unat width)) (load_bytes m y (unat width)))"

text \<open>A table of tree sizes in bytes that reaches up to \<open>n\<close> elements.\<close>

definition table :: "u64 \<Rightarrow> nat \<Rightarrow> u64 list \<Rightarrow> bool" where
  "table width n lp \<longleftrightarrow> (\<forall>i < length lp. lp ! i = of_nat (leo i * unat width)) \<and> n \<le> leo (length lp - 1)
     \<and> 2 \<le> length lp"

lemma sortingD:
  assumes "sorting cmp f base width n"
  shows "comparator f" "0 < unat width" "unat base + n * unat width < 2 ^ 62" "n < leo 64"
    "n * unat width \<le> 2 ^ 64"
    "cmp m (place base width i) (place base width j) = f (element m base width i) (element m base width j)"
  using assms by (auto simp: sorting_def element_def word_less_nat_alt)

lemma leo_strict: "1 \<le> j \<Longrightarrow> j < k \<Longrightarrow> leo j < leo k"
proof (induction k rule: leo.induct)
  case (3 k)
  have "leo (Suc k) < leo (Suc (Suc k))" using leo_pos[of k] by simp
  moreover have "leo j \<le> leo (Suc k)" using 3(4) by (intro leo_mono) simp
  ultimately show ?case by simp
qed auto

lemma order_in_table:
  assumes "table width n lp" "leo k \<le> n"
  shows "k < length lp"
proof (rule ccontr)
  assume "\<not> k < length lp"
  then have "leo (length lp - 1) < leo k" using assms(1) by (intro leo_strict) (auto simp: table_def)
  with assms show False by (simp add: table_def)
qed

lemma order_bound: "leo k \<le> n \<Longrightarrow> n < leo 64 \<Longrightarrow> k \<le> 63"
  using leo_mono[of 64 k] by (cases "64 \<le> k") auto

lemma place_diff: "j \<le> r \<Longrightarrow> place base width r - of_nat (j * unat width) = place base width (r - j)"
  by (simp add: place_def algebra_simps diff_mult_distrib of_nat_diff)

lemma place_pred: "1 \<le> r \<Longrightarrow> place base width r - width = place base width (r - 1)"
  using place_diff[of 1 r base width] by simp

lemma table_nth: "table width n lp \<Longrightarrow> i < length lp \<Longrightarrow> lp ! i = of_nat (leo i * unat width)"
  by (simp add: table_def)

text \<open>The sons and the next root, as the code computes them.\<close>

lemma son_places:
  assumes "table width n lp" "2 \<le> k" "r + 1 = lo + leo k" "leo k \<le> n"
  shows "k - 2 < length lp" "place base width r - width = place base width (right_son r)"
    "place base width r - width - lp ! (k - 2) = place base width (left_son r k)"
proof -
  show kl: "k - 2 < length lp" using order_in_table[OF assms(1,4)] by simp
  have r: "1 \<le> r" "leo (k - 2) \<le> r - 1"
    using sons_layout[OF assms(2,3)] leo_pos[of "k - 1"] by (simp_all add: right_son_def)
  show "place base width r - width = place base width (right_son r)"
    using place_pred[OF r(1)] by (simp add: right_son_def)
  then show "place base width r - width - lp ! (k - 2) = place base width (left_son r k)"
    using place_diff[OF r(2)] table_nth[OF assms(1) kl] by (simp add: right_son_def left_son_def)
qed

lemma sift_ar_spec:
  assumes "sorting cmp f base width n" "table width n lp"
    and "r + 1 = lo + leo k" "r < n" "ar \<noteq> []" "ar ! 0 = place base width r0" "length ar + k \<le> ar_size"
  shows "sift_ar cmp m width lp (place base width r) k ar
    = Inr (ar @ map (place base width) (sift_path f (element m base width) (element m base width r0) r k))"
  using assms(3-7)
proof (induction k arbitrary: r lo ar rule: less_induct)
  case (less k)
  let ?e = "element m base width" and ?pl = "place base width"
  note cmp = sortingD(6)[OF assms(1)]
  show ?case
  proof (cases "k \<le> 1")
    case True
    then show ?thesis by (simp add: sift_ar.simps[of cmp m width lp] sift_path.simps[of f ?e _ r k])
  next
    case False
    then have k: "2 \<le> k" "k - 1 < k" "k - 2 < k" by simp_all
    note lay = sons_layout[OF k(1) less.prems(1)]
    have kn: "leo k \<le> n" using less.prems(1,2) by simp
    note sp = son_places[OF assms(2) k(1) less.prems(1) kn]
    have cap: "length ar + 1 + (k - 1) \<le> ar_size" "length ar + 1 + (k - 2) \<le> ar_size"
      using less.prems(5) k by linarith+
    have IHl: "sift_ar cmp m width lp (?pl (left_son r k)) (k - 1) (ar @ [?pl (left_son r k)])
        = Inr ((ar @ [?pl (left_son r k)]) @ map ?pl (sift_path f ?e (?e r0) (left_son r k) (k - 1)))"
      using less.prems(2-4) lay cap by (intro less.IH[OF k(2) lay(2)]) (auto simp: nth_append)
    have IHr: "sift_ar cmp m width lp (?pl (right_son r)) (k - 2) (ar @ [?pl (right_son r)])
        = Inr ((ar @ [?pl (right_son r)]) @ map ?pl (sift_path f ?e (?e r0) (right_son r) (k - 2)))"
      using less.prems(2-4) lay cap by (intro less.IH[OF k(3) lay(1)]) (auto simp: nth_append)
    show ?thesis
      using False k less.prems(4,5) sp IHl IHr
      by (subst sift_ar.simps, subst sift_path.simps) (simp add: cmp Let_def)
  qed
qed

lemma sift_path_length: "length (sift_path f a v r k) \<le> k"
proof (induction k arbitrary: r rule: less_induct)
  case (less k)
  show ?case
    using less[of "k - 1" "left_son r k"] less[of "k - 2" "right_son r"] by (subst sift_path.simps) auto
qed

text \<open>\<open>holds m a\<close>: the array in memory has the elements of \<open>a\<close>.\<close>

definition holds :: "addr \<Rightarrow> u64 \<Rightarrow> nat \<Rightarrow> mem \<Rightarrow> (nat \<Rightarrow> u8 list) \<Rightarrow> bool" where
  "holds base width n m a \<longleftrightarrow> (\<forall>i < n. element m base width i = a i)"

lemma sift_elems_cong:
  assumes "r + 1 = lo + leo k" "r < n" "\<And>i. i < n \<Longrightarrow> a i = b i" "i < n"
  shows "sift_elems f a r k i = sift_elems f b r k i"
proof -
  have p: "sift_path f a (a r) r k = sift_path f b (b r) r k"
    using sift_path_cong[OF assms(1), of a b f "a r"] assms(2,3) by simp
  have "set (r # sift_path f b (b r) r k) \<subseteq> {..<n}"
    using sift_path_range[OF assms(1), of _ f b "b r"] assms(2) by fastforce
  then show ?thesis
    unfolding sift_elems_def p using assms(2,3) rotate_in_cong[OF assms(3) _ assms(4)] by simp
qed

lemma sift_spec:
  assumes "sorting cmp f base width n" "table width n lp" "r + 1 = lo + leo k" "r < n" "holds base width n m a"
  shows "\<exists>m'. sift cmp m width lp (place base width r) k = Inr m'
    \<and> holds base width n m' (sift_elems f a r k) \<and> same_elsewhere base width n m m'"
proof -
  let ?e = "element m base width"
  let ?is = "r # sift_path f ?e (?e r) r k"
  have "leo k \<le> n" using assms(3,4) by simp
  then have k: "k \<le> 63" using order_bound sortingD(4)[OF assms(1)] by blast
  have ar: "sift_ar cmp m width lp (place base width r) k [place base width r] = Inr (map (place base width) ?is)"
    using sift_ar_spec[OF assms(1-4), of "[place base width r]" r m] k by simp
  have "set ?is \<subseteq> {..<n}" using sift_path_range[OF assms(3), of _ f ?e "?e r"] assms(4) by fastforce
  moreover have "length ?is < ar_size" using sift_path_length[of f ?e "?e r" r k] k by simp
  ultimately obtain m' where m': "cycle m width (map (place base width) ?is) = Inr m'"
      "same_elsewhere base width n m m'" "\<forall>i < n. element m' base width i = rotate_in (?e (hd ?is)) ?e ?is i"
    using cycle_spec[OF sortingD(5)[OF assms(1)], of ?is m base] by auto
  have "holds base width n m' (sift_elems f ?e r k)" using m'(3) by (simp add: holds_def sift_elems_def)
  moreover have "sift_elems f ?e r k i = sift_elems f a r k i" if "i < n" for i
    using assms(5) that by (intro sift_elems_cong[OF assms(3,4)]) (simp_all add: holds_def)
  ultimately have "holds base width n m' (sift_elems f a r k)" by (simp add: holds_def)
  then show ?thesis using ar m'(1,2) by (simp add: sift_def)
qed


subsection \<open>Trinkling\<close>

lemma trinkle_ar_spec:
  assumes "sorting cmp f base width n" "table width n lp"
    and "r + 1 = leo k + leos ks" "r < n" "orders p k ks" "ar \<noteq> []" "ar ! 0 = place base width r0"
    and "length ar + length ks \<le> ar_size"
  shows "trinkle_ar cmp m width lp (place base width r) p k trusty ar =
    (case trinkle_path f (element m base width) (element m base width r0) r k ks trusty of
       (path, r', k', t) \<Rightarrow> Inr (ar @ map (place base width) path, place base width r', k', t))"
  using assms(3-8)
proof (induction ks arbitrary: r k p trusty ar)
  case Nil
  then show ?case using orders_one[of p k "[]"] by (simp add: trinkle_ar.simps[of cmp m width lp])
next
  case (Cons k' ks)
  let ?e = "element m base width" and ?pl = "place base width" and ?s = "r - leo k"
  note cmp = sortingD(6)[OF assms(1)] and nr = next_root[OF Cons.prems(1)]
  have p: "p \<noteq> (1, 0)" using orders_one[OF Cons.prems(3)] by simp
  have lo: "r + 1 = leos (k' # ks) + leo k" using Cons.prems(1) by simp
  have kn: "leo k \<le> n" using Cons.prems(1,2) by simp
  note kl = order_in_table[OF assms(2) kn]
  have step: "?pl r - lp ! k = ?pl ?s"
    using place_diff[of "leo k" r] table_nth[OF assms(2) kl] nr(2) Cons.prems(1) by simp
  have lf: "?pl r - width = ?pl (right_son r)" "?pl r - width - lp ! (k - 2) = ?pl (left_son r k)" if "k > 1"
    using son_places(2,3)[OF assms(2) _ lo kn] that by simp_all
  obtain p' where p': "shr p (k' - k) = Inr p'" "orders p' k' ks" and z: "pntz p = Inr (k' - k)"
    using orders_next[OF Cons.prems(3)] by blast
  have kk: "k + (k' - k) = k'" using ordersD(5)[OF Cons.prems(3), of k'] by simp
  have IH: "trinkle_ar cmp m width lp (?pl ?s) p' k' False (ar @ [?pl ?s]) =
      (case trinkle_path f ?e (?e r0) ?s k' ks False of
         (path, r', k', t) \<Rightarrow> Inr ((ar @ [?pl ?s]) @ map ?pl path, ?pl r', k', t))"
    using Cons.prems(2,4-6) nr(1) by (intro Cons.IH[OF nr(2) _ p'(2)]) (auto simp: nth_append)
  have room: "\<not> ar_size \<le> length ar" using Cons.prems(6) by simp
  show ?case
  proof (cases "k > 1")
    case True
    then show ?thesis
      using p kl room lf[OF True] Cons.prems(5) z p' kk IH unfolding trinkle_path.simps
      by (subst trinkle_ar.simps) (simp add: step cmp Let_def split: prod.splits)
  next
    case False
    then show ?thesis
      using p kl room Cons.prems(5) z p' kk IH unfolding trinkle_path.simps
      by (subst trinkle_ar.simps) (simp add: step cmp Let_def split: prod.splits)
  qed
qed

lemma orders_length:
  assumes "orders p k ks"
  shows "length ks \<le> 63"
proof -
  have "distinct (k # ks)" using ordersD(3)[OF assms] strict_sorted_iff[of "k # ks"] by simp
  moreover have "set (k # ks) \<subseteq> {..63}" using ordersD(4)[OF assms] by auto
  ultimately have "length (k # ks) \<le> card {..(63 :: nat)}"
    by (metis card_mono distinct_card finite_atMost)
  then show ?thesis by simp
qed

lemma trinkle_path_length:
  "trinkle_path f a v r k ks trusty = (path, r', k', t) \<Longrightarrow> length path \<le> length ks"
  by (induction f a v r k ks trusty arbitrary: path rule: trinkle_path.induct)
     (auto simp: Let_def split: if_split_asm prod.splits)

lemma trinkle_spec:
  assumes "sorting cmp f base width n" "table width n lp" "r + 1 = leo k + leos ks" "r < n" "orders p k ks"
    and "holds base width n m a"
  shows "\<exists>m'. trinkle cmp m width lp (place base width r) p k trusty = Inr m'
    \<and> holds base width n m' (trinkle_elems f a r k ks trusty) \<and> same_elsewhere base width n m m'"
proof -
  let ?e = "element m base width"
  have ea: "?e i = a i" if "i < n" for i using assms(6) that by (simp add: holds_def)
  obtain path r' k' t where p: "trinkle_path f a (a r) r k ks trusty = (path, r', k', t)"
    by (cases "trinkle_path f a (a r) r k ks trusty")
  have pe: "trinkle_path f ?e (?e r) r k ks trusty = (path, r', k', t)"
    using trinkle_path_cong[OF assms(3), of ?e a f "a r" trusty] ea assms(4) p by simp
  have ar: "trinkle_ar cmp m width lp (place base width r) p k trusty [place base width r]
      = Inr (map (place base width) (r # path), place base width r', k', t)"
    using trinkle_ar_spec[OF assms(1-5), of "[place base width r]" r m trusty] orders_length[OF assms(5)] pe
    by simp
  note fit = trinkle_path_fits[OF assms(3) p]
  show ?thesis
  proof (cases t)
    case True
    then show ?thesis using ar p assms(6) by (simp add: trinkle_def trinkle_elems_def same_elsewhere_def)
  next
    case False
    have sub: "set (r # path) \<subseteq> {..<n}" using fit assms(4) by auto
    moreover have "length (r # path) < ar_size"
      using trinkle_path_length[OF p] orders_length[OF assms(5)] by simp
    ultimately obtain m1 where m1: "cycle m width (map (place base width) (r # path)) = Inr m1"
        "same_elsewhere base width n m m1" "\<forall>i < n. element m1 base width i = rotate_in (?e r) ?e (r # path) i"
      using cycle_spec[OF sortingD(5)[OF assms(1)], of "r # path" m base] by auto
    have h1: "holds base width n m1 (rotate_in (a r) a (r # path))"
      using m1(3) rotate_in_cong[of n ?e a "r # path"] ea sub assms(4) by (simp add: holds_def)
    obtain lo where "r' + 1 = lo + leo k'" "r' < n" using fit assms(4) by auto
    from sift_spec[OF assms(1,2) this h1] obtain m2 where m2:
        "sift cmp m1 width lp (place base width r') k' = Inr m2" "same_elsewhere base width n m1 m2"
        "holds base width n m2 (sift_elems f (rotate_in (a r) a (r # path)) r' k')" by blast
    then have "trinkle cmp m width lp (place base width r) p k trusty = Inr m2"
      using False ar m1(1) by (simp add: trinkle_def)
    moreover have "trinkle_elems f a r k ks trusty = sift_elems f (rotate_in (a r) a (r # path)) r' k'"
      using False p by (simp add: trinkle_elems_def)
    ultimately show ?thesis using m1(2) m2(2,3) by (simp add: same_elsewhere_def)
  qed
qed


subsection \<open>The table\<close>

lemma lp_loop_table:
  assumes "0 < unat width" "n * unat width < 2 ^ 62" "n < leo 64" "0 < n"
    and "2 \<le> length lp" "\<forall>i < length lp. lp ! i = of_nat (leo i * unat width)"
    and "length lp = 2 \<or> leo (length lp - 1) < n"
  shows "\<exists>lp'. lp_loop width (of_nat (n * unat width)) lp = Inr lp' \<and> table width n lp'"
  using assms(5-7)
proof (induction "lp_size - length lp" arbitrary: lp rule: less_induct)
  case less
  let ?w = "unat width" and ?l = "length lp"
  let ?x = "of_nat (leo ?l * ?w) :: u64"
  have small: "leo (?l - 1) \<le> n" using less.prems(3) assms(4) by (auto simp: numeral_2_eq_2)
  have "?l \<le> 64" using less.prems(3) order_bound[of "?l - 1" n] small assms(3) by linarith
  then have room: "\<not> lp_size \<le> ?l" by simp
  have split: "leo ?l = leo (?l - 2) + leo (?l - 1) + 1" by (rule leo_split[OF less.prems(1)])
  have x: "lp ! (?l - 2) + lp ! (?l - 1) + width = ?x"
    using less.prems(1,2) unfolding split by (simp add: algebra_simps)
  have "leo ?l \<le> 3 * n" using split small leo_mono[of "?l - 2" "?l - 1"] assms(4) by linarith
  then have "leo ?l * ?w \<le> 3 * (n * ?w)" by (metis mult.assoc mult_le_mono1)
  moreover have "3 * 2 ^ 62 < (2 :: nat) ^ 64" by simp
  ultimately have "leo ?l * ?w < 2 ^ 64" using assms(2) by linarith
  then have ux: "unat ?x = leo ?l * ?w" by (rule unat_of_nat_u64)
  have un: "unat (of_nat (n * ?w) :: u64) = n * ?w" using assms(2) by (intro unat_of_nat_u64) simp
  have lt: "?x < of_nat (n * ?w) \<longleftrightarrow> leo ?l < n"
    using assms(1) by (simp only: word_less_nat_alt ux un mult_less_cancel2) simp
  have entries: "\<forall>i < length (lp @ [?x]). (lp @ [?x]) ! i = of_nat (leo i * ?w)"
    using less.prems(2) by (auto simp: nth_append less_Suc_eq)
  show ?case
  proof (cases "leo ?l < n")
    case True
    have "\<exists>lp'. lp_loop width (of_nat (n * ?w)) (lp @ [?x]) = Inr lp' \<and> table width n lp'"
      by (rule less.hyps[OF _ _ entries]) (use True room less.prems(1) in auto)
    then show ?thesis using room x lt True by (subst lp_loop.simps) (simp add: Let_def)
  next
    case False
    then have "table width n (lp @ [?x])" using entries less.prems(1) by (simp add: table_def)
    then show ?thesis using room x lt False by (subst lp_loop.simps) (simp add: Let_def)
  qed
qed


subsection \<open>The first loop\<close>

lemma scaled_bound:
  assumes "sorting cmp f base width n" "i \<le> n"
  shows "unat base + i * unat width < 2 ^ 62"
  using sortingD(3)[OF assms(1)] mult_le_mono1[OF assms(2), of "unat width"] by linarith

lemma unat_place:
  assumes "sorting cmp f base width n" "i \<le> n"
  shows "unat (place base width i) = unat base + i * unat width"
proof -
  have b: "unat base + i * unat width < 2 ^ 64" using scaled_bound[OF assms] by simp
  then have "unat (of_nat (i * unat width) :: u64) = i * unat width" by (intro unat_of_nat_u64) simp
  then show ?thesis unfolding place_def using b by (subst unat_add_nowrap) simp_all
qed

lemma place_less:
  assumes "sorting cmp f base width n" "i < n" "j < n"
  shows "place base width i < place base width j \<longleftrightarrow> i < j"
  using assms unat_place[OF assms(1)] sortingD(2)[OF assms(1)] by (simp add: word_less_nat_alt)

lemma scaled_le:
  assumes "sorting cmp f base width n" "i \<le> n" "j \<le> n"
  shows "(of_nat (i * unat width) :: u64) \<le> of_nat (j * unat width) \<longleftrightarrow> i \<le> j"
proof -
  have "unat (of_nat (i * unat width) :: u64) = i * unat width"
    "unat (of_nat (j * unat width) :: u64) = j * unat width"
    using scaled_bound[OF assms(1,2)] scaled_bound[OF assms(1,3)] by (intro unat_of_nat_u64; simp)+
  then show ?thesis using sortingD(2)[OF assms(1)] by (simp only: word_le_nat_alt mult_le_cancel2) simp
qed

lemma place_gap: "r \<le> i \<Longrightarrow> place base width i - place base width r = of_nat ((i - r) * unat width)"
  by (simp add: place_def algebra_simps diff_mult_distrib of_nat_diff)

lemma grow_body_merge:
  assumes "sorting cmp f base width n" "table width n lp" "grow_inv f a n r k ((k + 1) # ks)" "r + 1 < n"
    and "orders p k ((k + 1) # ks)" "holds base width n m a"
  shows "\<exists>m' p'. grow_body cmp width lp high m (place base width r) p k = Inr (m', p', k + 2)
    \<and> holds base width n m' (sift_elems f a r k) \<and> same_elsewhere base width n m m'
    \<and> orders (fst p' OR 1, snd p') (k + 2) ks"
proof -
  have r: "r + 1 = leos ((k + 1) # ks) + leo k" and sh: "shape k ((k + 1) # ks)"
    using assms(3) by (simp_all add: grow_inv_def)
  obtain m' where m': "sift cmp m width lp (place base width r) k = Inr m'"
      "holds base width n m' (sift_elems f a r k)" "same_elsewhere base width n m m'"
    using sift_spec[OF assms(1,2) r _ assms(6)] assms(4) by auto
  have "leo (k + 2) \<le> n" using r assms(4) by simp
  then have "k + 2 \<le> 63" using order_bound sortingD(4)[OF assms(1)] by blast
  moreover have "ks \<noteq> [] \<Longrightarrow> k + 2 < hd ks" using sh by (cases ks) (auto simp: shape_def)
  ultimately obtain p' where p': "shr p 2 = Inr p'" "orders (fst p' OR 1, snd p') (k + 2) ks"
    using orders_merge[OF assms(5)] by blast
  have "fst p AND 3 = 3" using orders_and_3[OF assms(5)] by simp
  with m' p' show ?thesis by (simp add: grow_body_def)
qed

lemma grow_body_add:
  assumes "sorting cmp f base width n" "table width n lp" "grow_inv f a n r k ks" "r + 1 < n"
    and "orders p k ks" "holds base width n m a" "\<not> (ks \<noteq> [] \<and> hd ks = k + 1)"
  shows "\<exists>m' p'. grow_body cmp width lp (place base width (n - 1)) m (place base width r) p k
        = Inr (m', p', if k = 1 then 0 else 1)
    \<and> holds base width n m' (fst (grow_step f a n r k ks)) \<and> same_elsewhere base width n m m'
    \<and> orders (fst p' OR 1, snd p') (if k = 1 then 0 else 1) (k # ks)"
proof -
  have r: "r + 1 = leo k + leos ks" and sh: "shape k ks" using assms(3) by (simp_all add: grow_inv_def)
  then have lo: "r + 1 = leos ks + leo k" by simp
  have k: "1 \<le> k" using sh assms(7) by (auto simp: shape_def)
  have kn: "leo k \<le> n" using r assms(4) by simp
  have kl: "k - 1 < length lp" using order_in_table[OF assms(2) kn] by simp
  have le: "lp ! (k - 1) \<ge> place base width (n - 1) - place base width r \<longleftrightarrow> leo (k - 1) \<ge> n - 1 - r"
  proof -
    have "leo (k - 1) \<le> n" using leo_mono[of "k - 1" k] kn by simp
    then show ?thesis
      using scaled_le[OF assms(1), of "n - 1 - r" "leo (k - 1)"] place_gap[of r "n - 1"] assms(4)
        table_nth[OF assms(2) kl] by simp
  qed
  have "\<exists>m'. (if lp ! (k - 1) \<ge> place base width (n - 1) - place base width r
        then trinkle cmp m width lp (place base width r) p k False
        else sift cmp m width lp (place base width r) k) = Inr m'
      \<and> holds base width n m' (fst (grow_step f a n r k ks)) \<and> same_elsewhere base width n m m'"
    using trinkle_spec[OF assms(1,2) r _ assms(5,6), of False] sift_spec[OF assms(1,2) lo _ assms(6)]
      assms(4,7) unfolding le grow_step_def by (auto split: if_split)
  moreover have "\<exists>p'. shl p (if k = 1 then 1 else k - 1) = Inr p'
      \<and> orders (fst p' OR 1, snd p') (if k = 1 then 0 else 1) (k # ks)"
    using k by (intro orders_add[OF assms(5)]) auto
  moreover have "fst p AND 3 \<noteq> 3" using orders_and_3[OF assms(5)] assms(7) by blast
  ultimately show ?thesis using k kl unfolding grow_body_def by (auto split: if_split_asm)
qed

text \<open>One round of the loop: one step of the algorithm.\<close>

lemma grow_body_spec:
  assumes "sorting cmp f base width n" "table width n lp" "grow_inv f a n r k ks" "r + 1 < n"
    and "orders p k ks" "holds base width n m a" "grow_step f a n r k ks = (a1, ks1)"
  shows "\<exists>m1 p1. grow_body cmp width lp (place base width (n - 1)) m (place base width r) p k = Inr (m1, p1, hd ks1)
    \<and> holds base width n m1 a1 \<and> same_elsewhere base width n m m1 \<and> orders (fst p1 OR 1, snd p1) (hd ks1) (tl ks1)"
proof (cases "ks \<noteq> [] \<and> hd ks = k + 1")
  case True
  then obtain ks2 where ks: "ks = (k + 1) # ks2" by (metis list.collapse)
  have "a1 = sift_elems f a r k" "ks1 = (k + 2) # ks2" using assms(7) ks by (auto simp: grow_step_def)
  then show ?thesis
    using grow_body_merge[OF assms(1,2) assms(3)[unfolded ks] assms(4) assms(5)[unfolded ks] assms(6),
        of "place base width (n - 1)"] by simp
next
  case False
  then have "a1 = fst (grow_step f a n r k ks)" "ks1 = (if k = 1 then 0 else 1) # k # ks"
    using assms(7) by (auto simp: grow_step_def split: if_split_asm)
  then show ?thesis using grow_body_add[OF assms(1-6) False] by simp
qed

lemma grow_loop_done:
  assumes "sorting cmp f base width n" "r < n" "\<not> r + 1 < n"
  shows "grow_loop fuel cmp width lp (place base width (n - 1)) m (place base width r) p k
      = Inr (m, place base width r, p, k)" "grow f a n r (k # ks) = (a, r, k # ks)"
proof -
  have "\<not> place base width r < place base width (n - 1)"
    using place_less[OF assms(1), of r "n - 1"] assms(2,3) by simp
  then show "grow_loop fuel cmp width lp (place base width (n - 1)) m (place base width r) p k
      = Inr (m, place base width r, p, k)" by (cases fuel) simp_all
  show "grow f a n r (k # ks) = (a, r, k # ks)" using assms(3) by (subst grow.simps) simp
qed

lemma grow_loop_spec:
  assumes "sorting cmp f base width n" "table width n lp"
    and "grow_inv f a n r k ks" "r < n" "orders p k ks" "holds base width n m a" "n \<le> r + 1 + fuel"
    and "grow f a n r (k # ks) = (a', r', ks')"
  shows "\<exists>m' p'. grow_loop fuel cmp width lp (place base width (n - 1)) m (place base width r) p k
        = Inr (m', place base width r', p', hd ks')
    \<and> holds base width n m' a' \<and> same_elsewhere base width n m m' \<and> orders p' (hd ks') (tl ks')"
  using assms(3-8)
proof (induction fuel arbitrary: a r k ks p m)
  case 0
  then have "\<not> r + 1 < n" by simp
  then show ?case
    using 0 grow_loop_done[OF assms(1) 0(2)] by (auto simp del: grow_loop.simps simp: same_elsewhere_def)
next
  case (Suc fuel)
  show ?case
  proof (cases "r + 1 < n")
    case False
    then show ?thesis
      using Suc.prems grow_loop_done[OF assms(1) Suc.prems(2)]
      by (auto simp del: grow_loop.simps simp: same_elsewhere_def)
  next
    case True
    then have lt: "place base width r < place base width (n - 1)"
      using place_less[OF assms(1), of r "n - 1"] by simp
    obtain a1 ks1 where st: "grow_step f a n r k ks = (a1, ks1)" by force
    note inv1 = grow_step_inv[OF sortingD(1)[OF assms(1)] Suc.prems(1) st]
    obtain m1 p1 where b: "grow_body cmp width lp (place base width (n - 1)) m (place base width r) p k
        = Inr (m1, p1, hd ks1)" "holds base width n m1 a1" "same_elsewhere base width n m m1"
        "orders (fst p1 OR 1, snd p1) (hd ks1) (tl ks1)"
      using grow_body_spec[OF assms(1,2) Suc.prems(1) True Suc.prems(3,4) st] by blast
    have "grow f a1 n (r + 1) (hd ks1 # tl ks1) = (a', r', ks')"
      using Suc.prems(6) True st inv1 by (subst (asm) grow.simps) simp
    from Suc.IH[OF _ True b(4,2) _ this] inv1 Suc.prems(5)
    obtain m2 p2 where "grow_loop fuel cmp width lp (place base width (n - 1)) m1 (place base width (r + 1))
          (fst p1 OR 1, snd p1) (hd ks1) = Inr (m2, place base width r', p2, hd ks')"
        "holds base width n m2 a'" "same_elsewhere base width n m1 m2" "orders p2 (hd ks') (tl ks')" by auto
    moreover have "place base width r + width = place base width (r + 1)"
      by (simp add: place_def algebra_simps)
    ultimately show ?thesis using lt b(1,3) by (simp add: same_elsewhere_def)
  qed
qed


subsection \<open>The second loop\<close>

lemma shrink_body_split:
  assumes "sorting cmp f base width n" "table width n lp" "r + 1 = leo k + leos ks" "r < n" "2 \<le> k"
    and "orders p k ks" "holds base width n m a"
  shows "\<exists>m' p'. shrink_body cmp width lp m (place base width r) p k = Inr (m', p', k - 2)
    \<and> holds base width n m' (split_step f a r k ks) \<and> same_elsewhere base width n m m'
    \<and> orders p' (k - 2) ((k - 1) # ks)"
proof -
  let ?pl = "place base width"
  have lo: "r + 1 = leos ks + leo k" and kn: "leo k \<le> n" using assms(3,4) by simp_all
  note lay = sons_layout[OF assms(5) lo] and below = sons_below[OF assms(5) lo]
    and sp = son_places[OF assms(2,5) lo kn]
  have head: "?pl r - lp ! (k - 2) - width = ?pl (left_son r k)"
    using sp(3)[of base] by (simp add: algebra_simps)
  obtain p1 p2 p3 where p: "shl p 2 = Inr p1" "shr (fst p1 XOR 7, snd p1) 1 = Inr p2" "orders p2 (k - 1) ks"
      "shl p2 1 = Inr p3" "orders (fst p3 OR 1, snd p3) (k - 2) ((k - 1) # ks)"
    using orders_split[OF assms(6,5)] by blast
  have l: "left_son r k + 1 = leo (k - 1) + leos ks" "left_son r k < n"
    and r: "right_son r + 1 = leo (k - 2) + leos ((k - 1) # ks)" "right_son r < n"
    using lay below assms(4) by simp_all
  obtain m1 where m1: "trinkle cmp m width lp (?pl (left_son r k)) p2 (k - 1) True = Inr m1"
      "holds base width n m1 (trinkle_elems f a (left_son r k) (k - 1) ks True)" "same_elsewhere base width n m m1"
    using trinkle_spec[OF assms(1,2) l p(3) assms(7)] by blast
  obtain m2 where m2: "trinkle cmp m1 width lp (?pl (right_son r)) (fst p3 OR 1, snd p3) (k - 2) True = Inr m2"
      "holds base width n m2 (split_step f a r k ks)" "same_elsewhere base width n m1 m2"
    using trinkle_spec[OF assms(1,2) r p(5) m1(2)] unfolding split_step_def by blast
  have "k - 2 + 1 = k - 1" "\<not> k \<le> 1" using assms(5) by simp_all
  then have "shrink_body cmp width lp m (?pl r) p k = Inr (m2, (fst p3 OR 1, snd p3), k - 2)"
    using sp(1,2) p(1,2,4) m1(1) m2(1) by (simp add: shrink_body_def head Let_def)
  then show ?thesis using m1(3) m2(2,3) p(5) by (simp add: same_elsewhere_def)
qed

lemma shrink_one: "shrink f a r [Suc 0] = a"
  by (subst shrink.simps) simp

lemma shrink_body_pop:
  assumes "r + 1 = leo k + leos (k1 # ks)" "k \<le> 1" "orders p k (k1 # ks)"
  shows "\<exists>p1. shrink_body cmp width lp m (place base width r) p k = Inr (m, p1, k1) \<and> orders p1 k1 ks
    \<and> r = leos (k1 # ks) \<and> shrink f a r (k # k1 # ks) = shrink f a (r - 1) (k1 # ks)"
proof -
  have "leo k = 1" using assms(2) by (cases k rule: leo.cases) simp_all
  then have r: "r = leos (k1 # ks)" using assms(1) by simp
  note on = orders_next[OF assms(3)]
  obtain p1 where p1: "shr p (k1 - k) = Inr p1" "orders p1 k1 ks" using on(2) by blast
  have "k + (k1 - k) = k1" using ordersD(5)[OF assms(3), of k1] by simp
  then have "shrink_body cmp width lp m (place base width r) p k = Inr (m, p1, k1)"
    using assms(2) on(1) p1(1) by (simp add: shrink_body_def)
  moreover have "shrink f a r (k # k1 # ks) = shrink f a (r - 1) (k1 # ks)"
    using assms(2) by (subst shrink.simps) simp
  ultimately show ?thesis using p1(2) r by blast
qed

text \<open>One round of the loop: one round of the algorithm.\<close>

lemma shrink_body_spec:
  assumes "sorting cmp f base width n" "table width n lp" "r + 1 = leo k + leos ks" "r < n"
    and "shrink_shape (k # ks)" "orders p k ks" "holds base width n m a" "k # ks \<noteq> [1]"
  shows "\<exists>m1 p1 k1 ks1 a1. shrink_body cmp width lp m (place base width r) p k = Inr (m1, p1, k1)
    \<and> shrink f a r (k # ks) = shrink f a1 (r - 1) (k1 # ks1) \<and> r = leos (k1 # ks1) \<and> shrink_shape (k1 # ks1)
    \<and> orders p1 k1 ks1 \<and> holds base width n m1 a1 \<and> same_elsewhere base width n m m1"
proof (cases "k \<le> 1")
  case True
  then obtain k1 ks1 where ks: "ks = k1 # ks1"
    using assms(5,8) by (cases ks) (auto simp: shrink_shape_def)
  from shrink_body_pop[OF assms(3)[unfolded ks] True assms(6)[unfolded ks], where f = f and a = a]
  show ?thesis
    using shrink_shape_tl[OF assms(5)] assms(7) unfolding ks by (metis list.sel(3) same_elsewhere_def)
next
  case False
  then have k2: "2 \<le> k" by simp
  have "r = leos ((k - 2) # (k - 1) # ks)" using assms(3) leo_split[OF k2] by simp
  moreover have "shrink f a r (k # ks) = shrink f (split_step f a r k ks) (r - 1) ((k - 2) # (k - 1) # ks)"
    using False by (subst shrink.simps) simp
  ultimately show ?thesis
    using shrink_body_split[OF assms(1-4) k2 assms(6,7)] shrink_shape_split[OF assms(5) k2] by blast
qed

lemma last_tree:
  assumes "leo k + leos ks = 1" "shrink_shape (k # ks)"
  shows "k # ks = [1]"
proof -
  have ks: "ks = []"
  proof (cases ks)
    case (Cons k' ks')
    then show ?thesis using assms(1) leo_pos[of k] leo_pos[of k'] unfolding Cons leos_simps by linarith
  qed
  have "\<not> 1 < k" using leo_strict[of 1 k] assms(1) ks by auto
  then show ?thesis using assms(2) ks by (auto simp: shrink_shape_def)
qed

lemma shrink_loop_spec:
  assumes "sorting cmp f base width n" "table width n lp"
    and "r + 1 = leo k + leos ks" "r < n" "shrink_shape (k # ks)" "orders p k ks" "holds base width n m a" "r \<le> fuel"
  shows "\<exists>m'. shrink_loop fuel cmp width lp m (place base width r) p k = Inr m'
    \<and> holds base width n m' (shrink f a r (k # ks)) \<and> same_elsewhere base width n m m'"
  using assms(3-8)
proof (induction fuel arbitrary: a r k ks p m)
  case 0
  then have "k # ks = [1]" by (intro last_tree) simp_all
  then show ?case using 0 orders_one[OF 0(4)] by (auto simp: shrink_one same_elsewhere_def prod_eq_iff)
next
  case (Suc fuel)
  have stop: "k \<noteq> 1 \<or> fst p \<noteq> 1 \<or> snd p \<noteq> 0 \<longleftrightarrow> k # ks \<noteq> [1]"
    using orders_one[OF Suc.prems(4)] by (auto simp: prod_eq_iff)
  show ?case
  proof (cases "k # ks = [1]")
    case True
    then show ?thesis using Suc.prems stop by (auto simp: shrink_one same_elsewhere_def)
  next
    case go: False
    obtain m1 p1 k1 ks1 a1 where b: "shrink_body cmp width lp m (place base width r) p k = Inr (m1, p1, k1)"
        "shrink f a r (k # ks) = shrink f a1 (r - 1) (k1 # ks1)" "r = leos (k1 # ks1)"
        "shrink_shape (k1 # ks1)" "orders p1 k1 ks1" "holds base width n m1 a1" "same_elsewhere base width n m m1"
      using shrink_body_spec[OF assms(1,2) Suc.prems(1-5) go] by blast
    have r: "1 \<le> r" using b(3) leo_pos[of k1] unfolding leos_simps by linarith
    then have "\<exists>m'. shrink_loop fuel cmp width lp m1 (place base width (r - 1)) p1 k1 = Inr m'
        \<and> holds base width n m' (shrink f a1 (r - 1) (k1 # ks1)) \<and> same_elsewhere base width n m1 m'"
      using b(3-6) Suc.prems(2,6) by (intro Suc.IH) simp_all
    then show ?thesis
      using b(1,2,7) stop go place_pred[OF r, of base width] by (auto simp: same_elsewhere_def)
  qed
qed


subsection \<open>The sort\<close>

lemma qsort_runs:
  assumes "sorting cmp f base width n" "0 < n" "n \<le> fuel" "nel = of_nat n"
  shows "\<exists>m'. qsort fuel m base nel width cmp = Inr m'
    \<and> holds base width n m' (smoothsort f (element m base width) n) \<and> same_elsewhere base width n m m'"
proof -
  let ?a = "element m base width"
  have w: "0 < unat width" by (rule sortingD(2)[OF assms(1)])
  have nw: "n * unat width < 2 ^ 62" using scaled_bound[OF assms(1), of n] by simp
  have sz: "width * nel = of_nat (n * unat width)" using assms(4) by (simp add: mult.commute)
  have "unat (of_nat (n * unat width) :: u64) = n * unat width" using nw by (intro unat_of_nat_u64) simp
  then have nz: "width * nel \<noteq> 0" using sz w assms(2) by (metis mult_is_0 not_gr_zero unat_0)
  have high: "base + width * nel - width = place base width (n - 1)"
    using place_pred[of n base width] assms(2) unfolding sz place_def by simp
  obtain lp where lp: "lp_loop width (width * nel) [width, width] = Inr lp" "table width n lp"
    using lp_loop_table[OF w nw sortingD(4)[OF assms(1)] assms(2), of "[width, width]"] sz
    by (auto simp: less_Suc_eq nth_Cons')
  obtain a1 r ks where g: "grow f ?a n 0 [1] = (a1, r, ks)" by (cases "grow f ?a n 0 [1]")
  note cmpf = sortingD(1)[OF assms(1)]
  have i: "grow_inv f a1 n r (hd ks) (tl ks)" "ks \<noteq> []" "r + 1 = n"
    using grow_spec[OF cmpf _ _ assms(2) g] grow_inv_start[of f ?a n] by simp_all
  then obtain k rest where ks: "ks = k # rest" by (cases ks) simp_all
  have inv: "r + 1 = leo k + leos rest" "shape k rest" using i(1) ks by (simp_all add: grow_inv_def)
  have p0: "place base width 0 = base" by (simp add: place_def)
  obtain m1 p1 where m1: "grow_loop fuel cmp width lp (place base width (n - 1)) m base (1, 0) 1
        = Inr (m1, place base width r, p1, k)"
      "holds base width n m1 a1" "same_elsewhere base width n m m1" "orders p1 k rest"
    using grow_loop_spec[OF assms(1) lp(2) grow_inv_start[of f ?a n, folded One_nat_def] assms(2) orders_start,
        of m fuel a1 r ks] g assms(3) ks by (auto simp: holds_def p0)
  have rn: "r < n" using i(3) by simp
  obtain m2 where m2: "trinkle cmp m1 width lp (place base width r) p1 k False = Inr m2"
      "holds base width n m2 (trinkle_elems f a1 r k rest False)" "same_elsewhere base width n m1 m2"
    using trinkle_spec[OF assms(1) lp(2) inv(1) rn m1(4,2)] by blast
  obtain m3 where m3: "shrink_loop fuel cmp width lp m2 (place base width r) p1 k = Inr m3"
      "holds base width n m3 (shrink f (trinkle_elems f a1 r k rest False) r (k # rest))"
      "same_elsewhere base width n m2 m3"
    using shrink_loop_spec[OF assms(1) lp(2) inv(1) rn shape_shrink_shape[OF inv(2)] m1(4) m2(2)] rn assms(3)
    by (meson le_trans less_imp_le_nat)
  have "qsort fuel m base nel width cmp = Inr m3"
    using nz lp(1) m1(1) m2(1) m3(1) by (simp add: qsort_def high Let_def)
  moreover have "smoothsort f ?a n = shrink f (trinkle_elems f a1 r k rest False) r (k # rest)"
    unfolding smoothsort_def g by (simp add: ks)
  ultimately show ?thesis using m1(3) m2(3) m3(2,3) by (simp add: same_elsewhere_def)
qed

text \<open>
  (C7) The replacement \<^verbatim>\<open>qsort\<close> sorts.  For every array in user space of fewer elements than the Leonardo
  tree of order 64 (more than \<open>3 * 10 ^ 13\<close>), of any width, and every comparison function that orders
  the elements, \<^verbatim>\<open>qsort\<close> returns: neither loop runs longer than the number of elements, no index leaves
  the arrays \<^verbatim>\<open>ar\<close> and \<^verbatim>\<open>lp\<close>, no shift is as wide as a word.  Afterwards the elements are in order, they
  are the elements that were there before, and no byte outside the array has changed.
\<close>

theorem qsort_sorts:
  assumes "sorting cmp f base width (unat nel)" "unat nel \<le> fuel"
  shows "\<exists>m'. qsort fuel m base nel width cmp = Inr m'
    \<and> (\<forall>i j. i < j \<longrightarrow> j < unat nel \<longrightarrow> f (element m' base width i) (element m' base width j) \<le> 0)
    \<and> mset (map (element m' base width) [0..<unat nel]) = mset (map (element m base width) [0..<unat nel])
    \<and> (\<forall>x. unat nel * unat width \<le> unat (x - base) \<longrightarrow> m' x = m x)"
proof (cases "unat nel = 0")
  case True
  then have "nel = 0" by (simp add: unat_eq_zero)
  then show ?thesis by (simp add: qsort_def)
next
  case False
  let ?n = "unat nel" and ?s = "smoothsort f (element m base width) (unat nel)"
  have n: "0 < ?n" using False by simp
  obtain m' where m': "qsort fuel m base nel width cmp = Inr m'" "holds base width ?n m' ?s"
      "same_elsewhere base width ?n m m'"
    using qsort_runs[OF assms(1) n assms(2)] by auto
  have s: "sorted_upto f ?s ?n" "mset (map ?s [0..<?n]) = mset (map (element m base width) [0..<?n])"
    using smoothsort_sorts[OF sortingD(1)[OF assms(1)] n] by blast+
  have e: "element m' base width i = ?s i" if "i < ?n" for i using m'(2) that by (simp add: holds_def)
  then have "map (element m' base width) [0..<?n] = map ?s [0..<?n]" by simp
  then have p: "mset (map (element m' base width) [0..<?n]) = mset (map (element m base width) [0..<?n])"
    using s(2) by (simp only:)
  have o: "\<forall>i j. i < j \<longrightarrow> j < ?n \<longrightarrow> f (element m' base width i) (element m' base width j) \<le> 0"
  proof (intro allI impI)
    fix i j assume ij: "i < j" "j < ?n"
    then have "f (?s i) (?s j) \<le> 0" using s(1) unfolding sorted_upto_def by blast
    then show "f (element m' base width i) (element m' base width j) \<le> 0" using e ij by (simp only: order.strict_trans)
  qed
  show ?thesis by (rule exI[of _ m']) (intro conjI m'(1) o p m'(3)[unfolded same_elsewhere_def])
qed

text \<open>Bytes in unsigned order.\<close>

definition ex_order :: "u8 list \<Rightarrow> u8 list \<Rightarrow> int" where
  "ex_order x y = int (unat (hd x)) - int (unat (hd y))"

theorem qsort_sorts_witness:
  "\<exists>m'. qsort 5 (\<lambda>a. ucast (0x1004 - a)) 0x1000 5 1 (\<lambda>m x y. ex_order [m x] [m y]) = Inr m'
     \<and> (\<forall>i j. i < j \<longrightarrow> j < 5 \<longrightarrow> ex_order (element m' 0x1000 1 i) (element m' 0x1000 1 j) \<le> 0)
     \<and> (\<forall>x. 5 \<le> unat (x - 0x1000) \<longrightarrow> m' x = ucast (0x1004 - x))"
proof -
  have five: "unat (5 :: u64) = 5" "(5 :: nat) * unat (1 :: u64) = 5" by simp_all
  have "(5 :: nat) < leo 5" by (simp add: eval_nat_numeral)
  then have "(5 :: nat) < leo 64" using leo_mono[of 5 64] by simp
  moreover have "comparator ex_order" by (auto simp: comparator_def ex_order_def)
  ultimately have s: "sorting (\<lambda>m x y. ex_order [m x] [m y]) ex_order 0x1000 1 (unat (5 :: u64))"
    by (simp add: sorting_def load_bytes_def)
  have "unat (5 :: u64) \<le> 5" unfolding five by (rule order_refl)
  from qsort_sorts[OF s this, of "\<lambda>a. ucast (0x1004 - a)"] show ?thesis unfolding five by blast
qed

end
