(* ===== verification/Gold_Plugin.thy ===== *)
theory Gold_Plugin
  imports Crunch_Prelude
begin

text \<open>
  The linker plugin of the provenance instrumentation (\<^verbatim>\<open>frontend/c/shadowprov/gold-plugin.cpp\<close>).  The
  linker loads it, hands it a vector of tagged values (\<open>onload\<close>), and calls back the handlers that it
  registers; at the end of symbol resolution the plugin adds its run-time objects to the link: the
  stubs, the run-time library and the replacement \<^verbatim>\<open>qsort\<close>.  The linker and the header that numbers
  the tags are not part of the repository: a function of the linker is its address, a call of one
  is recorded, and the value of \<^verbatim>\<open>LDPO_REL\<close> is a parameter.  The plugin's debugging output is left out.
\<close>

datatype ld_tag = LDPT_NULL | LDPT_API_VERSION | LDPT_GOLD_VERSION | LDPT_LINKER_OUTPUT | LDPT_OPTION
  | LDPT_REGISTER_CLAIM_FILE_HOOK | LDPT_REGISTER_ALL_SYMBOLS_READ_HOOK | LDPT_REGISTER_CLEANUP_HOOK
  | LDPT_ADD_SYMBOLS | LDPT_GET_SYMBOLS | LDPT_ADD_INPUT_FILE | LDPT_MESSAGE | LDPT_GET_INPUT_FILE
  | LDPT_RELEASE_INPUT_FILE | LDPT_ADD_INPUT_LIBRARY | LDPT_OUTPUT_NAME | LDPT_SET_EXTRA_LIBRARY_PATH
  | LDPT_GNU_LD_VERSION | LDPT_GET_VIEW | LDPT_GET_INPUT_SECTION_COUNT | LDPT_GET_INPUT_SECTION_TYPE
  | LDPT_GET_INPUT_SECTION_NAME | LDPT_GET_INPUT_SECTION_CONTENTS | LDPT_UPDATE_SECTION_ORDER
  | LDPT_ALLOW_SECTION_ORDERING | LDPT_GET_SYMBOLS_V2 | LDPT_ALLOW_UNIQUE_SEGMENT_FOR_SECTIONS
  | LDPT_UNIQUE_SEGMENT_FOR_SECTIONS | LDPT_GET_SYMBOLS_V3 | LDPT_GET_INPUT_SECTION_ALIGNMENT
  | LDPT_GET_INPUT_SECTION_SIZE | LDPT_OTHER nat

text \<open>An element of the transfer vector; the union \<^verbatim>\<open>tv_u\<close> is its 64 bits.\<close>

record ld_plugin_tv =
  tv_tag :: ld_tag
  tv_u :: u64

text \<open>The member \<^verbatim>\<open>tv_val\<close> of the union, an \<^verbatim>\<open>int\<close>.\<close>

definition tv_val :: "ld_plugin_tv \<Rightarrow> int" where
  "tv_val e = sint (ucast (tv_u e) :: u32)"

text \<open>The plugin's globals.\<close>

record plugin =
  output_file_type :: int
  api_version :: int
  gold_version :: int
  gnu_ld_version :: int
  plugin_debug_level :: int
  add_symbols :: addr
  get_input_file :: addr
  get_view :: addr
  release_input_file :: addr
  get_symbols :: addr
  add_input_file :: addr
  add_input_library :: addr
  set_extra_library_path :: addr
  ld_message :: addr
  get_input_section_count :: addr
  get_input_section_type :: addr
  get_input_section_name :: addr
  get_input_section_contents :: addr
  update_section_order :: addr
  allow_section_ordering :: addr
  allow_unique_segment_for_sections :: addr
  unique_segment_for_sections :: addr
  get_input_section_alignment :: addr
  get_input_section_size :: addr
  register_claim_file :: addr
  register_all_symbols_read :: addr
  register_cleanup :: addr

definition initial_plugin :: plugin where
  "initial_plugin = \<lparr> output_file_type = -1, api_version = 0, gold_version = 0, gnu_ld_version = 0,
     plugin_debug_level = 0, add_symbols = 0, get_input_file = 0, get_view = 0, release_input_file = 0,
     get_symbols = 0, add_input_file = 0, add_input_library = 0, set_extra_library_path = 0,
     ld_message = 0, get_input_section_count = 0, get_input_section_type = 0,
     get_input_section_name = 0, get_input_section_contents = 0, update_section_order = 0,
     allow_section_ordering = 0, allow_unique_segment_for_sections = 0,
     unique_segment_for_sections = 0, get_input_section_alignment = 0, get_input_section_size = 0,
     register_claim_file = 0, register_all_symbols_read = 0, register_cleanup = 0 \<rparr>"

text \<open>The plugin's handlers, and its calls of the linker's functions (their addresses first).\<close>

datatype handler = ClaimFile | AllSymbolsRead | Cleanup

datatype link_call = Register addr handler | AddInputFile addr string | AddInputLibrary addr string

text \<open>The C library's \<^verbatim>\<open>dirname\<close>.\<close>

definition strip_slashes :: "string \<Rightarrow> string" where
  "strip_slashes s = rev (dropWhile (\<lambda>ch. ch = CHR ''/'') (rev s))"

definition dirname :: "string \<Rightarrow> string" where
  "dirname path =
     (if path = [] then ''.''
      else let s = strip_slashes path
           in if s = [] then ''/''
              else if CHR ''/'' \<notin> set s then ''.''
              else let d = strip_slashes (rev (dropWhile (\<lambda>ch. ch \<noteq> CHR ''/'') (rev s)))
                   in if d = [] then ''/'' else d)"

text \<open>\<open>plugin_path\<close> is the name under which the dynamic linker loaded the plugin.\<close>

definition get_plugin_dir :: "string \<Rightarrow> string" where
  "get_plugin_dir plugin_path = dirname plugin_path"

definition claim_file_handler :: "int \<Rightarrow> plugin \<Rightarrow> int \<Rightarrow> int" where
  "claim_file_handler LDPO_REL p claimed =
     (if output_file_type p = LDPO_REL then 0
      else let should_claim = False in if should_claim then 1 else claimed)"

definition all_symbols_read_handler :: "string \<Rightarrow> plugin \<Rightarrow> link_call list outcome" where
  "all_symbols_read_handler plugin_path p =
     (let stubs = get_plugin_dir plugin_path @ ''/stubs.o'';
          runtime = get_plugin_dir plugin_path @ ''/runtime.so'';
          qsort = get_plugin_dir plugin_path @ ''/qsort.o''
      in if add_input_file p = 0 then Inl NullDeref
         else if add_input_library p = 0 then Inl NullDeref
         else Inr [AddInputFile (add_input_file p) stubs, AddInputFile (add_input_file p) runtime,
                   AddInputFile (add_input_file p) qsort, AddInputLibrary (add_input_library p) ''dl''])"

definition cleanup_handler :: "plugin \<Rightarrow> link_call list" where
  "cleanup_handler p = []"

text \<open>The \<^verbatim>\<open>switch\<close> over the tag of one element.\<close>

definition transfer :: "ld_plugin_tv \<Rightarrow> plugin \<Rightarrow> plugin" where
  "transfer e p =
     (case tv_tag e of
        LDPT_API_VERSION \<Rightarrow> p\<lparr> api_version := tv_val e \<rparr>
      | LDPT_GOLD_VERSION \<Rightarrow> p\<lparr> gold_version := tv_val e \<rparr>
      | LDPT_LINKER_OUTPUT \<Rightarrow> p\<lparr> output_file_type := tv_val e \<rparr>
      | LDPT_REGISTER_CLAIM_FILE_HOOK \<Rightarrow> p\<lparr> register_claim_file := tv_u e \<rparr>
      | LDPT_REGISTER_ALL_SYMBOLS_READ_HOOK \<Rightarrow> p\<lparr> register_all_symbols_read := tv_u e \<rparr>
      | LDPT_REGISTER_CLEANUP_HOOK \<Rightarrow> p\<lparr> register_cleanup := tv_u e \<rparr>
      | LDPT_ADD_SYMBOLS \<Rightarrow> p\<lparr> add_symbols := tv_u e \<rparr>
      | LDPT_GET_SYMBOLS \<Rightarrow> p\<lparr> get_symbols := tv_u e \<rparr>
      | LDPT_ADD_INPUT_FILE \<Rightarrow> p\<lparr> add_input_file := tv_u e \<rparr>
      | LDPT_MESSAGE \<Rightarrow> p\<lparr> ld_message := tv_u e \<rparr>
      | LDPT_GET_INPUT_FILE \<Rightarrow> p\<lparr> get_input_file := tv_u e \<rparr>
      | LDPT_RELEASE_INPUT_FILE \<Rightarrow> p\<lparr> release_input_file := tv_u e \<rparr>
      | LDPT_ADD_INPUT_LIBRARY \<Rightarrow> p\<lparr> add_input_library := tv_u e \<rparr>
      | LDPT_SET_EXTRA_LIBRARY_PATH \<Rightarrow> p\<lparr> set_extra_library_path := tv_u e \<rparr>
      | LDPT_GNU_LD_VERSION \<Rightarrow> p\<lparr> gnu_ld_version := tv_val e \<rparr>
      | LDPT_GET_VIEW \<Rightarrow> p\<lparr> get_view := tv_u e \<rparr>
      | LDPT_GET_INPUT_SECTION_COUNT \<Rightarrow> p\<lparr> get_input_section_count := tv_u e \<rparr>
      | LDPT_GET_INPUT_SECTION_TYPE \<Rightarrow> p\<lparr> get_input_section_type := tv_u e \<rparr>
      | LDPT_GET_INPUT_SECTION_NAME \<Rightarrow> p\<lparr> get_input_section_name := tv_u e \<rparr>
      | LDPT_GET_INPUT_SECTION_CONTENTS \<Rightarrow> p\<lparr> get_input_section_contents := tv_u e \<rparr>
      | LDPT_UPDATE_SECTION_ORDER \<Rightarrow> p\<lparr> update_section_order := tv_u e \<rparr>
      | LDPT_ALLOW_SECTION_ORDERING \<Rightarrow> p\<lparr> allow_section_ordering := tv_u e \<rparr>
      | LDPT_GET_SYMBOLS_V2 \<Rightarrow> p\<lparr> get_symbols := tv_u e \<rparr>
      | LDPT_ALLOW_UNIQUE_SEGMENT_FOR_SECTIONS \<Rightarrow> p\<lparr> allow_unique_segment_for_sections := tv_u e \<rparr>
      | LDPT_UNIQUE_SEGMENT_FOR_SECTIONS \<Rightarrow> p\<lparr> unique_segment_for_sections := tv_u e \<rparr>
      | LDPT_GET_INPUT_SECTION_ALIGNMENT \<Rightarrow> p\<lparr> get_input_section_alignment := tv_u e \<rparr>
      | LDPT_GET_INPUT_SECTION_SIZE \<Rightarrow> p\<lparr> get_input_section_size := tv_u e \<rparr>
      | _ \<Rightarrow> p)"

text \<open>The loop stops at the null tag; a vector without one is read past its end.\<close>

fun transfer_all :: "ld_plugin_tv list \<Rightarrow> plugin \<Rightarrow> plugin outcome" where
  "transfer_all [] p = Inl UninitRead"
| "transfer_all (e # tv) p =
     (if tv_tag e = LDPT_NULL then Inr p else transfer_all tv (transfer e p))"

definition register_handlers :: "plugin \<Rightarrow> link_call list" where
  "register_handlers p =
     (if register_claim_file p \<noteq> 0 then [Register (register_claim_file p) ClaimFile] else [])
     @ (if register_all_symbols_read p \<noteq> 0
        then [Register (register_all_symbols_read p) AllSymbolsRead] else [])
     @ (if register_cleanup p \<noteq> 0 then [Register (register_cleanup p) Cleanup] else [])"

text \<open>\<open>env_set v\<close> says whether the environment variable \<open>v\<close> is set.\<close>

definition onload ::
  "(string \<Rightarrow> bool) \<Rightarrow> ld_plugin_tv list \<Rightarrow> plugin \<Rightarrow> (plugin \<times> link_call list) outcome" where
  "onload env_set tv p =
     omap (\<lambda>p. (p, register_handlers p))
       (transfer_all tv (if env_set ''DEBUG_CC'' then p\<lparr> plugin_debug_level := 1 \<rparr> else p))"


subsection \<open>What the plugin makes of a transfer vector\<close>

text \<open>The value that the vector gives a tag: that of its last element with the tag.\<close>

definition tv_value :: "ld_plugin_tv list \<Rightarrow> ld_tag \<Rightarrow> u64 option" where
  "tv_value tv t = map_of (rev (map (\<lambda>e. (tv_tag e, tv_u e)) (takeWhile (\<lambda>e. tv_tag e \<noteq> LDPT_NULL) tv))) t"

definition value_or :: "'a \<Rightarrow> 'a option \<Rightarrow> 'a" where
  "value_or d v = (case v of None \<Rightarrow> d | Some x \<Rightarrow> x)"

lemma value_or_simps [simp]: "value_or d None = d" "value_or d (Some x) = x"
  by (simp_all add: value_or_def)

lemma tv_value_Nil [simp]: "tv_value [] t = None"
  by (simp add: tv_value_def)

lemma tv_value_Cons:
  "tv_value (e # tv) t =
     (if tv_tag e = LDPT_NULL then None
      else case tv_value tv t of Some v \<Rightarrow> Some v
         | None \<Rightarrow> if tv_tag e = t then Some (tv_u e) else None)"
  by (simp add: tv_value_def map_add_def split: option.splits)

text \<open>A global that only the elements with one tag set, and set to their value.\<close>

definition set_by :: "ld_tag \<Rightarrow> (plugin \<Rightarrow> addr) \<Rightarrow> bool" where
  "set_by t f \<longleftrightarrow> (\<forall>e p. f (transfer e p) = (if tv_tag e = t then tv_u e else f p))"

lemma set_by_fields:
  "set_by LDPT_ADD_INPUT_FILE add_input_file"
  "set_by LDPT_ADD_INPUT_LIBRARY add_input_library"
  "set_by LDPT_REGISTER_CLAIM_FILE_HOOK register_claim_file"
  "set_by LDPT_REGISTER_ALL_SYMBOLS_READ_HOOK register_all_symbols_read"
  "set_by LDPT_REGISTER_CLEANUP_HOOK register_cleanup"
  by (simp_all add: set_by_def transfer_def split: ld_tag.splits)

lemma transfer_all_field:
  assumes "set_by t f" "t \<noteq> LDPT_NULL" "transfer_all tv p = Inr p'"
  shows "f p' = value_or (f p) (tv_value tv t)"
  using assms(3)
proof (induction tv arbitrary: p)
  case (Cons e tv)
  then show ?case
    using assms(1,2) by (auto simp: tv_value_Cons set_by_def split: if_split_asm option.splits)
qed simp

lemmas transferred = set_by_fields[THEN transfer_all_field]

lemma transfer_all_output:
  assumes "transfer_all tv p = Inr p'"
  shows "output_file_type p' = value_or (output_file_type p)
    (map_option (\<lambda>v. sint (ucast v :: u32)) (tv_value tv LDPT_LINKER_OUTPUT))"
  using assms
proof (induction tv arbitrary: p)
  case (Cons e tv)
  have "output_file_type (transfer e p) =
      (if tv_tag e = LDPT_LINKER_OUTPUT then tv_val e else output_file_type p)"
    by (simp add: transfer_def split: ld_tag.splits)
  with Cons show ?case by (auto simp: tv_value_Cons tv_val_def split: if_split_asm option.splits)
qed simp

lemma transfer_all_returns:
  "LDPT_NULL \<in> tv_tag ` set tv \<Longrightarrow> \<exists>p'. transfer_all tv p = Inr p'"
  by (induction tv arbitrary: p) auto

text \<open>
  (C32) The plugin adds exactly its run-time objects to a link.  When the linker hands over a terminated
  vector that offers it the three registration hooks and the two functions that add input, none of
  them null, \<^verbatim>\<open>onload\<close> returns and registers all three handlers with the last
  registration functions of the vector; from then on no file is claimed, and when the symbols have
  been read the plugin adds the stubs, the run-time library and its \<^verbatim>\<open>qsort\<close> from its own directory and
  the \<^verbatim>\<open>dl\<close> library, in this order, through the last functions that the vector gave.
\<close>

theorem plugin_adds_its_objects:
  assumes "LDPT_NULL \<in> tv_tag ` set tv"
    and "tv_value tv LDPT_REGISTER_CLAIM_FILE_HOOK = Some rc" "rc \<noteq> 0"
    and "tv_value tv LDPT_REGISTER_ALL_SYMBOLS_READ_HOOK = Some ra" "ra \<noteq> 0"
    and "tv_value tv LDPT_REGISTER_CLEANUP_HOOK = Some rl" "rl \<noteq> 0"
    and "tv_value tv LDPT_ADD_INPUT_FILE = Some af" "af \<noteq> 0"
    and "tv_value tv LDPT_ADD_INPUT_LIBRARY = Some al" "al \<noteq> 0"
  shows "\<exists>p. onload env_set tv initial_plugin
        = Inr (p, [Register rc ClaimFile, Register ra AllSymbolsRead, Register rl Cleanup])
    \<and> claim_file_handler LDPO_REL p 0 = 0
    \<and> all_symbols_read_handler path p = Inr [AddInputFile af (dirname path @ ''/stubs.o''),
        AddInputFile af (dirname path @ ''/runtime.so''), AddInputFile af (dirname path @ ''/qsort.o''),
        AddInputLibrary al ''dl'']"
proof -
  let ?p0 = "if env_set ''DEBUG_CC'' then initial_plugin\<lparr> plugin_debug_level := 1 \<rparr> else initial_plugin"
  obtain p where p: "transfer_all tv ?p0 = Inr p" using transfer_all_returns[OF assms(1)] by blast
  have "register_claim_file p = rc" "register_all_symbols_read p = ra" "register_cleanup p = rl"
    "add_input_file p = af" "add_input_library p = al"
    using transferred[OF _ p] assms by simp_all
  then show ?thesis
    using assms p by (intro exI[of _ p]) (simp add: onload_def register_handlers_def
        claim_file_handler_def all_symbols_read_handler_def get_plugin_dir_def Let_def)
qed

text \<open>The objects that a linker of the documented interface offers, with a repeated entry.\<close>

definition ex_tv :: "ld_plugin_tv list" where
  "ex_tv = [\<lparr> tv_tag = LDPT_API_VERSION, tv_u = 1 \<rparr>, \<lparr> tv_tag = LDPT_LINKER_OUTPUT, tv_u = 1 \<rparr>,
     \<lparr> tv_tag = LDPT_REGISTER_CLAIM_FILE_HOOK, tv_u = 0x10 \<rparr>,
     \<lparr> tv_tag = LDPT_REGISTER_ALL_SYMBOLS_READ_HOOK, tv_u = 0x20 \<rparr>,
     \<lparr> tv_tag = LDPT_REGISTER_CLEANUP_HOOK, tv_u = 0x30 \<rparr>, \<lparr> tv_tag = LDPT_ADD_INPUT_FILE, tv_u = 0x40 \<rparr>,
     \<lparr> tv_tag = LDPT_ADD_INPUT_LIBRARY, tv_u = 0x50 \<rparr>, \<lparr> tv_tag = LDPT_ADD_INPUT_FILE, tv_u = 0x60 \<rparr>,
     \<lparr> tv_tag = LDPT_NULL, tv_u = 0 \<rparr>]"

theorem plugin_adds_its_objects_witness:
  "\<exists>p. onload (\<lambda>_. False) ex_tv initial_plugin
        = Inr (p, [Register 0x10 ClaimFile, Register 0x20 AllSymbolsRead, Register 0x30 Cleanup])
    \<and> all_symbols_read_handler ''/opt/lib/plugin.so'' p = Inr [AddInputFile 0x60 ''/opt/lib/stubs.o'',
        AddInputFile 0x60 ''/opt/lib/runtime.so'', AddInputFile 0x60 ''/opt/lib/qsort.o'',
        AddInputLibrary 0x50 ''dl'']"
proof -
  have d: "dirname ''/opt/lib/plugin.so'' = ''/opt/lib''"
    by (simp add: dirname_def strip_slashes_def)
  have "tv_value ex_tv LDPT_REGISTER_CLAIM_FILE_HOOK = Some 0x10"
    "tv_value ex_tv LDPT_REGISTER_ALL_SYMBOLS_READ_HOOK = Some 0x20"
    "tv_value ex_tv LDPT_REGISTER_CLEANUP_HOOK = Some 0x30" "tv_value ex_tv LDPT_ADD_INPUT_FILE = Some 0x60"
    "tv_value ex_tv LDPT_ADD_INPUT_LIBRARY = Some 0x50" "LDPT_NULL \<in> tv_tag ` set ex_tv"
    by (simp_all add: ex_tv_def tv_value_def)
  then show ?thesis
    using plugin_adds_its_objects[of ex_tv "0x10" "0x20" "0x30" "0x60" "0x50" "\<lambda>_. False" 0
        "''/opt/lib/plugin.so''"] unfolding d by auto
qed

text \<open>
  The plugin relies on the linker offering those functions: it tests the registration functions for
  null before calling them, but not the ones it adds its objects with, and a linker that offers no
  \<^verbatim>\<open>LDPT_ADD_INPUT_FILE\<close> makes it call a null pointer.
\<close>

lemma missing_add_input_file_is_called:
  assumes "LDPT_NULL \<in> tv_tag ` set tv" "tv_value tv LDPT_ADD_INPUT_FILE = None"
  shows "\<exists>p cs. onload env_set tv initial_plugin = Inr (p, cs) \<and> all_symbols_read_handler path p = Inl NullDeref"
proof -
  let ?p0 = "if env_set ''DEBUG_CC'' then initial_plugin\<lparr> plugin_debug_level := 1 \<rparr> else initial_plugin"
  obtain p where p: "transfer_all tv ?p0 = Inr p" using transfer_all_returns[OF assms(1)] by blast
  have "add_input_file p = 0"
    using transfer_all_field[OF set_by_fields(1) _ p] assms(2) by (simp add: initial_plugin_def)
  with p show ?thesis by (simp add: onload_def all_symbols_read_handler_def)
qed

text \<open>
  The claim handler writes its out-parameter only for relocatable output; for a final link it
  leaves the linker's value as it is.
\<close>

lemma claim_depends_on_output:
  assumes "onload env_set tv initial_plugin = Inr (p, cs)"
    and "tv_value tv LDPT_LINKER_OUTPUT = Some v"
  shows "claim_file_handler LDPO_REL p claimed = (if sint (ucast v :: u32) = LDPO_REL then 0 else claimed)"
proof -
  obtain p0 where "transfer_all tv p0 = Inr p" using assms(1) by (auto simp: onload_def)
  then have "output_file_type p = sint (ucast v :: u32)" using assms(2) by (simp add: transfer_all_output)
  then show ?thesis by (simp add: claim_file_handler_def Let_def)
qed

end
