(* ===== verification/Checked_Cast.thy ===== *)
theory Checked_Cast
  imports Stubs
begin

text \<open>
  The checked casts of the C++ front end (\<^verbatim>\<open>frontend/c++/include/checked_cast.hpp\<close>).  The header
  redefines \<^verbatim>\<open>static_cast\<close> and \<^verbatim>\<open>reinterpret_cast\<close> as class templates: a cast builds an object that
  holds the result of the language's cast, and the conversion of that object to the target type
  checks the pointer against the type it is cast to.  The theory models both templates with their
  specialisations, for integers and pointers, and the generic template for values of class type.
  A cast that does not compile is \<open>None\<close>.  What the compiler knows of the program is a parameter:
  how far a static cast moves a pointer between classes, which pointer casts keep the constness, and
  where the type descriptor \<^verbatim>\<open>uniqtype<T>::obj\<close> of a type is.
\<close>


subsection \<open>Types, values and the casts of the language\<close>

datatype int_type = CInt | CUInt | CShort | CUShort | CLong | CULong | CLongLong | CULongLong
  | CChar | CUChar | CWChar | CBool

text \<open>Widths and signs on x86-64 Linux, the only platform of the library.\<close>

fun int_width :: "int_type \<Rightarrow> nat" where
  "int_width CInt = 32"
| "int_width CUInt = 32"
| "int_width CShort = 16"
| "int_width CUShort = 16"
| "int_width CLong = 64"
| "int_width CULong = 64"
| "int_width CLongLong = 64"
| "int_width CULongLong = 64"
| "int_width CChar = 8"
| "int_width CUChar = 8"
| "int_width CWChar = 32"
| "int_width CBool = 8"

definition int_signed :: "int_type \<Rightarrow> bool" where
  "int_signed k \<longleftrightarrow> k \<in> {CInt, CShort, CLong, CLongLong, CChar, CWChar}"

definition int_conv :: "int_type \<Rightarrow> int \<Rightarrow> int" where
  "int_conv k x =
     (if k = CBool then (if x = 0 then 0 else 1)
      else if int_signed k then signed_take_bit (int_width k - 1) x
      else take_bit (int_width k) x)"

text \<open>The object types of the program are numbered.\<close>

datatype pointee = VoidT | ConstVoidT | ObjT nat

datatype cpp_type = TVoid | TInt int_type | TPtr pointee

datatype cpp_value = VVoid | VInt int_type int | VPtr pointee addr

record cpp_program =
  static_offset :: "pointee \<Rightarrow> pointee \<Rightarrow> addr option"
  reinterpretable :: "pointee \<Rightarrow> pointee \<Rightarrow> bool"
  uniqtype_obj :: "nat \<Rightarrow> uniqtype"

fun lang_static_cast :: "cpp_program \<Rightarrow> cpp_type \<Rightarrow> cpp_value \<Rightarrow> cpp_value option" where
  "lang_static_cast P to VVoid = None"
| "lang_static_cast P TVoid v = Some VVoid"
| "lang_static_cast P (TInt k) (VInt k' x) = Some (VInt k (int_conv k x))"
| "lang_static_cast P (TInt k) (VPtr t a) =
     (if k = CBool then Some (VInt CBool (if a = 0 then 0 else 1)) else None)"
| "lang_static_cast P (TPtr t) (VInt k x) = None"
| "lang_static_cast P (TPtr t) (VPtr t' a) =
     map_option (\<lambda>off. VPtr t (if a = 0 then 0 else a + off)) (static_offset P t' t)"

fun lang_reinterpret_cast :: "cpp_program \<Rightarrow> cpp_type \<Rightarrow> cpp_value \<Rightarrow> cpp_value option" where
  "lang_reinterpret_cast P to VVoid = None"
| "lang_reinterpret_cast P TVoid v = None"
| "lang_reinterpret_cast P (TInt k) (VInt k' x) = (if k = k' then Some (VInt k x) else None)"
| "lang_reinterpret_cast P (TInt k) (VPtr t a) =
     (if int_width k = 64 then Some (VInt k (int_conv k (uint a))) else None)"
| "lang_reinterpret_cast P (TPtr t) (VInt k x) = Some (VPtr t (of_int x))"
| "lang_reinterpret_cast P (TPtr t) (VPtr t' a) =
     (if reinterpretable P t' t then Some (VPtr t a) else None)"

text \<open>The old-style cast \<^verbatim>\<open>(T*)(unsigned long) v\<close>.\<close>

fun old_style_cast :: "pointee \<Rightarrow> cpp_value \<Rightarrow> cpp_value option" where
  "old_style_cast t VVoid = None"
| "old_style_cast t (VInt k x) = Some (VPtr t (of_int x))"
| "old_style_cast t (VPtr t' a) = Some (VPtr t a)"


subsection \<open>The templates\<close>

text \<open>
  The argument of a cast.  Each class has two constructors, from \<^verbatim>\<open>const From&\<close> and from \<^verbatim>\<open>From&&\<close>; the
  latter deduces a reference type and is the better match for everything but a constant lvalue.
\<close>

datatype value_category = ConstLvalue | Lvalue | Rvalue

text \<open>
  The generic template on a class type, whose conversions are the program's: \<open>copy\<close> reads its
  argument, \<open>move\<close> also returns what it leaves of it.  The second constructor moves.
\<close>

definition generic_cast ::
  "('f \<Rightarrow> 't) \<Rightarrow> ('f \<Rightarrow> 't \<times> 'f) \<Rightarrow> value_category \<Rightarrow> 'f \<Rightarrow> 't \<times> 'f" where
  "generic_cast copy move cat arg = (if cat = ConstLvalue then (copy arg, arg) else move arg)"

text \<open>
  The member \<^verbatim>\<open>temp\<close> that the constructors of \<^verbatim>\<open>checked_static_cast_t<To>\<close> compute, for each specialisation.
  \<^verbatim>\<open>long\<close> has none and takes the generic template, which on integers does the same.  For \<^verbatim>\<open>const void*\<close> the
  template for pointers declares a function that returns \<^verbatim>\<open>const void&\<close>, which is an error.
\<close>

definition static_cast_void :: "cpp_value \<Rightarrow> cpp_value option" where
  "static_cast_void v = (if v = VVoid then None else Some VVoid)"

definition static_cast_void_pointer :: "cpp_program \<Rightarrow> cpp_value \<Rightarrow> cpp_value option" where
  "static_cast_void_pointer P v = lang_static_cast P (TPtr VoidT) v"

definition static_cast_pointer ::
  "cpp_program \<Rightarrow> pointee \<Rightarrow> value_category \<Rightarrow> cpp_value \<Rightarrow> cpp_value option" where
  "static_cast_pointer P t cat v =
     (if t = ConstVoidT then None
      else if cat = ConstLvalue then lang_static_cast P (TPtr t) v
      else old_style_cast t v)"

definition static_cast_integer :: "cpp_program \<Rightarrow> int_type \<Rightarrow> cpp_value \<Rightarrow> cpp_value option" where
  "static_cast_integer P k v = lang_static_cast P (TInt k) v"

fun checked_static_cast_t ::
  "cpp_program \<Rightarrow> cpp_type \<Rightarrow> value_category \<Rightarrow> cpp_value \<Rightarrow> cpp_value option" where
  "checked_static_cast_t P TVoid cat v = static_cast_void v"
| "checked_static_cast_t P (TPtr VoidT) cat v = static_cast_void_pointer P v"
| "checked_static_cast_t P (TPtr t) cat v = static_cast_pointer P t cat v"
| "checked_static_cast_t P (TInt k) cat v = static_cast_integer P k v"

definition reinterpret_cast_void :: "cpp_value \<Rightarrow> cpp_value option" where
  "reinterpret_cast_void v = (if v = VVoid then None else Some VVoid)"

definition reinterpret_cast_void_pointer :: "cpp_program \<Rightarrow> pointee \<Rightarrow> cpp_value \<Rightarrow> cpp_value option" where
  "reinterpret_cast_void_pointer P t v = lang_reinterpret_cast P (TPtr t) v"

definition reinterpret_cast_pointer ::
  "cpp_program \<Rightarrow> pointee \<Rightarrow> value_category \<Rightarrow> cpp_value \<Rightarrow> cpp_value option" where
  "reinterpret_cast_pointer P t cat v = lang_reinterpret_cast P (TPtr t) v"

definition reinterpret_cast_integer :: "cpp_program \<Rightarrow> int_type \<Rightarrow> cpp_value \<Rightarrow> cpp_value option" where
  "reinterpret_cast_integer P k v = lang_reinterpret_cast P (TInt k) v"

fun checked_reinterpret_cast_t ::
  "cpp_program \<Rightarrow> cpp_type \<Rightarrow> value_category \<Rightarrow> cpp_value \<Rightarrow> cpp_value option" where
  "checked_reinterpret_cast_t P TVoid cat v = reinterpret_cast_void v"
| "checked_reinterpret_cast_t P (TPtr (ObjT j)) cat v = reinterpret_cast_pointer P (ObjT j) cat v"
| "checked_reinterpret_cast_t P (TPtr t) cat v = reinterpret_cast_void_pointer P t v"
| "checked_reinterpret_cast_t P (TInt k) cat v = reinterpret_cast_integer P k v"

lemmas cast_classes = static_cast_void_def static_cast_void_pointer_def static_cast_pointer_def
  static_cast_integer_def reinterpret_cast_void_def reinterpret_cast_void_pointer_def
  reinterpret_cast_pointer_def reinterpret_cast_integer_def

text \<open>
  The conversion operator, which the members \<^verbatim>\<open>operator*\<close> and \<^verbatim>\<open>operator->\<close> call as well: a pointer to
  an object that is neither null nor \<open>-1\<close> is checked, and the verdict is ignored.
\<close>

definition operator_To ::
  "'w checkers \<Rightarrow> cpp_program \<Rightarrow> addr \<Rightarrow> cpp_type \<Rightarrow> cpp_value \<Rightarrow> 'w crunch \<Rightarrow> (cpp_value \<times> 'w crunch) outcome" where
  "operator_To ck P site to temp st =
     (case (to, temp) of
        (TPtr (ObjT j), VPtr _ a) \<Rightarrow>
          if a \<noteq> 0 \<and> a \<noteq> -1
          then obind (ck_is_a ck site a (uniqtype_obj P j) (count_begun st)) (\<lambda>(_, st). Inr (temp, st))
          else Inr (temp, st)
      | _ \<Rightarrow> Inr (temp, st))"

datatype cast_op = StaticCast | ReinterpretCast

text \<open>A cast expression of the program: operator, place, target type, argument.\<close>

record cast_expr =
  cast_op :: cast_op
  cast_site :: addr
  cast_to :: cpp_type
  cast_cat :: value_category
  cast_arg :: cpp_value

definition cast_temp :: "cpp_program \<Rightarrow> cast_expr \<Rightarrow> cpp_value option" where
  "cast_temp P e =
     (case cast_op e of
        StaticCast \<Rightarrow> checked_static_cast_t P (cast_to e) (cast_cat e) (cast_arg e)
      | ReinterpretCast \<Rightarrow> checked_reinterpret_cast_t P (cast_to e) (cast_cat e) (cast_arg e))"

fun run_temps ::
  "'w checkers \<Rightarrow> cpp_program \<Rightarrow> (cast_expr \<times> cpp_value) list \<Rightarrow> 'w crunch \<Rightarrow> (cpp_value list \<times> 'w crunch) outcome" where
  "run_temps ck P [] st = Inr ([], st)"
| "run_temps ck P ((e, temp) # es) st =
     obind (operator_To ck P (cast_site e) (cast_to e) temp st) (\<lambda>(v, st).
       omap (\<lambda>(vs, st). (v # vs, st)) (run_temps ck P es st))"

definition run_casts ::
  "'w checkers \<Rightarrow> cpp_program \<Rightarrow> cast_expr list \<Rightarrow> 'w crunch \<Rightarrow> (cpp_value list \<times> 'w crunch) outcome option" where
  "run_casts ck P es st =
     map_option (\<lambda>temps. run_temps ck P (zip es temps) st) (those (map (cast_temp P) es))"


subsection \<open>What a cast computes\<close>

definition lang_cast :: "cpp_program \<Rightarrow> cast_expr \<Rightarrow> cpp_value option" where
  "lang_cast P e =
     (case cast_op e of
        StaticCast \<Rightarrow> lang_static_cast P (cast_to e) (cast_arg e)
      | ReinterpretCast \<Rightarrow> lang_reinterpret_cast P (cast_to e) (cast_arg e))"

text \<open>
  What the templates make of a cast: the language's cast, with three exceptions.  A static cast to
  \<^verbatim>\<open>const void*\<close> does not compile.  A static cast of anything but a constant lvalue to a pointer to an object
  takes any integer or pointer and keeps its address, where the language refuses integers and
  unrelated classes and moves the pointer between related ones.  A reinterpret cast to \<^verbatim>\<open>void\<close> compiles.
\<close>

fun same_address :: "nat \<Rightarrow> cpp_value \<Rightarrow> cpp_value option" where
  "same_address j VVoid = None"
| "same_address j (VInt k x) = Some (VPtr (ObjT j) (of_int x))"
| "same_address j (VPtr t a) = Some (VPtr (ObjT j) a)"

definition template_cast :: "cpp_program \<Rightarrow> cast_expr \<Rightarrow> cpp_value option" where
  "template_cast P e =
     (case (cast_op e, cast_to e) of
        (StaticCast, TPtr ConstVoidT) \<Rightarrow> None
      | (StaticCast, TPtr (ObjT j)) \<Rightarrow>
          if cast_cat e = ConstLvalue then lang_cast P e else same_address j (cast_arg e)
      | (ReinterpretCast, TVoid) \<Rightarrow> if cast_arg e = VVoid then None else Some VVoid
      | _ \<Rightarrow> lang_cast P e)"

lemma cast_temp_template: "cast_temp P = template_cast P"
proof
  fix e
  show "cast_temp P e = template_cast P e"
  proof (cases "cast_op e")
    case StaticCast
    have "checked_static_cast_t P (cast_to e) (cast_cat e) (cast_arg e) = template_cast P e"
      using StaticCast
      by (cases "(P, cast_to e, cast_cat e, cast_arg e)" rule: checked_static_cast_t.cases; cases "cast_arg e")
        (simp_all add: cast_classes template_cast_def lang_cast_def)
    then show ?thesis using StaticCast by (simp add: cast_temp_def)
  next
    case ReinterpretCast
    then have "checked_reinterpret_cast_t P (cast_to e) (cast_cat e) (cast_arg e) = template_cast P e"
      by (cases "(P, cast_to e, cast_cat e, cast_arg e)" rule: checked_reinterpret_cast_t.cases)
        (simp_all add: cast_classes template_cast_def lang_cast_def)
    then show ?thesis using ReinterpretCast by (simp add: cast_temp_def)
  qed
qed

text \<open>The casts that are checked: to a pointer to an object that is neither null nor \<open>-1\<close>.\<close>

fun checked_value :: "cpp_type \<Rightarrow> cpp_value \<Rightarrow> bool" where
  "checked_value (TPtr (ObjT j)) (VPtr t a) \<longleftrightarrow> a \<noteq> 0 \<and> a \<noteq> -1"
| "checked_value _ _ \<longleftrightarrow> False"

lemma operator_To_unchecked: "\<not> checked_value to v \<Longrightarrow> operator_To ck P site to v st = Inr (v, st)"
  by (auto simp: operator_To_def split: cpp_type.split cpp_value.split pointee.split)

lemma operator_To_checked:
  "checked_value to v \<Longrightarrow> \<exists>j a. to = TPtr (ObjT j) \<and> operator_To ck P site to v st =
     obind (ck_is_a ck site a (uniqtype_obj P j) (count_begun st)) (\<lambda>(_, st). Inr (v, st))"
  by (cases "(to, v)" rule: checked_value.cases) (auto simp: operator_To_def)


lemma those_length: "those xs = Some ys \<Longrightarrow> length ys = length xs"
  by (induction xs arbitrary: ys) (auto split: option.splits)


subsection \<open>What a cast needs of the library\<close>

text \<open>
  The interface: the check of the library that is linked returns or stops for a cause, leaves the
  program alone and does not count itself as begun, which the cast has done already.
\<close>

locale cast_checker =
  fixes ck :: "'w checkers" and ready :: "'w crunch \<Rightarrow> bool" and stops :: "uniqtype \<Rightarrow> fault \<Rightarrow> bool"
  assumes is_a_returns: "ready st \<Longrightarrow> t \<noteq> 0 \<Longrightarrow> (\<exists>e. ck_is_a ck site obj t st = Inl e \<and> stops t e)
      \<or> (\<exists>r st'. ck_is_a ck site obj t st = Inr (r, st') \<and> ready st' \<and> same_program st st'
          \<and> cnt_begun st' = cnt_begun st)"
    and ready_begun: "ready st \<Longrightarrow> ready (count_begun st)"
begin

lemma operator_To_returns:
  assumes "ready st" "\<And>j. uniqtype_obj P j \<noteq> 0"
  shows "(\<exists>e j. operator_To ck P site to v st = Inl e \<and> to = TPtr (ObjT j) \<and> stops (uniqtype_obj P j) e)
    \<or> (\<exists>st'. operator_To ck P site to v st = Inr (v, st') \<and> ready st' \<and> same_program st st'
        \<and> cnt_begun st' = cnt_begun st + (if checked_value to v then 1 else 0))"
proof (cases "checked_value to v")
  case False
  then show ?thesis using assms(1) by (simp add: operator_To_unchecked same_program_def)
next
  case True
  from operator_To_checked[OF True, of ck P site st]
  obtain j a where j: "to = TPtr (ObjT j)" "operator_To ck P site to v st =
      obind (ck_is_a ck site a (uniqtype_obj P j) (count_begun st)) (\<lambda>(_, st). Inr (v, st))"
    by (elim exE conjE)
  from is_a_returns[OF ready_begun[OF assms(1)] assms(2), of site a j]
  show ?thesis
  proof (elim disjE exE conjE)
    fix e assume "ck_is_a ck site a (uniqtype_obj P j) (count_begun st) = Inl e" "stops (uniqtype_obj P j) e"
    then show ?thesis using j by auto
  next
    fix r st' assume "ck_is_a ck site a (uniqtype_obj P j) (count_begun st) = Inr (r, st')" "ready st'"
      "same_program (count_begun st) st'" "cnt_begun st' = cnt_begun (count_begun st)"
    then show ?thesis using True j(2) by (simp add: same_program_def count_begun_def)
  qed
qed

lemma run_temps_returns:
  assumes "ready st" "\<And>j. uniqtype_obj P j \<noteq> 0"
  shows "(\<exists>e x j. run_temps ck P es st = Inl e \<and> x \<in> fst ` set es \<and> cast_to x = TPtr (ObjT j)
        \<and> stops (uniqtype_obj P j) e)
    \<or> (\<exists>st'. run_temps ck P es st = Inr (map snd es, st') \<and> ready st' \<and> same_program st st'
    \<and> cnt_begun st' = cnt_begun st + of_nat (length (filter (\<lambda>(e, v). checked_value (cast_to e) v) es)))"
  using assms(1)
proof (induction es arbitrary: st)
  case Nil
  then show ?case by (simp add: same_program_def)
next
  case (Cons ev es)
  obtain x v where ev: "ev = (x, v)" by (cases ev)
  from operator_To_returns[OF Cons.prems assms(2), of "cast_site x" "cast_to x" v]
  show ?case
  proof (elim disjE exE conjE)
    fix e j assume "operator_To ck P (cast_site x) (cast_to x) v st = Inl e" "cast_to x = TPtr (ObjT j)"
      "stops (uniqtype_obj P j) e"
    then show ?thesis by (intro disjI1 exI[of _ e] exI[of _ x] exI[of _ j]) (simp add: ev)
  next
    fix st1 assume 1: "operator_To ck P (cast_site x) (cast_to x) v st = Inr (v, st1)" "ready st1"
      "same_program st st1" "cnt_begun st1 = cnt_begun st + (if checked_value (cast_to x) v then 1 else 0)"
    from Cons.IH[OF 1(2)] show ?thesis
    proof (elim disjE exE conjE)
      fix e y j assume "run_temps ck P es st1 = Inl e" "y \<in> fst ` set es" "cast_to y = TPtr (ObjT j)"
        "stops (uniqtype_obj P j) e"
      then show ?thesis using 1(1) by (intro disjI1 exI[of _ e] exI[of _ y] exI[of _ j]) (simp add: ev)
    next
      fix st2 assume "run_temps ck P es st1 = Inr (map snd es, st2)" "ready st2" "same_program st1 st2"
        "cnt_begun st2 = cnt_begun st1 + of_nat (length (filter (\<lambda>(e, v). checked_value (cast_to e) v) es))"
      then show ?thesis using 1 ev same_program_trans[OF 1(3)] by (auto simp: add.assoc)
    qed
  qed
qed

lemma run_casts_returns:
  assumes "ready st" "\<And>j. uniqtype_obj P j \<noteq> 0"
  shows "case those (map (template_cast P) es) of
      None \<Rightarrow> run_casts ck P es st = None
    | Some vs \<Rightarrow>
        (\<exists>e x j. run_casts ck P es st = Some (Inl e) \<and> x \<in> set es \<and> cast_to x = TPtr (ObjT j)
            \<and> stops (uniqtype_obj P j) e)
        \<or> (\<exists>st'. run_casts ck P es st = Some (Inr (vs, st')) \<and> ready st' \<and> same_program st st'
            \<and> cnt_begun st' = cnt_begun st
                + of_nat (length (filter (\<lambda>(e, v). checked_value (cast_to e) v) (zip es vs))))"
proof (cases "those (map (template_cast P) es)")
  case None
  then show ?thesis by (simp add: run_casts_def cast_temp_template)
next
  case (Some vs)
  have l: "length vs = length es" using those_length[OF Some] by simp
  then have f: "fst ` set (zip es vs) = set es" by (simp flip: list.set_map)
  show ?thesis
    using run_temps_returns[OF assms, of "zip es vs"] Some l f
    by (simp add: run_casts_def cast_temp_template)
qed

end

text \<open>Both libraries provide it.\<close>

interpretation lib_casts: cast_checker "lib_checkers la" "checks_ready la" "is_a_stop la" for la
proof unfold_locales
  fix st t site obj assume "checks_ready la st" "(t :: uniqtype) \<noteq> 0"
  then have "ends (is_a_stop la t) la st (is_a_internal la site obj t st)" using is_a_internal_ends by blast
  then show "(\<exists>e. ck_is_a (lib_checkers la) site obj t st = Inl e \<and> is_a_stop la t e)
      \<or> (\<exists>r st'. ck_is_a (lib_checkers la) site obj t st = Inr (r, st') \<and> checks_ready la st'
          \<and> same_program st st' \<and> cnt_begun st' = cnt_begun st)"
    by (auto simp: ends_def lib_checkers_def)
next
  fix st assume "checks_ready la st"
  then show "checks_ready la (count_begun st)"
    by (simp add: checks_ready_def suppressions_readable_def count_begun_def)
qed

interpretation stub_casts: cast_checker stub_checkers "\<lambda>_. True" "\<lambda>_ _. False"
  by unfold_locales (auto simp: stub_defs same_program_def)


subsection \<open>The properties\<close>


text \<open>Three casts: a \<^verbatim>\<open>void*\<close> to \<^verbatim>\<open>int*\<close>, the integer 0 to a pointer, and an \<^verbatim>\<open>int\<close> to \<^verbatim>\<open>unsigned char\<close>.\<close>

definition ex_cpp :: cpp_program where
  "ex_cpp = \<lparr> static_offset = (\<lambda>_ _. Some 0), reinterpretable = (\<lambda>_ _. True), uniqtype_obj = (\<lambda>_. ex_int) \<rparr>"

definition ex_casts :: "cast_expr list" where
  "ex_casts =
     [\<lparr> cast_op = StaticCast, cast_site = 0x401000, cast_to = TPtr (ObjT 0), cast_cat = Rvalue,
        cast_arg = VPtr VoidT 0x1004 \<rparr>,
      \<lparr> cast_op = ReinterpretCast, cast_site = 0x401010, cast_to = TPtr (ObjT 0), cast_cat = Rvalue,
        cast_arg = VInt CInt 0 \<rparr>,
      \<lparr> cast_op = StaticCast, cast_site = 0x401020, cast_to = TInt CUChar, cast_cat = Lvalue,
        cast_arg = VInt CInt 0x1ff \<rparr>]"


text \<open>With the stub library no cast stops.\<close>

lemma stub_casts_compute:
  assumes "\<And>j. uniqtype_obj P j \<noteq> 0" "those (map (template_cast P) es) = Some vs"
  shows "\<exists>st'. run_casts stub_checkers P es st = Some (Inr (vs, st')) \<and> same_program st st'"
  using stub_casts.run_casts_returns[of P es st] assms by auto

text \<open>
  The exceptions.  A static cast of a variable or a temporary that should move the pointer to another
  class leaves it where it is; a static cast of an integer to a pointer, which C++ refuses, is
  accepted; a static cast to \<^verbatim>\<open>const void*\<close> is refused; and casting a variable of class type moves its
  contents out of it.
\<close>

lemma static_downcast_does_not_move:
  assumes "static_offset P t' (ObjT j) = Some off" "off \<noteq> 0" "a \<noteq> 0" "cat \<noteq> ConstLvalue"
  shows "checked_static_cast_t P (TPtr (ObjT j)) cat (VPtr t' a)
    \<noteq> lang_static_cast P (TPtr (ObjT j)) (VPtr t' a)"
  using assms by (simp add: cast_classes)

lemma static_cast_from_integer_accepted:
  assumes "cat \<noteq> ConstLvalue"
  shows "checked_static_cast_t P (TPtr (ObjT j)) cat (VInt k x) = Some (VPtr (ObjT j) (of_int x))"
    and "lang_static_cast P (TPtr (ObjT j)) (VInt k x) = None"
  using assms by (simp_all add: cast_classes)

lemma static_cast_to_const_void_refused:
  assumes "static_offset P t ConstVoidT = Some off"
  shows "checked_static_cast_t P (TPtr ConstVoidT) cat (VPtr t a) = None"
    and "lang_static_cast P (TPtr ConstVoidT) (VPtr t a) \<noteq> None"
  using assms by (simp_all add: cast_classes)

lemma cast_empties_variable:
  "generic_cast (\<lambda>s. s) (\<lambda>s. (s, [])) Lvalue ''abc'' = (''abc'', [])"
  by (simp add: generic_cast_def)

end
