(* ===== verification/Provenance_Program.thy ===== *)
theory Provenance_Program
  imports Shadowprov
begin

text \<open>
  Programs with the provenance instrumentation: the inline operations of
  \<^verbatim>\<open>frontend/c/shadowprov/shadowprov_helpers.h\<close> composed as the front end emits them.  Each value of the
  program carries its shadow byte, and, for the statements only, its origin: the base of the
  allocation that its shadow was made from, or 0.  No step reads an origin to compute.  The steps
  create values, derive new ones, store and load them, pass them to functions and back, and access
  memory; between them the rest of the process may allocate and free as it likes, which changes what
  liballocs answers.  The theorem says that the shadow byte is at all times the hash of the origin,
  whatever way the value has taken, so that the check of an access compares the allocation accessed
  with the one the pointer came from.
\<close>

record pvalue =
  val :: u64
  shadow :: shadow_byte
  origin :: addr

type_synonym penv = "string \<Rightarrow> pvalue option"

text \<open>
  An access is recorded with the origin of the pointer and the base of the allocation at the address
  at that time.  \<open>psource\<close> is the origin of what was last stored as a value at an address.
\<close>

record 'w pprogram =
  plocals :: penv
  pframes :: "(penv \<times> addr) list"
  psource :: "addr \<Rightarrow> addr"
  paccessed :: "(addr \<times> addr \<times> addr) set"
  plib :: "'w prov"

definition initial_pprogram :: "'w prov \<Rightarrow> 'w pprogram" where
  "initial_pprogram st = \<lparr> plocals = (\<lambda>_. None), pframes = [], psource = (\<lambda>_. 0), paccessed = {}, plib = st \<rparr>"

text \<open>The \<open>n\<close> bytes from \<open>a\<close> on are memory of the program, which sane addresses are.\<close>

definition sane_range :: "addr \<Rightarrow> nat \<Rightarrow> bool" where
  "sane_range a n \<longleftrightarrow> (\<forall>i < n. is_sane_nonnull (a + of_nat i))"

text \<open>A call: the caller pushes shadows and cookie, the callee tests the cookie and peeks.\<close>

definition enter_prov ::
  "addr \<Rightarrow> pvalue list \<Rightarrow> 'w prov \<Rightarrow> (pvalue list \<times> 'w prov) outcome" where
  "enter_prov callee args st =
     obind (push_argument_shadows (map shadow args) st) (\<lambda>st.
       omap (\<lambda>st. case tweak_argument_shadow_cookie callee st of (ok, st) \<Rightarrow>
           (map (\<lambda>i. (args ! i)\<lparr> shadow := peek_argument_shadow ok (of_nat i) (val (args ! i)) st \<rparr>)
              [0..<length args], st))
         (push_argument_shadow_cookie callee st))"

text \<open>A return: the callee pushes the shadow of the result, the caller peeks and cleans up.\<close>

definition leave_prov :: "addr \<Rightarrow> pvalue \<Rightarrow> 'w prov \<Rightarrow> (pvalue \<times> 'w prov) outcome" where
  "leave_prov saved r st =
     omap (\<lambda>st. (r\<lparr> shadow := peek_result_shadow True 0 (val r) st \<rparr>, cleanup_shadow_stack saved st))
       (push_local_result_shadow True (shadow r) st)"

text \<open>
  The steps.  \<open>made\<close> is a value with a manifest shadow, such as the result of an allocation; \<open>fetched\<close>
  asks liballocs; \<open>unknown\<close> has the null shadow; \<open>callback\<close> is a function that code without
  instrumentation calls.  An access goes ahead when the check has returned.
\<close>

inductive prov_step :: "('w \<Rightarrow> addr \<Rightarrow> addr) \<Rightarrow> 'w pprogram \<Rightarrow> 'w pprogram \<Rightarrow> bool" for ab where
  made: "make_shadow ab b 0 (plib s) = Inr sh \<Longrightarrow>
     prov_step ab s (s\<lparr> plocals := (plocals s)(x \<mapsto> \<lparr> val = v, shadow = sh, origin = b \<rparr>) \<rparr>)"
| fetched: "fetch_shadow_inl ab v 0 t (plib s) = Inr (sh, st') \<Longrightarrow>
     prov_step ab s (s\<lparr> plocals := (plocals s)(x \<mapsto>
        \<lparr> val = v, shadow = sh, origin = ab (prov_world (plib s)) v \<rparr>), plib := st' \<rparr>)"
| unknown: "prov_step ab s (s\<lparr> plocals := (plocals s)(x \<mapsto>
        \<lparr> val = v, shadow = make_invalid_shadow v, origin = 0 \<rparr>) \<rparr>)"
| derived: "plocals s y = Some u \<Longrightarrow> prov_step ab s (s\<lparr> plocals := (plocals s)(x \<mapsto> u\<lparr> val := v \<rparr>) \<rparr>)"
| stored: "plocals s z = Some d \<Longrightarrow> check_deref_prov ab (val d) (shadow d) (plib s) = Inr True \<Longrightarrow>
     sane_range (val d) 8 \<Longrightarrow> plocals s y = Some u \<Longrightarrow>
     st' = store_shadow_nonlocal (val d) (val u) (shadow u) arg
             ((plib s)\<lparr> prov_memory := store64 (prov_memory (plib s)) (val d) (val u) \<rparr>) \<Longrightarrow>
     prov_step ab s (s\<lparr> paccessed := insert (val d, origin d, ab (prov_world (plib s)) (val d)) (paccessed s),
        psource := (psource s)(val d := origin u), plib := st' \<rparr>)"
| loaded: "plocals s z = Some d \<Longrightarrow> check_deref_prov ab (val d) (shadow d) (plib s) = Inr True \<Longrightarrow>
     sane_range (val d) 8 \<Longrightarrow> v = load64 (prov_memory (plib s)) (val d) \<Longrightarrow>
     fetch_shadow_inl ab v (val d) t (plib s) = Inr (sh, st') \<Longrightarrow>
     prov_step ab s (s\<lparr> paccessed := insert (val d, origin d, ab (prov_world (plib s)) (val d)) (paccessed s),
        plocals := (plocals s)(x \<mapsto> \<lparr> val = v, shadow = sh, origin = psource s (val d) \<rparr>), plib := st' \<rparr>)"
| written: "plocals s z = Some d \<Longrightarrow> check_deref_prov ab (val d) (shadow d) (plib s) = Inr True \<Longrightarrow>
     sane_range (val d) 1 \<Longrightarrow>
     prov_step ab s (s\<lparr> paccessed := insert (val d, origin d, ab (prov_world (plib s)) (val d)) (paccessed s),
        plib := (plib s)\<lparr> prov_memory := (prov_memory (plib s))(val d := byte) \<rparr> \<rparr>)"
| called: "list_all2 (\<lambda>y u. plocals s y = Some u) ys args \<Longrightarrow> length xs = length args \<Longrightarrow>
     length args \<le> 2 ^ 32 \<Longrightarrow> unat callee < 2 ^ 47 \<Longrightarrow>
     sane_range (shadow_sp (plib s) - of_nat (8 * length args + 8)) (8 * length args + 8) \<Longrightarrow>
     enter_prov callee args (plib s) = Inr (params, st') \<Longrightarrow>
     prov_step ab s (s\<lparr> plocals := map_of (zip xs params),
        pframes := (plocals s, shadow_sp (plib s)) # pframes s, plib := st' \<rparr>)"
| callback: "tweak_argument_shadow_cookie callee (plib s) = (False, st') \<Longrightarrow>
     prov_step ab s (s\<lparr> plocals := map_of (map (\<lambda>(x, v). (x, \<lparr> val = v,
          shadow = peek_argument_shadow False 0 v st', origin = 0 \<rparr>)) args),
        pframes := (plocals s, shadow_sp (plib s)) # pframes s, plib := st' \<rparr>)"
| returned: "pframes s = (saved, sp) # fs \<Longrightarrow> plocals s y = Some r \<Longrightarrow>
     sane_range (shadow_sp (plib s) - 8) 8 \<Longrightarrow>
     leave_prov sp r (plib s) = Inr (r', st') \<Longrightarrow>
     prov_step ab s (s\<lparr> plocals := saved(x \<mapsto> r'), pframes := fs, plib := st' \<rparr>)"
| elsewhere: "prov_step ab s (s\<lparr> plib := (plib s)\<lparr> prov_world := w \<rparr> \<rparr>)"

definition prov_reachable :: "('w \<Rightarrow> addr \<Rightarrow> addr) \<Rightarrow> 'w prov \<Rightarrow> 'w pprogram \<Rightarrow> bool" where
  "prov_reachable ab st s \<longleftrightarrow> (prov_step ab)\<^sup>*\<^sup>* (initial_pprogram st) s"


subsection \<open>The invariant\<close>

definition hashed :: "pvalue \<Rightarrow> bool" where
  "hashed u \<longleftrightarrow> shadow u = shadow_from_word (origin u)"

definition penv_ok :: "penv \<Rightarrow> bool" where
  "penv_ok e \<longleftrightarrow> (\<forall>u \<in> ran e. hashed u)"

text \<open>The shadow byte of every program address is the hash of what was last stored there.\<close>

definition shadows_ok :: "mem \<Rightarrow> (addr \<Rightarrow> addr) \<Rightarrow> bool" where
  "shadows_ok m src \<longleftrightarrow> (\<forall>d. is_sane_nonnull d \<longrightarrow> get_shadow m d = shadow_from_word (src d))"

definition access_ok :: "addr \<times> addr \<times> addr \<Rightarrow> bool" where
  "access_ok a \<longleftrightarrow> (case a of (p, og, b) \<Rightarrow> p \<noteq> 0 \<and> og \<noteq> 0 \<and> b \<noteq> 0 \<and> prov_hash b = prov_hash og)"

definition pprogram_ok :: "'w pprogram \<Rightarrow> bool" where
  "pprogram_ok s \<longleftrightarrow> penv_ok (plocals s) \<and> (\<forall>f \<in> set (pframes s). penv_ok (fst f) \<and> snd f mod 8 = 0)
     \<and> aligned_sp (plib s) \<and> shadows_ok (prov_memory (plib s)) (psource s)
     \<and> (\<forall>a \<in> paccessed s. access_ok a)"

lemma penv_ok_upd: "penv_ok e \<Longrightarrow> hashed u \<Longrightarrow> penv_ok (e(x \<mapsto> u))"
  by (auto simp: penv_ok_def ran_def)

lemma penv_okD: "penv_ok e \<Longrightarrow> e x = Some u \<Longrightarrow> hashed u"
  unfolding penv_ok_def ran_def by blast

lemma penv_ok_map_of: "\<forall>u \<in> snd ` set kvs. hashed u \<Longrightarrow> penv_ok (map_of kvs)"
  unfolding penv_ok_def ran_def by (force dest: map_of_SomeD)

lemma check_deref_exact_origin:
  assumes "hashed u"
  shows "check_deref_prov ab p (shadow u) st =
    (if p \<noteq> 0 \<and> origin u \<noteq> 0 \<and> ab (prov_world st) p \<noteq> 0
        \<and> prov_hash (ab (prov_world st) p) = prov_hash (origin u)
     then Inr True else Inl Aborted)"
proof (cases "origin u = 0")
  case True
  then show ?thesis using assms by (simp add: hashed_def check_deref_prov_def)
next
  case False
  then show ?thesis
    using assms shadow_from_word_proper[OF False] shadow_from_word_eq_iff[OF _ False, of "ab (prov_world st) p"]
    by (cases "ab (prov_world st) p = 0") (auto simp: hashed_def check_deref_prov_def)
qed

lemma checked_access_ok:
  "hashed u \<Longrightarrow> check_deref_prov ab (val u) (shadow u) st = Inr True \<Longrightarrow>
     access_ok (val u, origin u, ab (prov_world st) (val u))"
  by (simp add: check_deref_exact_origin access_ok_def split: if_split_asm)


subsection \<open>Program data and shadow bytes do not meet\<close>

lemma sane_store_shadows:
  assumes "\<And>x. \<not> is_sane_nonnull x \<Longrightarrow> m' x = m x" "shadows_ok m src"
  shows "shadows_ok m' src"
  using assms sane_shadow_apart by (auto simp: shadows_ok_def get_shadow_def)

lemma sane_range_mem:
  assumes "sane_range a n" "unat (x - a) < n"
  shows "is_sane_nonnull x"
proof -
  have "x = a + of_nat (unat (x - a))" by simp
  then show ?thesis using assms unfolding sane_range_def by metis
qed

lemma sane_range_store64:
  assumes "sane_range a 8" "\<not> is_sane_nonnull x"
  shows "store64 m a v x = m x"
proof (rule store64_elsewhere)
  show "8 \<le> unat (x - a)" using sane_range_mem[OF assms(1), of x] assms(2) by linarith
qed

lemma sane_range_sub:
  assumes "sane_range a n" "i + k \<le> n"
  shows "sane_range (a + of_nat i) k"
  using assms unfolding sane_range_def
  by (metis (no_types, opaque_lifting) add.assoc add_less_cancel_left less_le_trans of_nat_add)

lemma args_pushed_memory:
  assumes "sane_range (shadow_sp st - of_nat (8 * length ss)) (8 * length ss)"
  shows "shadow_sp (args_pushed ss st) = shadow_sp st - of_nat (8 * length ss)
    \<and> (\<forall>x. \<not> is_sane_nonnull x \<longrightarrow> prov_memory (args_pushed ss st) x = prov_memory st x)"
  using assms
proof (induction ss)
  case (Cons s ss)
  let ?a = "shadow_sp st - of_nat (8 * length (s # ss))"
  have top: "sane_range (shadow_sp st - of_nat (8 * length ss)) (8 * length ss)" "sane_range ?a 8"
    using sane_range_sub[OF Cons.prems, of 8 "8 * length ss"] sane_range_sub[OF Cons.prems, of 0 8]
    by (simp_all add: algebra_simps)
  note ih = Cons.IH[OF top(1)]
  have "args_pushed (s # ss) st = push_word (scast s) (args_pushed ss st)" by (simp add: args_pushed_def)
  moreover have "?a = shadow_sp (args_pushed ss st) - 8" using ih by (simp add: algebra_simps)
  moreover from this top(2) have "sane_range (shadow_sp (args_pushed ss st) - 8) 8" by (simp only:)
  ultimately show ?case
    using ih sane_range_store64 by (simp add: push_word_def)
qed (simp add: args_pushed_def)

lemma entered_memory:
  assumes "sane_range (shadow_sp st - of_nat (8 * length ss + 8)) (8 * length ss + 8)" "\<not> is_sane_nonnull x"
  shows "prov_memory (entered callee (args_pushed ss st)) x = prov_memory st x"
proof -
  have r: "sane_range (shadow_sp st - of_nat (8 * length ss)) (8 * length ss)"
      "sane_range (shadow_sp st - of_nat (8 * length ss) - 8) 8"
    using sane_range_sub[OF assms(1), of 8 "8 * length ss"] sane_range_sub[OF assms(1), of 0 8]
    by (simp_all add: algebra_simps)
  note p = args_pushed_memory[OF r(1)]
  have "sane_range (shadow_sp (args_pushed ss st) - 8) 8" using r(2) p by simp
  then show ?thesis using p assms(2) by (simp add: entered_def sane_range_store64)
qed

lemma aligned_entered: "aligned_sp st \<Longrightarrow> aligned_sp (entered callee (args_pushed ss st))"
  using aligned_pushes[of ss st]
  by (simp add: aligned_sp_def entered_def mod_8_minus_8 args_pushed_def)


subsection \<open>Calls and returns keep the shadows of values\<close>

lemma enter_prov_spec:
  assumes "aligned_sp st" "length args \<le> 2 ^ 32"
  shows "enter_prov callee args st = Inr (args, entered callee (args_pushed (map shadow args) st))"
proof -
  let ?st = "entered callee (args_pushed (map shadow args) st)"
  have "(args ! i)\<lparr> shadow := peek_argument_shadow True (of_nat i) (val (args ! i)) ?st \<rparr> = args ! i"
    if "i < length args" for i
  proof -
    have "peek_argument_shadow True (of_nat i) (val (args ! i)) ?st = shadow (args ! i)"
      using entered_peek[of i "map shadow args"] that assms(2) by simp
    then show ?thesis by (cases "args ! i") (simp del: One_nat_def)
  qed
  then have "map (\<lambda>i. (args ! i)\<lparr> shadow := peek_argument_shadow True (of_nat i) (val (args ! i)) ?st \<rparr>)
      [0..<length args] = args"
    by (intro nth_equalityI) simp_all
  moreover obtain st1 where "push_argument_shadows (map shadow args) st = Inr st1"
      "push_argument_shadow_cookie callee st1 = Inr (push_word callee (args_pushed (map shadow args) st))"
    using pushed_arguments[OF assms(1), of "map shadow args" callee] by auto
  ultimately show ?thesis by (simp add: enter_prov_def callee_enters)
qed

lemma leave_prov_spec:
  assumes "aligned_sp st"
  shows "leave_prov saved r st = Inr (r, (push_word (scast (shadow r)) st)\<lparr> shadow_sp := saved \<rparr>)"
proof -
  have "peek_result_shadow True 0 v (push_word (scast (shadow r)) st) = shadow r" for v
    by (simp add: peek_result_shadow_def push_word_def store64_first_byte ucast_scast_byte)
  then show ?thesis
    using assms by (simp add: leave_prov_def push_local_result_shadow_def push_word_in_aligned
        cleanup_shadow_stack_def)
qed


subsection \<open>Every step keeps the invariant\<close>

lemma pprogram_okD:
  assumes "pprogram_ok s"
  shows "penv_ok (plocals s)" "\<forall>f \<in> set (pframes s). penv_ok (fst f) \<and> snd f mod 8 = 0"
    "aligned_sp (plib s)" "shadows_ok (prov_memory (plib s)) (psource s)" "\<forall>a \<in> paccessed s. access_ok a"
  using assms by (simp_all add: pprogram_ok_def)

lemma make_shadow_hashed: "make_shadow ab b 0 st = Inr sh \<Longrightarrow> sh = shadow_from_word b"
  using make_shadow_made by (cases "b = 0") (auto simp: make_shadow_def NULL_SHADOW_def)

lemma fetch_shadow_fresh:
  "fetch_shadow_inl ab v 0 t st = Inr (sh, st') \<Longrightarrow> sh = shadow_from_word (ab (prov_world st) v) \<and> st' = st"
  using make_shadow_hashed by (auto simp: fetch_shadow_inl_def)

lemma fetch_shadow_stored:
  assumes "fetch_shadow_inl ab v d t st = Inr (sh, st')" "d \<noteq> 0"
  shows "sh = get_shadow (prov_memory st) d" "prov_memory st' = prov_memory st" "shadow_sp st' = shadow_sp st"
  using assms by (auto simp: fetch_shadow_inl_def get_shadow_def prov_warnx_def Let_def split: if_split_asm)

lemma list_all2_hashed:
  "penv_ok e \<Longrightarrow> list_all2 (\<lambda>y u. e y = Some u) ys args \<Longrightarrow> \<forall>u \<in> set args. hashed u"
  by (fastforce simp: list_all2_conv_all_nth in_set_conv_nth dest: penv_okD)

lemma shadows_ok_store:
  assumes "shadows_ok m src" "sane_range d 8"
  shows "shadows_ok (put_shadow (store64 m d v) d (shadow_from_word b)) (src(d := b))"
proof -
  have "shadows_ok (store64 m d v) src"
    using sane_store_shadows[OF _ assms(1)] sane_range_store64[OF assms(2)] by blast
  then show ?thesis by (auto simp: shadows_ok_def get_shadow_def put_shadow_def)
qed

text \<open>One lemma for each kind of step: a new local value, an access, a store, a call, a return.\<close>

lemma ok_local:
  assumes "pprogram_ok s" "hashed u" "prov_memory st' = prov_memory (plib s)" "shadow_sp st' = shadow_sp (plib s)"
  shows "pprogram_ok (s\<lparr> plocals := (plocals s)(x \<mapsto> u), plib := st' \<rparr>)"
  using assms by (simp add: pprogram_ok_def penv_ok_upd aligned_sp_def)

lemma ok_access:
  assumes "pprogram_ok s" "plocals s z = Some d"
    "check_deref_prov ab (val d) (shadow d) (plib s) = Inr True"
  shows "pprogram_ok (s\<lparr> paccessed := insert (val d, origin d, ab (prov_world (plib s)) (val d)) (paccessed s) \<rparr>)"
  using assms checked_access_ok[OF penv_okD[OF pprogram_okD(1)[OF assms(1)] assms(2)] assms(3)]
  by (simp add: pprogram_ok_def)

lemma ok_store:
  assumes "pprogram_ok s" "hashed u" "sane_range d 8"
    "prov_memory st' = put_shadow (store64 (prov_memory (plib s)) d v) d (shadow u)"
    "shadow_sp st' = shadow_sp (plib s)"
  shows "pprogram_ok (s\<lparr> psource := (psource s)(d := origin u), plib := st' \<rparr>)"
  using assms shadows_ok_store[OF pprogram_okD(4)[OF assms(1)] assms(3)]
  by (simp add: pprogram_ok_def aligned_sp_def hashed_def)

lemma ok_memory:
  assumes "pprogram_ok s" "\<And>x. \<not> is_sane_nonnull x \<Longrightarrow> prov_memory st' x = prov_memory (plib s) x"
    "aligned_sp st'"
  shows "pprogram_ok (s\<lparr> plib := st' \<rparr>)"
  using assms(1,3) sane_store_shadows[OF assms(2) pprogram_okD(4)[OF assms(1)]] by (simp add: pprogram_ok_def)

lemma ok_enter:
  assumes "pprogram_ok s" "penv_ok e"
  shows "pprogram_ok (s\<lparr> plocals := e, pframes := (plocals s, shadow_sp (plib s)) # pframes s \<rparr>)"
  using assms by (simp add: pprogram_ok_def aligned_sp_def)

lemma ok_call:
  assumes "pprogram_ok s" "list_all2 (\<lambda>y u. plocals s y = Some u) ys args" "length args \<le> 2 ^ 32"
    "sane_range (shadow_sp (plib s) - of_nat (8 * length args + 8)) (8 * length args + 8)"
    "enter_prov callee args (plib s) = Inr (params, st')"
  shows "pprogram_ok (s\<lparr> plocals := map_of (zip xs params),
    pframes := (plocals s, shadow_sp (plib s)) # pframes s, plib := st' \<rparr>)"
proof -
  note a = pprogram_okD(3)[OF assms(1)]
  have e: "params = args" "st' = entered callee (args_pushed (map shadow args) (plib s))"
    using assms(5) enter_prov_spec[OF a assms(3), of callee] by auto
  have "penv_ok (map_of (zip xs args))"
    using list_all2_hashed[OF pprogram_okD(1)[OF assms(1)] assms(2)]
    by (intro penv_ok_map_of) (auto dest: set_zip_rightD)
  note ok_memory[OF ok_enter[OF assms(1) this], of st']
  then show ?thesis
    using entered_memory[of "plib s" "map shadow args"] assms(4) e aligned_entered[OF a] by simp
qed

lemma ok_return:
  assumes "pprogram_ok s" "pframes s = (saved, sp) # fs" "plocals s y = Some r"
    "sane_range (shadow_sp (plib s) - 8) 8" "leave_prov sp r (plib s) = Inr (r', st')"
  shows "pprogram_ok (s\<lparr> plocals := saved(x \<mapsto> r'), pframes := fs, plib := st' \<rparr>)"
proof -
  have l: "r' = r" "st' = (push_word (scast (shadow r)) (plib s))\<lparr> shadow_sp := sp \<rparr>"
    using assms(5) leave_prov_spec[OF pprogram_okD(3)[OF assms(1)], of sp r] by auto
  have "pprogram_ok (s\<lparr> plocals := saved(x \<mapsto> r), pframes := fs \<rparr>)" "sp mod 8 = 0"
    using assms(1,2) penv_okD[OF pprogram_okD(1)[OF assms(1)] assms(3)]
    by (auto simp: pprogram_ok_def penv_ok_upd)
  from ok_memory[OF this(1), of st'] this(2) show ?thesis
    using l sane_range_store64[OF assms(4)] by (simp add: push_word_def aligned_sp_def)
qed

lemma step_keeps_invariant:
  assumes "prov_step ab s s'" "pprogram_ok s"
  shows "pprogram_ok s'"
  using assms(1)
proof cases
  case (made b sh x v)
  then show ?thesis
    using ok_local[OF assms(2) _ refl refl, of _ x] make_shadow_hashed[OF made(2)] by (simp add: hashed_def)
next
  case (fetched v t sh st' x)
  then show ?thesis
    using ok_local[OF assms(2), of _ st' x] fetch_shadow_fresh[OF fetched(2)] by (simp add: hashed_def)
next
  case (unknown x v)
  then show ?thesis
    using ok_local[OF assms(2) _ refl refl, of _ x] by (simp add: hashed_def make_invalid_shadow_def)
next
  case (derived y u x v)
  then show ?thesis
    using ok_local[OF assms(2) _ refl refl, of _ x] penv_okD[OF pprogram_okD(1)[OF assms(2)] derived(2)]
    by (simp add: hashed_def)
next
  case (stored z d y u st' arg)
  then show ?thesis
    using ok_store[OF ok_access[OF assms(2) stored(2,3)], of u "val d" st' "val u"]
      penv_okD[OF pprogram_okD(1)[OF assms(2)] stored(5)] by simp
next
  case (loaded z d v t sh st' x)
  have d: "is_sane_nonnull (val d)" using loaded(4) by (auto simp: sane_range_def dest: spec[of _ 0])
  then have "val d \<noteq> 0" by (auto simp: is_sane_nonnull_def)
  note f = fetch_shadow_stored[OF loaded(6) this]
  have "sh = shadow_from_word (psource s (val d))"
    using f(1) d pprogram_okD(4)[OF assms(2)] by (simp add: shadows_ok_def)
  then show ?thesis
    using loaded(1) ok_local[OF ok_access[OF assms(2) loaded(2,3)], of _ st' x] f by (simp add: hashed_def)
next
  case (written z d byte)
  show ?thesis
    unfolding written(1)
    by (rule ok_memory[OF ok_access[OF assms(2) written(2,3)]])
      (use written(4) pprogram_okD(3)[OF assms(2)] in \<open>auto simp: sane_range_def aligned_sp_def\<close>)
next
  case (callback callee st' args)
  then have "st' = plib s" by (auto simp: tweak_argument_shadow_cookie_def Let_def split: if_split_asm)
  then show ?thesis
    using callback(1) ok_enter[OF assms(2) penv_ok_map_of]
    by (force simp: hashed_def peek_argument_shadow_def make_invalid_shadow_def)
next
  case (called ys args xs callee params st')
  show ?thesis unfolding called(1) by (rule ok_call[OF assms(2) called(2,4,6,7)])
next
  case (returned saved sp fs y r r' st' x)
  show ?thesis unfolding returned(1) by (rule ok_return[OF assms(2) returned(2-5)])
next
  case (elsewhere w)
  then show ?thesis using assms(2) by (simp add: pprogram_ok_def aligned_sp_def)
qed

lemma reachable_pprogram_ok:
  assumes "prov_reachable ab st s" "pprogram_ok (initial_pprogram st)"
  shows "pprogram_ok s"
  using assms(1) unfolding prov_reachable_def
  by (induction rule: rtranclp_induct) (use assms(2) step_keeps_invariant in blast)+

lemma initial_pprogram_ok:
  assumes "aligned_sp st" "\<forall>d. is_sane_nonnull d \<longrightarrow> prov_memory st (shadow_stored_addr d) = 0"
  shows "pprogram_ok (initial_pprogram st)"
  using assms by (simp add: pprogram_ok_def initial_pprogram_def penv_ok_def shadows_ok_def get_shadow_def)

text \<open>
  (C6) Provenance is tracked through whole programs.  Start with an aligned shadow stack and no shadows,
  and let an instrumented program make, derive, store, load and pass values in any order, while the
  rest of the process allocates and frees.  Every access so far went to an address whose allocation,
  at that time, had a base with the same hash as the allocation the pointer came from.  And for every
  value that the program holds the check of an access is exact: it succeeds if the value is not
  null, came from an allocation, and lies in one with the same hash; otherwise it aborts.  So there
  is no false alarm inside the allocation that a pointer came from.
\<close>

theorem provenance_is_tracked:
  assumes "aligned_sp st" "\<forall>d. is_sane_nonnull d \<longrightarrow> prov_memory st (shadow_stored_addr d) = 0"
    and "prov_reachable ab st s"
  shows "(\<forall>(p, og, b) \<in> paccessed s. p \<noteq> 0 \<and> og \<noteq> 0 \<and> b \<noteq> 0 \<and> prov_hash b = prov_hash og)
    \<and> (\<forall>x u. plocals s x = Some u \<longrightarrow> check_deref_prov ab (val u) (shadow u) (plib s) =
         (if val u \<noteq> 0 \<and> origin u \<noteq> 0 \<and> ab (prov_world (plib s)) (val u) \<noteq> 0
             \<and> prov_hash (ab (prov_world (plib s)) (val u)) = prov_hash (origin u)
          then Inr True else Inl Aborted))"
proof -
  have ok: "pprogram_ok s" by (rule reachable_pprogram_ok[OF assms(3) initial_pprogram_ok[OF assms(1,2)]])
  show ?thesis
  proof (intro conjI allI impI)
    show "\<forall>(p, og, b) \<in> paccessed s. p \<noteq> 0 \<and> og \<noteq> 0 \<and> b \<noteq> 0 \<and> prov_hash b = prov_hash og"
      using pprogram_okD(5)[OF ok] by (simp add: access_ok_def)
  qed (rule check_deref_exact_origin[OF penv_okD[OF pprogram_okD(1)[OF ok]]])
qed

text \<open>A pointer into the first allocation of the example, and a byte written through it.\<close>

lemma ex_provenance_run:
  "\<exists>s. prov_reachable ex_alloc_base ex_prov s \<and> paccessed s = {(0x602010, 0x602000, 0x602000)}"
proof -
  let ?u = "\<lparr> val = 0x602010, shadow = shadow_from_word 0x602000, origin = 0x602000 \<rparr>"
  let ?s0 = "initial_pprogram ex_prov"
  let ?s1 = "?s0\<lparr> plocals := (plocals ?s0)(''p'' \<mapsto> ?u) \<rparr>"
  have "make_shadow ex_alloc_base 0x602000 0 (plib ?s0) = Inr (shadow_from_word 0x602000)"
    by (rule make_shadow_of_base) (simp add: ex_alloc_base_def)
  then have 1: "prov_step ex_alloc_base ?s0 ?s1" by (rule prov_step.made)
  have "hashed ?u" by (simp add: hashed_def)
  from check_deref_exact_origin[OF this, of ex_alloc_base "0x602010" "plib ?s1"]
  have c: "check_deref_prov ex_alloc_base (val ?u) (shadow ?u) (plib ?s1) = Inr True"
    by (simp add: ex_alloc_base_def)
  have r: "sane_range (val ?u) 1" by (simp add: sane_range_def is_sane_nonnull_def)
  have p: "plocals ?s1 ''p'' = Some ?u" by simp
  note 2 = prov_step.written[OF p c r, of 7]
  have "prov_reachable ex_alloc_base ex_prov (?s1\<lparr> paccessed := insert (val ?u, origin ?u,
      ex_alloc_base (prov_world (plib ?s1)) (val ?u)) (paccessed ?s1),
      plib := (plib ?s1)\<lparr> prov_memory := (prov_memory (plib ?s1))(val ?u := 7) \<rparr> \<rparr>)"
    unfolding prov_reachable_def
    by (rule rtranclp.rtrancl_into_rtrancl[where r = "prov_step ex_alloc_base"], rule r_into_rtranclp, rule 1, rule 2)
  then show ?thesis by (intro exI conjI) (assumption, simp add: ex_alloc_base_def initial_pprogram_def)
qed

theorem provenance_is_tracked_witness:
  "\<exists>s. prov_reachable ex_alloc_base ex_prov s \<and> paccessed s = {(0x602010, 0x602000, 0x602000)}
     \<and> (\<forall>(p, og, b) \<in> paccessed s. p \<noteq> 0 \<and> og \<noteq> 0 \<and> b \<noteq> 0 \<and> prov_hash b = prov_hash og)"
proof -
  obtain s where s: "prov_reachable ex_alloc_base ex_prov s" "paccessed s = {(0x602010, 0x602000, 0x602000)}"
    using ex_provenance_run by blast
  moreover have "aligned_sp ex_prov" "\<forall>d. is_sane_nonnull d \<longrightarrow> prov_memory ex_prov (shadow_stored_addr d) = 0"
    by (simp_all add: aligned_sp_def ex_prov_def)
  ultimately show ?thesis using provenance_is_tracked[OF _ _ s(1)] by blast
qed

end
