(* ===== verification/Fault_Messages.thy ===== *)
theory Fault_Messages
  imports Fault_Handler "HOL-Library.Signed_Division"
begin

text \<open>
  What the fault handler writes to the standard error stream.  In a signal handler it cannot use the
  C library's formatted output, so \<^verbatim>\<open>src/libcrunch.c\<close> prints numbers digit by digit with macros of its
  own.  The output is a string that each function of the handler appends to; the functions
  of \<open>Fault_Handler\<close> give the states in between.
\<close>


subsection \<open>The macros\<close>

abbreviation newline :: string where "newline \<equiv> [CHR 0x0A]"

definition HEXCHAR :: "nat \<Rightarrow> char" where
  "HEXCHAR n = (if n > 9 then char_of (97 + (n - 10)) else char_of (48 + n))"

definition DECCHAR :: "int \<Rightarrow> char" where
  "DECCHAR n = char_of (48 + n)"

definition MSGADDR :: "u64 \<Rightarrow> string" where
  "MSGADDR a = map (\<lambda>k. HEXCHAR (unat (drop_bit k a mod 16)))
     [60, 56, 52, 48, 44, 40, 36, 32, 28, 24, 20, 16, 12, 8, 4, 0]"

text \<open>Division and remainder truncate towards zero.\<close>

definition MSGSHORT :: "int \<Rightarrow> string" where
  "MSGSHORT a = map (\<lambda>d. DECCHAR ((a sdiv d) smod 10)) [10000, 1000, 100, 10, 1]"


subsection \<open>The messages\<close>

definition trap_kind :: "u64 \<Rightarrow> string option" where
  "trap_kind v =
     (let tag = drop_bit TRAP_TAG_SHIFT v
      in if tag = 1 then Some ''one-past''
         else if tag = 2 then Some ''one-before''
         else if tag = 3 then Some ''type-invalid''
         else None)"

definition fixup_output :: "int \<Rightarrow> gregs \<times> 'w crunch \<Rightarrow> string" where
  "fixup_output regnum s =
     (case saved_register regnum of None \<Rightarrow> ''register mapping error''
      | Some r \<Rightarrow>
          ''register '' @ MSGSHORT regnum @ '' contents 0x'' @ MSGADDR (fst s r) @ '' are ''
          @ (case trap_kind (fst s r) of None \<Rightarrow> ''not a trap pointer'' @ newline
             | Some kindstr \<Rightarrow> ''possibly a '' @ kindstr
                 @ '' trap pointer, so detrapping them; new value is ''
                 @ MSGADDR (fst (try_register_fixup regnum s) r) @ newline))"

text \<open>The register number is cast to \<^verbatim>\<open>short\<close>.\<close>

definition register_name :: "int \<Rightarrow> string" where
  "register_name reg =
     (if reg = -1 then ''unknown register'' else ''register '' @ MSGSHORT (signed_take_bit 15 reg))"

definition fixup_from_output :: "int option \<Rightarrow> gregs \<times> 'w crunch \<Rightarrow> string" where
  "fixup_from_output p_fromreg s =
     (case p_fromreg of None \<Rightarrow> [] | Some r \<Rightarrow> if r \<noteq> -1 then fixup_output r s else [])"

definition saw_operand_output :: "operand \<Rightarrow> gregs \<times> 'w crunch \<Rightarrow> string" where
  "saw_operand_output op s =
     (if op_type op \<noteq> 1 then []
      else ''*** memory operand was computed from ''
        @ (if op_fromreg1 op = None \<and> op_fromreg2 op = None then ''unknown values'' @ newline
           else (case op_fromreg1 op of None \<Rightarrow> []
                 | Some r \<Rightarrow> register_name r @ (if op_fromreg2 op \<noteq> None then '' and '' else []))
             @ (case op_fromreg2 op of None \<Rightarrow> [] | Some r \<Rightarrow> register_name r @ newline)
             @ fixup_from_output (op_fromreg1 op) s
             @ fixup_from_output (op_fromreg2 op) (fixup_from (op_fromreg1 op) s)))"

fun operands_output :: "operand list \<Rightarrow> gregs \<times> 'w crunch \<Rightarrow> string" where
  "operands_output [] s = []"
| "operands_output (op # ops) s = saw_operand_output op s @ operands_output ops (saw_operand_cb op s)"

definition sigsegv_output :: "(addr \<Rightarrow> operand list) \<Rightarrow> gregs \<Rightarrow> 'w crunch \<Rightarrow> string" where
  "sigsegv_output operands_at regs st =
     ''*** libcrunch caught segmentation fault'' @ newline
     @ operands_output (operands_at (regs RIP)) (regs, st\<lparr> did_fixup := False \<rparr>)
     @ (case handle_sigsegv operands_at regs st of Inr _ \<Rightarrow> []
        | Inl _ \<Rightarrow> ''*** libcrunch did not recover from segmentation fault, so terminating program'' @ newline)"

definition sigbus_output :: string where
  "sigbus_output = ''*** libcrunch caught SIGBUS; sleeping for 10 seconds''"


subsection \<open>Reading numbers back\<close>

definition hexval :: "char \<Rightarrow> nat" where
  "hexval ch = (let c = of_char ch :: nat in if 97 \<le> c then c - 87 else c - 48)"

definition read_num :: "nat \<Rightarrow> string \<Rightarrow> nat" where
  "read_num base s = foldl (\<lambda>v ch. base * v + hexval ch) 0 s"

lemma hexval_HEXCHAR [simp]: "n < 16 \<Longrightarrow> hexval (HEXCHAR n) = n"
  by (auto simp: HEXCHAR_def hexval_def Let_def)

lemma hexval_DECCHAR [simp]: "n < 10 \<Longrightarrow> hexval (DECCHAR (int n)) = n"
proof -
  assume n: "n < 10"
  have "int (of_char (char_of (48 + int n)) :: nat) = 48 + int n"
    using n by (simp add: of_nat_of_char take_bit_eq_mod)
  then have "(of_char (char_of (48 + int n)) :: nat) = 48 + n" by linarith
  then show ?thesis using n by (simp add: DECCHAR_def hexval_def)
qed

text \<open>Digits from the most significant one down rebuild the number.\<close>

lemma digits_rebuild:
  assumes "1 < (base :: nat)" "\<And>k. k < n \<Longrightarrow> hexval (ch k) = N div base ^ k mod base"
  shows "foldl (\<lambda>v c. base * v + hexval c) acc (map ch (rev [0..<n])) = acc * base ^ n + N mod base ^ n"
  using assms(2)
proof (induction n arbitrary: acc)
  case (Suc n)
  have "foldl (\<lambda>v c. base * v + hexval c) acc (map ch (rev [0..<Suc n])) =
      (base * acc + N div base ^ n mod base) * base ^ n + N mod base ^ n"
    using Suc.IH[of "base * acc + hexval (ch n)"] Suc.prems by simp
  also have "\<dots> = acc * base ^ Suc n + (base ^ n * (N div base ^ n mod base) + N mod base ^ n)"
    by (simp add: algebra_simps)
  also have "base ^ n * (N div base ^ n mod base) + N mod base ^ n = N mod base ^ Suc n"
    using mod_mult2_eq[of N "base ^ n" base] by (simp add: mult.commute)
  finally show ?case .
qed simp

lemma read_MSGADDR: "read_num 16 (MSGADDR a) = unat a"
proof -
  have ks: "[60, 56, 52, 48, 44, 40, 36, 32, 28, 24, 20, 16, 12, 8, 4, 0] = map (\<lambda>k. 4 * k) (rev [0..<16 :: nat])"
    by (simp add: upt_rec)
  have "unat (drop_bit (4 * k) a mod 16) = unat a div 16 ^ k mod 16" for k
    by (simp add: unat_mod unat_drop_bit_u64 power_mult)
  then have "read_num 16 (MSGADDR a) = unat a mod 16 ^ 16"
    unfolding read_num_def MSGADDR_def ks map_map comp_def
    by (subst digits_rebuild[where N = "unat a"]) simp_all
  moreover have "unat a < 16 ^ 16" using unat_u64_bound[of a] by simp
  ultimately show ?thesis by simp
qed

lemma read_MSGSHORT:
  assumes "n < 10 ^ 5"
  shows "read_num 10 (MSGSHORT (int n)) = n"
proof -
  have ds: "[10000, 1000, 100, 10, 1 :: int] = map (\<lambda>k. 10 ^ k) (rev [0..<5 :: nat])" by (simp add: upt_rec)
  have sd: "int i sdiv int d = int (i div d)" "int i smod int d = int (i mod d)" for i d
    by (auto simp: signed_divide_int_def signed_modulo_int_def zdiv_int zmod_int sgn_if)
  have "(int n sdiv 10 ^ k) smod 10 = int (n div 10 ^ k mod 10)" for k
    using sd(1)[of n "10 ^ k"] sd(2)[of "n div 10 ^ k" 10] by simp
  then have "read_num 10 (MSGSHORT (int n)) = n mod 10 ^ 5"
    unfolding read_num_def MSGSHORT_def ds map_map comp_def
    by (subst digits_rebuild[where N = n]) simp_all
  then show ?thesis using assms by simp
qed

lemma length_messages [simp]: "length (MSGADDR a) = 16" "length (MSGSHORT i) = 5"
  by (simp_all add: MSGADDR_def MSGSHORT_def)

lemma saved_register_number: "saved_register regnum = Some r \<Longrightarrow> \<exists>n < 17. regnum = int n"
  by (cases r) (auto simp: saved_register_eq intro: exI[of _ "nat regnum"])

lemma trap_kind_tagged: "trap_kind v \<noteq> None \<longleftrightarrow> tagged v"
  by (simp add: trap_kind_def tagged_def Let_def)

lemma fixup_register_value:
  assumes "saved_register regnum = Some r" "tagged (regs r)"
  shows "fst (try_register_fixup regnum (regs, st)) r = take_bit TRAP_TAG_SHIFT (regs r)"
  using assms shl_shr_take_bit by (simp add: try_register_fixup_def tagged_def Let_def)

text \<open>
  (C33) The fault handler's report can be read back.  For every register that the handler looks at, the
  line it writes has the number of the register in five decimal digits and its contents in sixteen
  hexadecimal ones, which read back as exactly these numbers; it calls the contents a trap pointer
  exactly if they are tagged, names the kind of the tag, and then the new value in the line is the one the handler leaves in
  the register, the address without its tag.
\<close>

theorem fault_report_reads_back:
  assumes "saved_register regnum = Some r"
  shows "\<exists>n h rest. fixup_output regnum (regs, st) = ''register '' @ n @ '' contents 0x'' @ h @ '' are '' @ rest
    \<and> length n = 5 \<and> length h = 16 \<and> int (read_num 10 n) = regnum \<and> read_num 16 h = unat (regs r)
    \<and> (if tagged (regs r)
       then \<exists>k h'. rest = ''possibly a '' @ k @ '' trap pointer, so detrapping them; new value is '' @ h' @ newline
         \<and> trap_kind (regs r) = Some k \<and> length h' = 16 \<and> read_num 16 h' = unat (fst (try_register_fixup regnum (regs, st)) r)
         \<and> fst (try_register_fixup regnum (regs, st)) r = take_bit TRAP_TAG_SHIFT (regs r)
       else rest = ''not a trap pointer'' @ newline)"
proof -
  obtain n where n: "n < 17" "regnum = int n" using saved_register_number[OF assms] by blast
  have num: "int (read_num 10 (MSGSHORT regnum)) = regnum" using n by (simp add: read_MSGSHORT)
  let ?v = "fst (try_register_fixup regnum (regs, st)) r"
  show ?thesis
  proof (cases "trap_kind (regs r)")
    case None
    then have "\<not> tagged (regs r)" using trap_kind_tagged by blast
    then show ?thesis
      using None assms num
      by (intro exI[of _ "MSGSHORT regnum"] exI[of _ "MSGADDR (regs r)"] exI[of _ "''not a trap pointer'' @ newline"])
        (simp add: fixup_output_def read_MSGADDR)
  next
    case (Some k)
    then have t: "tagged (regs r)" using trap_kind_tagged by blast
    note v = fixup_register_value[of regnum r regs, OF assms t, of st]
    have "fixup_output regnum (regs, st) = ''register '' @ MSGSHORT regnum @ '' contents 0x'' @ MSGADDR (regs r)
        @ '' are '' @ ''possibly a '' @ k @ '' trap pointer, so detrapping them; new value is ''
        @ MSGADDR ?v @ newline"
      by (simp only: fixup_output_def assms Some option.case fst_conv)
    then show ?thesis
      unfolding if_P[OF t] using num v
      by (intro exI conjI) (assumption | rule read_MSGADDR length_messages Some refl)+
  qed
qed

text \<open>Register \<^verbatim>\<open>rbx\<close>, number 3, with a one-past pointer.\<close>

theorem fault_report_reads_back_witness:
  "\<exists>n h rest. fixup_output 3 ((\<lambda>_. 0x2000000602000), ex_st) = ''register '' @ n @ '' contents 0x'' @ h @ '' are '' @ rest
    \<and> read_num 10 n = 3 \<and> read_num 16 h = 0x2000000602000"
proof -
  have "saved_register 3 = Some RBX" by (simp add: saved_register_def fixup_regs_def)
  from fault_report_reads_back[OF this, of "\<lambda>_. 0x2000000602000" ex_st]
  obtain n h rest where "fixup_output 3 ((\<lambda>_. 0x2000000602000), ex_st) =
      ''register '' @ n @ '' contents 0x'' @ h @ '' are '' @ rest"
    "int (read_num 10 n) = 3" "read_num 16 h = unat (0x2000000602000 :: u64)" by blast
  then show ?thesis by (intro exI conjI) simp_all
qed

text \<open>
  The register numbers that reach \<^verbatim>\<open>MSGSHORT\<close> are not negative; a negative number would be printed with
  characters that are not digits.
\<close>

lemma negative_short_not_digits: "MSGSHORT (-12) = ''000/.''"
  by (simp add: MSGSHORT_def DECCHAR_def signed_divide_int_def signed_modulo_int_def char_of_def)

end
