(* ===== verification/Mkstemp_Stubs.thy ===== *)
theory Mkstemp_Stubs
  imports Crunch_Prelude
begin

text \<open>
  The C functions behind the externals \<^verbatim>\<open>mkstemp\<close> and \<^verbatim>\<open>mkstemps\<close> of the preprocessor wrapper
  (\<^verbatim>\<open>frontend/cilpp/src/mkstemp_stubs.c\<close>).  A value of the OCaml runtime is a word: an odd word is an
  integer, shifted left by one, an even word a pointer.  A field of a tuple that the stubs allocate
  holds such a word; strings and tuples stand for the pointers to them.  The C library's functions
  and the runtime's table of named values are parameters.
\<close>

datatype ocaml_value = Word u64 | String string | Tuple "ocaml_value list" | Exn string

definition Val_int :: "int \<Rightarrow> ocaml_value" where
  "Val_int n = Word (of_int (2 * n + 1))"

definition Int_val :: "u64 \<Rightarrow> int" where
  "Int_val w = sint (signed_drop_bit 1 w)"

text \<open>What the garbage collector takes a word for.\<close>

definition is_long :: "u64 \<Rightarrow> bool" where
  "is_long w \<longleftrightarrow> bit w 0"

datatype ocaml_result = Returned ocaml_value | Raised ocaml_value ocaml_value

text \<open>
  The parameters: \<open>create\<close> is \<^verbatim>\<open>mkstemp\<close> or \<^verbatim>\<open>mkstemps\<close> on the duplicated template; it returns the
  descriptor, the string it leaves in the buffer, \<^verbatim>\<open>errno\<close>, and the file system.
\<close>

record 'k os =
  os_mkstemp :: "string \<Rightarrow> 'k \<Rightarrow> int \<times> string \<times> int \<times> 'k"
  os_mkstemps :: "string \<Rightarrow> int \<Rightarrow> 'k \<Rightarrow> int \<times> string \<times> int \<times> 'k"
  os_unix_error_of_code :: "int \<Rightarrow> ocaml_value"
  os_named_value :: "string \<Rightarrow> ocaml_value option"

text \<open>
  The common part of the two functions, which the source repeats.  The tuple for the exception is
  built, but \<^verbatim>\<open>caml_raise_with_arg\<close> gets the error number; the table entry is not tested for null.
  The descriptor is stored in the tuple as it is.
\<close>

definition raise_unix_error :: "'k os \<Rightarrow> string \<Rightarrow> string \<Rightarrow> int \<Rightarrow> ocaml_result outcome" where
  "raise_unix_error os name templ err =
     (let tup = Tuple [os_unix_error_of_code os err, String name, String templ]
      in case os_named_value os ''Unix.Unix_error'' of None \<Rightarrow> Inl NullDeref
         | Some exn \<Rightarrow> Inr (Raised exn (Val_int err)))"

definition fd_and_name :: "int \<Rightarrow> string \<Rightarrow> ocaml_value" where
  "fd_and_name fd name = Tuple [Word (of_int fd), String name]"

definition caml_mkstemp :: "'k os \<Rightarrow> string \<Rightarrow> 'k \<Rightarrow> ocaml_result outcome \<times> 'k" where
  "caml_mkstemp os templ k =
     (case os_mkstemp os templ k of (fd, s_dup, err, k) \<Rightarrow>
        (if fd = -1 then raise_unix_error os ''mkstemp'' templ err
         else Inr (Returned (fd_and_name fd s_dup)), k))"

definition caml_mkstemps :: "'k os \<Rightarrow> string \<Rightarrow> u64 \<Rightarrow> 'k \<Rightarrow> ocaml_result outcome \<times> 'k" where
  "caml_mkstemps os templ suffixlen k =
     (case os_mkstemps os templ (signed_take_bit 31 (Int_val suffixlen)) k of (fd, s_dup, err, k) \<Rightarrow>
        (if fd = -1 then raise_unix_error os ''mkstemps'' templ err
         else Inr (Returned (fd_and_name fd s_dup)), k))"


subsection \<open>What OCaml sees\<close>

lemma sint_of_int_u64: "- (2 ^ 63) \<le> i \<Longrightarrow> i < 2 ^ 63 \<Longrightarrow> sint (of_int i :: u64) = i"
  by (simp add: signed_of_int signed_take_bit_int_eq_self)

lemma Int_val_of_int:
  assumes "- (2 ^ 63) \<le> i" "i < 2 ^ 63"
  shows "Int_val (of_int i) = i div 2"
  using assms by (simp add: Int_val_def sint_signed_drop_bit_eq drop_bit_eq_div sint_of_int_u64)

lemma is_long_of_int: "is_long (of_int i) \<longleftrightarrow> odd i"
  using bit_word_of_int_iff[of i 0, where ?'a = 64] unfolding is_long_def by (simp add: bit_0)

text \<open>
  The parts of the result as OCaml code of the type \<^verbatim>\<open>Unix.file_descr * string\<close> reads them, and whether
  the garbage collector can scan the tuple: no field is an even word, which it would follow.
\<close>

fun file_descr :: "ocaml_value \<Rightarrow> int option" where
  "file_descr (Tuple [Word w, _]) = Some (Int_val w)"
| "file_descr _ = None"

fun file_name :: "ocaml_value \<Rightarrow> string option" where
  "file_name (Tuple [_, String s]) = Some s"
| "file_name _ = None"

fun scannable :: "ocaml_value \<Rightarrow> bool" where
  "scannable (Tuple vs) \<longleftrightarrow> list_all (\<lambda>v. case v of Word w \<Rightarrow> is_long w | _ \<Rightarrow> True) vs"
| "scannable _ \<longleftrightarrow> True"

lemma Int_val_Val_int:
  assumes "- (2 ^ 62) \<le> n" "n < 2 ^ 62"
  shows "file_descr (Tuple [Val_int n, v]) = Some n" "scannable (Tuple [Val_int n, String s])"
  using assms Int_val_of_int[of "2 * n + 1"] is_long_of_int[of "2 * n + 1"]
  by (simp_all add: Val_int_def del: of_int_add of_int_mult)

lemma fd_and_name_read:
  assumes "- (2 ^ 31) \<le> fd" "fd < 2 ^ 31"
  shows "file_name (fd_and_name fd name) = Some name" "file_descr (fd_and_name fd name) = Some (fd div 2)"
    "scannable (fd_and_name fd name) \<longleftrightarrow> odd fd"
  using assms Int_val_of_int[of fd] is_long_of_int[of fd] by (simp_all add: fd_and_name_def)

text \<open>
  (C37) The wrapper gets the name of its temporary file, but not the descriptor.  The C library returns
  -1 or a descriptor, and OCaml has registered \<^verbatim>\<open>Unix_error\<close>.  When a file has been
  created, the tuple holds its name; the descriptor that OCaml reads from it is half of the real
  one, so that it is wrong for every file but descriptor 0, and if the real one is even the tuple is
  not a valid value, since its first field looks like a pointer.  When no file could be created,
  \<^verbatim>\<open>Unix_error\<close> is raised with a plain number in place of the three arguments that the exception has.
\<close>

theorem mkstemps_descriptor_is_untagged:
  assumes "os_mkstemps os templ (signed_take_bit 31 (Int_val suffixlen)) k = (fd, name, err, k')"
    and "-1 \<le> fd" "fd < 2 ^ 31" "os_named_value os ''Unix.Unix_error'' = Some exn"
  shows "if fd = -1
    then caml_mkstemps os templ suffixlen k = (Inr (Raised exn (Val_int err)), k')
    else \<exists>v. caml_mkstemps os templ suffixlen k = (Inr (Returned v), k') \<and> file_name v = Some name
      \<and> file_descr v = Some (fd div 2) \<and> (fd \<noteq> 0 \<longrightarrow> file_descr v \<noteq> Some fd) \<and> (scannable v \<longleftrightarrow> odd fd)"
proof -
  have "fd div 2 \<noteq> fd" if "fd \<noteq> -1" "fd \<noteq> 0" using that by presburger
  then show ?thesis
    using assms fd_and_name_read[of fd name] by (simp add: caml_mkstemps_def raise_unix_error_def Let_def)
qed

text \<open>An operating system on which creating a file gives descriptor 4.\<close>

definition ex_os :: "unit os" where
  "ex_os = \<lparr> os_mkstemp = (\<lambda>s k. (4, ''/tmp/tmp.ab12cd.cpp.i'', 0, k)),
     os_mkstemps = (\<lambda>s n k. (4, ''/tmp/tmp.ab12cd.cpp.i'', 0, k)),
     os_unix_error_of_code = Val_int, os_named_value = (\<lambda>s. Some (Exn s)) \<rparr>"

theorem mkstemps_descriptor_is_untagged_witness:
  "\<exists>v. caml_mkstemps ex_os ''/tmp/tmp.XXXXXX.cpp.i'' 13 () = (Inr (Returned v), ())
     \<and> file_name v = Some ''/tmp/tmp.ab12cd.cpp.i'' \<and> file_descr v = Some 2 \<and> \<not> scannable v"
  using mkstemps_descriptor_is_untagged[of ex_os "''/tmp/tmp.XXXXXX.cpp.i''" 13 "()" 4 "''/tmp/tmp.ab12cd.cpp.i''" 0 "()"]
  by (auto simp: ex_os_def)

lemma mkstemp_descriptor_is_untagged:
  assumes "os_mkstemp os templ k = (fd, name, err, k')" "0 < fd" "fd < 2 ^ 31"
  shows "\<exists>v. caml_mkstemp os templ k = (Inr (Returned v), k') \<and> file_name v = Some name
    \<and> file_descr v \<noteq> Some fd"
  using assms fd_and_name_read[of fd name] by (simp add: caml_mkstemp_def)

end
