(* ===== verification/Trapped_Access.thy ===== *)
theory Trapped_Access
  imports Instrumented_Program Fault_Handler
begin

text \<open>
  Instrumented programs together with the fault handler.  An access through a pointer uses some
  register; if the pointer carries a tag the address is not canonical and the access faults.  If
  \<^verbatim>\<open>src/libcrunch.c\<close> is linked and its handler installed, the handler removes the tag, counts the
  recovery and lets the instruction run again; the stub library installs no handler, and the signal
  ends the process.
\<close>

text \<open>
  An access by an instruction whose memory operand uses the register \<open>r\<close>: the registers and the state
  with which the instruction completes.
\<close>

definition access_through ::
  "config \<Rightarrow> (addr \<Rightarrow> operand list) \<Rightarrow> greg \<Rightarrow> gregs \<Rightarrow> 'w crunch \<Rightarrow> (gregs \<times> 'w crunch) outcome" where
  "access_through c operands_at r regs st =
     (if \<not> libcrunch_is_trap_ptr c (regs r) then Inr (regs, st)
      else if segv_handler_installed st then handle_sigsegv operands_at regs st
      else Inl Exited)"

lemma trapped_access:
  assumes "libcrunch_is_trap_ptr c (regs r)" "segv_handler_installed st" "tagged (regs r)"
    and "r \<in> named_regs (operands_at (regs RIP))"
  shows "access_through c operands_at r regs st =
    Inr (untag_regs (named_regs (operands_at (regs RIP))) regs,
      st\<lparr> cnt_fault_handler_fixups := cnt_fault_handler_fixups st + 1, did_fixup := False \<rparr>)"
  using assms by (auto simp: access_through_def handle_sigsegv_def operands_fixed_up fixed_up_def)

text \<open>
  (C2) Accesses outside the bounds do not happen unseen, in the real library with its fault handler
  installed, for a program as in C1 whose derivations so far have stripped no tag.  Take an
  instruction that accesses memory through a register (not the stack pointer) holding one of the
  program's pointers.  If the access is made as it stands, without a fault, the pointer's address is
  inside the object whose bounds it carries, an object of the program.  If the pointer has one of the
  three tags above a 49-bit address, the access faults, the handler counts one recovery and resumes
  with the 49 bits below the tag in the register, memory and bounds stack unchanged.  If the bits above are
  not one of these tags, the handler leaves this register as it is or ends the process.
\<close>

theorem accesses_in_bounds_or_caught:
  fixes st :: "'w crunch"
  assumes "program_config c" "prog_reachable c (real_runtime c la) st s" "clean c s"
    and "segv_handler_installed (lib s)"
    and "locals s x = Some (q, b)" "r \<in> named_regs (operands_at (regs RIP))" "regs r = q"
  shows "if \<not> libcrunch_is_trap_ptr c q
    then access_through c operands_at r regs (lib s) = Inr (regs, lib s) \<and> b \<in> objects s \<and> admits b q
    else if tagged q
    then \<exists>regs' st'. access_through c operands_at r regs (lib s) = Inr (regs', st')
         \<and> regs' r = take_bit TRAP_TAG_SHIFT q
         \<and> cnt_fault_handler_fixups st' = cnt_fault_handler_fixups (lib s) + 1
         \<and> memory st' = memory (lib s) \<and> bounds_sp st' = bounds_sp (lib s)
    else access_through c operands_at r regs (lib s) = Inl Exited
         \<or> (\<exists>regs' st'. access_through c operands_at r regs (lib s) = Inr (regs', st') \<and> regs' r = q)"
proof -
  have "prog_ok c s" by (rule real_reporter.reachable_ok[OF assms(1-3)])
  then have ok: "ptr_ok c (objects s) (q, b)" using assms(5) by (auto simp: prog_ok_def dest: env_okD)
  consider "\<not> libcrunch_is_trap_ptr c q" | "libcrunch_is_trap_ptr c q" "tagged q"
    | "libcrunch_is_trap_ptr c q" "\<not> tagged q" by blast
  then show ?thesis
  proof cases
    case 1
    then show ?thesis
      using untagged_admitted[OF ok] ptr_okD(1)[OF ok] assms(7) by (simp add: access_through_def)
  next
    case 2
    then show ?thesis
      using trapped_access[of c regs r "lib s" operands_at] assms(4,6,7) by (auto simp: untag_regs_def)
  next
    case 3
    then show ?thesis
      using assms(4,7)
      by (auto simp: access_through_def handle_sigsegv_def operands_fixed_up fixed_up_def untag_regs_def)
  qed
qed

text \<open>The pointer one past the end of an object, in the real library with its handler installed.\<close>

theorem accesses_in_bounds_or_caught_witness:
  "\<exists>s regs' st'. prog_reachable config_m (real_runtime config_m ex_la)
       (ex_st\<lparr> segv_handler_installed := True \<rparr>) s
     \<and> locals s ''y'' = Some (libcrunch_trap config_m 0x1028 TRAP_ONE_PAST, ex_bounds)
     \<and> access_through config_m (\<lambda>a. [\<lparr> op_type = 1, op_fromreg1 = Some 0, op_fromreg2 = None \<rparr>]) RAX
         (\<lambda>r. if r = RAX then libcrunch_trap config_m 0x1028 TRAP_ONE_PAST else 0x401000) (lib s) = Inr (regs', st')
     \<and> regs' RAX = 0x1028 \<and> \<not> admits ex_bounds (regs' RAX)"
proof -
  let ?q = "libcrunch_trap config_m 0x1028 TRAP_ONE_PAST"
  let ?op = "\<lparr> op_type = 1, op_fromreg1 = Some 0, op_fromreg2 = None \<rparr>"
  let ?st = "ex_st\<lparr> segv_handler_installed := True \<rparr>"
  let ?s = "(initial_program ?st)\<lparr>
      locals := [''x'' \<mapsto> (0x1000, ex_bounds), ''y'' \<mapsto> (?q, ex_bounds)], objects := {ex_bounds},
      derivations := [(ex_bounds, 0x1000 + 40)] \<rparr>"
  have run: "prog_reachable config_m (real_runtime config_m ex_la) ?st ?s"
    by (rule ex_derive) (simp add: libcrunch_trap_def)
  have cl: "clean config_m ?s" by (rule ex_clean[of 40]) simp_all
  have h: "segv_handler_installed (lib ?s)" "locals ?s ''y'' = Some (?q, ex_bounds)"
    by (simp_all add: initial_program_def)
  let ?regs = "\<lambda>r. if r = RAX then ?q else 0x401000"
  have r: "RAX \<in> named_regs ((\<lambda>a. [?op]) (?regs RIP))"
    by (simp add: named_regs_def fixup_regs_def)
  have u: "user_ptr 0x1028" by (simp add: user_ptr_def)
  have t: "libcrunch_is_trap_ptr config_m ?q" "tagged ?q" "take_bit 49 ?q = 0x1028"
    using is_trap_ptr_trap[OF ex_traps user_ptr_canonical[OF u], of TRAP_ONE_PAST]
      tagged_trap[OF ex_traps u, of TRAP_ONE_PAST] by simp_all
  have n: "\<not> admits ex_bounds 0x1028" by (simp add: admits_def austin_def)
  from accesses_in_bounds_or_caught[OF ex_program_config run cl h, where operands_at = "\<lambda>a. [?op]"
      and regs = ?regs and r = RAX, OF r if_P[OF refl]] t
  obtain regs' st' where "access_through config_m (\<lambda>a. [?op]) RAX ?regs (lib ?s) = Inr (regs', st')"
      "regs' RAX = 0x1028" by (simp only: if_True if_False not_not simp_thms) blast
  with run h(2) n show ?thesis by metis
qed

text \<open>
  The checks ignore the size of the access (\<^verbatim>\<open>t_sz\<close> is unused): a pointer to the last byte of an object
  is in bounds for an access of any width, of which the further bytes lie outside.
\<close>

lemma wide_access_leaves_object:
  assumes "split_config c" "user_bounds b" "user_ptr p" "user_ptr (p + i)"
    and "p + i = bnd_base b + bnd_size b - 1"
  shows "full_check_derive_ptr c rt pc (p + i) p b t st = Inr ((True, p + i, b), st)" "\<not> admits b (p + i + 1)"
proof -
  have "bnd_size b \<noteq> 0" using assms(2) by (auto simp: user_bounds_def)
  then have "p + i - bnd_base b < bnd_size b"
    unfolding assms(5) by (simp add: word_less_nat_alt unat_sub_if' flip: unat_gt_0)
  then have "verdict_of b (p + i) = InBounds" using verdict_sub(1)[OF assms(2)] by blast
  then show "full_check_derive_ptr c rt pc (p + i) p b t st = Inr ((True, p + i, b), st)"
    using split_untagged[OF assms(1,2,4,3)] by simp
  have "p + i + 1 - bnd_base b = bnd_size b" unfolding assms(5) by simp
  then show "\<not> admits b (p + i + 1)" by (simp add: admits_def austin_def)
qed

end
