(* ===== verification/Spec2Isabelle.thy ===== *)
theory Spec2Isabelle
  imports Bounds_Stack Pointer_Store Fault_Handler Shadow_Init Stubs Shadowprov Shadowprov_Libc
    Softbound_Wrappers Dev_Ones_Life Ool_Inlines Instrumented_Program Smoothsort Gold_Plugin Checked_Cast
    Provenance_Program Fault_Messages Mkstemp_Stubs Trapped_Access
begin

text \<open>
  libcrunch: run-time checks for C programs.

  \<^bold>\<open>The program.\<close>  libcrunch checks type and bounds errors in C programs while they run.  A compiler
  front end instruments pointer arithmetic, dereferences, pointer stores, calls and casts with calls of
  inline functions (\<^verbatim>\<open>include/libcrunch_cil_inlines.h\<close>); these keep the bounds of pointers in local
  variables, in a shadow of the address space (for pointers in memory) and on a second stack (for
  arguments and results), and fall back to a library (\<^verbatim>\<open>src/libcrunch.c\<close>, or \<^verbatim>\<open>src/stubs.c\<close> when the library
  is not loaded) that asks liballocs which allocation an address lies in and of what type it is.  A
  pointer that has gone out of bounds is tagged in its unused high bits, so that a dereference traps; a
  fault handler can remove the tag.  \<^verbatim>\<open>src/shadow.c\<close> maps the shadow space at start-up, with ones from
  \<^verbatim>\<open>kernel/dev-ones\<close> where the module is loaded.  A second instrumentation,
  \<^verbatim>\<open>frontend/c/shadowprov\<close>, uses the same machinery for provenance instead of bounds; a linker plugin
  links its run-time objects, among them a sort that replaces the C library's.
  \<^verbatim>\<open>src/softbound-libc-wrappers.c\<close> wraps C library functions for the SoftBound mode, and
  \<^verbatim>\<open>frontend/c++/include/checked_cast.hpp\<close> turns the casts of C++ programs into type checks.
  \<^verbatim>\<open>frontend/cilpp/src/mkstemp_stubs.c\<close> gives the preprocessor wrapper, an OCaml program, its temporary files.

  \<^bold>\<open>The theories\<close>, in the order of their imports:

  \<^item> \<open>Crunch_Prelude\<close>: words, the byte-addressed memory, and \<open>outcome\<close>, a sum of a \<open>fault\<close> (abort, failed
    assertion, reaching a point declared unreachable, null dereference, division by zero, read of
    an uninitialised variable, an index outside an array, a shift by the width of the word, exit, a loop without fuel) and a result.
  \<^item> \<open>Crunch_Config\<close>: the preprocessor macros, as a record \<open>config\<close>; \<open>config_m\<close> and others are the
    configurations that \<^verbatim>\<open>frontend/c/lib/bounds-config-*\<close> define.
  \<^item> \<open>Trap_Pointers\<close> and \<open>Bounds\<close>: tags in pointers, and bounds values in their three layouts; the
    interface \<open>bounds_rep\<close>.
  \<^item> \<open>Shadow_Space\<close>: where the shadow base and size of a slot are (\<open>libcrunch_base_stored_loc\<close>,
    \<open>libcrunch_size_stored_loc\<close>), stores, fetches and \<^verbatim>\<open>__notify_copy\<close>; the interface \<open>shadow_map\<close>.
  \<^item> \<open>Crunch_State\<close>: the state \<open>'w crunch\<close> (memory, bounds stack pointer, counters, report state, and the
    rest of the process, of type \<open>'w\<close>), and the record \<open>'w liballocs\<close> of everything the code calls in
    liballocs; \<open>Example_World\<close>: a small concrete liballocs for the witnesses.
  \<^item> \<open>Suppressions\<close> and \<open>Library_Init\<close>: suppression lists, failure reports, constructors, the one-shot
    initialisation and the exit summary.
  \<^item> \<open>Fetch_Bounds\<close> and \<open>Runtime\<close>: bounds from the cache and from liballocs
    (\<^verbatim>\<open>__fetch_bounds_internal\<close>), the error functions, and \<open>'w runtime\<close>, what the inline functions call,
    for the real and the stub library; the interface \<open>bounds_supplier\<close>.
  \<^item> \<open>Derive_Check\<close>: the primary, secondary and full derivation checks and the dereference check.
  \<^item> \<open>Bounds_Stack\<close>: the calling convention on the bounds stack; the interface \<open>value_stack\<close>.
  \<^item> \<open>Pointer_Store\<close>: stores of pointers to memory, directly and through \<^verbatim>\<open>void **\<close>.
  \<^item> \<open>Instrumented_Program\<close>: programs composed of the operations above as the front end emits them (a
    step relation \<open>prog_step\<close>, in which any pointer may be derived from, with a record of the derivations),
    the typing \<open>prog_ok\<close> of their states, and the interface \<open>error_reporter\<close>, which both libraries provide.
  \<^item> \<open>Type_Relations\<close>, \<open>Type_Checks\<close> and \<open>Check_Contract\<close>: the loops over types, the checks
    (\<^verbatim>\<open>__is_a\<close>, \<^verbatim>\<open>__like_a\<close>, \<^verbatim>\<open>__loosely_like_a\<close>, \<^verbatim>\<open>__named_a\<close>, \<^verbatim>\<open>__is_a_function_refining\<close>,
    \<^verbatim>\<open>__is_a_pointer_of_degree\<close>, \<^verbatim>\<open>__can_hold_pointer\<close>, \<^verbatim>\<open>__check_args\<close>), inline and out of line, and what
    all of them promise to the program, with the causes for which they stop it (the interface
    \<open>program_check\<close>).
  \<^item> \<open>Stubs\<close>: the stub library as a second provider of that interface.
  \<^item> \<open>Checked_Cast\<close>: the casts of the C++ front end, on top of \<^verbatim>\<open>__is_a_internal\<close> of either library (the
    interface \<open>cast_checker\<close>).
  \<^item> \<open>Fault_Handler\<close>: the signal handlers on the saved registers; \<open>Fault_Messages\<close>: what they write to
    the standard error stream, with the macros that print numbers digit by digit.
  \<^item> \<open>Trapped_Access\<close>: the programs of \<open>Instrumented_Program\<close> together with the fault handler.
  \<^item> \<open>Shadow_Init\<close>: the constructor that maps the shadow space, the initial bounds of arguments,
    environment and C library objects, and the hook that places later mappings.
  \<^item> \<open>Shadowprov\<close> and \<open>Shadowprov_Libc\<close>: the provenance instrumentation and its libc wrappers; they
    interpret \<open>shadow_map\<close> and \<open>value_stack\<close> on shadow bytes.  \<open>Provenance_Program\<close>: programs composed of
    the provenance operations (a step relation \<open>prov_step\<close>), each value with the allocation it came from.
  \<^item> \<open>Gold_Plugin\<close>: the linker plugin.
  \<^item> \<open>Leonardo_Heaps\<close> and \<open>Smoothsort_Phases\<close>: smoothsort on functions from indices to elements, the
    abstract algorithm, and that it sorts; \<open>Smoothsort_Code\<close>: \<^verbatim>\<open>frontend/c/shadowprov/qsort.c\<close> on bytes,
    pointers, shift vectors and fixed arrays; \<open>Order_Vector\<close>: the two words \<^verbatim>\<open>p[2]\<close> as a list of tree
    orders; \<open>Smoothsort\<close>: the code refines the algorithm.
  \<^item> \<open>Softbound_Wrappers\<close>: the SoftBound wrappers and the macros of generated allocator wrappers.
  \<^item> \<open>Dev_Ones\<close>: the operations of the kernel module; \<open>Dev_Ones_Life\<close>: loading, unloading and mappings
    in any order, with the reference counts that the operations change.
  \<^item> \<open>Mkstemp_Stubs\<close>: the C functions of the preprocessor wrapper on values of the OCaml runtime.
  \<^item> \<open>Ool_Inlines\<close>: the out-of-line entry points.

  \<^bold>\<open>What is shown.\<close>
  Programs: as long as no derivation of an instrumented program strips a tag, the address of every
  access lies in one of its objects, however pointers pass through variables, memory, arguments and
  results; a step preserves the typing of pointers by bounds exactly if it strips no tag, and it is
  stated which operations return and what stops the others.
  Derivations: the checks implement a three-way verdict (in bounds, one past, out) on the address
  without its tag, for tagged and untagged pointers.  The tags are toggled and not set, so that
  deriving the one-past address from a one-past pointer, or an address out of bounds from an invalid
  pointer, strips the tag; a chain of derivations ends with an untagged pointer out of bounds exactly if
  its last step does that.
  Bounds: with liballocs as documented, a lookup returns bounds that admit the pointer, unless the
  pointer is null, where the code reads an uninitialised variable; a full fetch ends at a point declared
  unreachable exactly if pointer type information is off and \<^verbatim>\<open>dladdr\<close> knows nothing.  The
  shadow space is a map from slots to bounds that never touches program data.  Its locations lie
  in the regions that the constructor maps, except for the sizes of two pages and the shadow of one
  address.  Copies, stores, calls and results carry bounds along; arguments and environment start
  with exact bounds; and the mappings that the \<^verbatim>\<open>mmap\<close> hook places do not overlap and are shadowed above the
  lowest page of the range, if they still end inside it.
  Type checks: a sequence of checks returns 1 each time and leaves the program's memory alone, or stops
  for one of a list of causes in what liballocs answers; the shortcuts of \<^verbatim>\<open>__is_a\<close> have the verdict of
  the full search but for two cases; it is stated exactly which types \<^verbatim>\<open>__like_a\<close> and
  \<^verbatim>\<open>__is_a_function_refining\<close> accept; and every loop over types ends.
  Faults: the handler of the real library removes exactly the tags of the registers that the faulting
  access used, so that an access through a pointer of a program that has stripped no tag is in bounds, or
  caught, counted and resumed without the tag, or left alone by the handler or ended; and the numbers in
  its report read back.
  Provenance: shadow bytes form a map, calls pass them, through whole programs an access is accepted
  exactly where the hashes of the allocation bases agree, and it is stated for each wrapper of a C function
  that returns a pointer, except \<^verbatim>\<open>realloc\<close>, which shadow its result has.
  The rest: a page in a mapping of \<^verbatim>\<open>/dev/ones\<close> stays full of ones, whatever happens to the module.  The
  replacement sort terminates within its fixed arrays, sorts, and changes nothing outside the array;
  the plugin adds its objects to the link; and C++ casts compute what the templates say, whatever the
  checks find, unless a check stops the program.  Theorems on errors record where the code does
  something else than it means to.

  \<^bold>\<open>Hypotheses.\<close>  liballocs, the kernel, the C library and the instruction decoder are parameters.
  \<open>liballocs_sound\<close>, \<open>subobject_search_sound\<close>, \<open>array_layout_sound\<close> and \<open>type_graph_sound\<close> name what the code
  relies on of liballocs: allocations contain the address they are found for; its search for a
  subobject descends through the subobjects that span the offset; the subobjects of an array are its
  elements; type hierarchies are finite.  Each is shown for the example liballocs, on which the
  witnesses evaluate.  \<open>has_shadow_space\<close>, \<open>split_config\<close>, \<open>long_config\<close> and \<open>stack_config\<close> select
  configurations, among them the default one, \<open>config_m\<close>.

  \<^bold>\<open>Loops and fuel.\<close>  Loops over lists and counters are structural or have a measure.  The loops over
  types take as fuel the rank of the type they start from (\<open>subobject_rank\<close>, \<open>pointer_rank\<close>), which
  \<open>type_graph_sound\<close> makes decrease with every step, so that they return; loops over argument vectors take
  the number of elements, \<^verbatim>\<open>strlen\<close> the longest string that the kernel passes to a program, and
  the two loops of \<^verbatim>\<open>qsort\<close> the number of elements to sort.  Running
  out of fuel is the fault \<open>NonTermination\<close>, and the theorems show that it does not occur.

  \<^bold>\<open>Not modelled.\<close>  The texts of messages and debug traces other than those of the fault handler
  (reports are modelled as the kind of failure and its site), the dump of \<^verbatim>\<open>/proc/self/smaps\<close> at exit,
  the OCaml instrumentation passes (the code they emit is composed in \<open>Instrumented_Program\<close> and
  \<open>Provenance_Program\<close>) and the preprocessor wrapper itself, the static members \<^verbatim>\<open>from\<close> of the C++ cast
  classes, which nothing calls, and the tests.  Code that is commented out or under \<^verbatim>\<open>#if 0\<close>, which
  is most of \<^verbatim>\<open>src/softbound-libc-wrappers.c\<close> and parts of \<^verbatim>\<open>src/libcrunch.c\<close>, has no model, nor
  has \<^verbatim>\<open>src/libcrunch_private.h\<close>, which holds declarations and the macros of debug traces.
  Threads: the per-thread variables are modelled for one thread.
\<close>

end
